(* ===== verification/Prelude.thy ===== *)
theory Prelude
  imports Main "HOL-Library.Word"
begin

text \<open>
  Shared vocabulary of the development.

  \<^item> \<open>exec\<close> is the outcome of running a piece of kernel code: it either returns
    a value (\<open>Ret\<close>) or stops the machine with a panic (\<open>Panic\<close>, with the reason).
    \<open>OutOfFuel\<close> stands for a loop that did not end within the steps the model grants it.
    Fallible Rust functions that return \<open>Result\<close> are modelled by an \<open>exec\<close> whose value is
    a sum; \<open>Inl\<close> is the error, \<open>Inr\<close> the result.
  \<^item> \<open>usize\<close> is a natural number.  The arithmetic of the default (dev) build profile
    panics on overflow, and \<open>usize_add\<close>, \<open>usize_sub\<close> and \<open>usize_mul\<close> write this out.
  \<^item> \<open>u64\<close>, \<open>u32\<close>, \<open>u16\<close> and \<open>u8\<close> are machine words and are used where the
    code works on bits.
\<close>

section \<open>Types\<close>

type_synonym usize = nat
type_synonym u64 = "64 word"
type_synonym u32 = "32 word"
type_synonym u16 = "16 word"
type_synonym u8 = "8 word"

datatype panic_reason =
    Overflow
  | OutOfBounds
  | DivByZero
  | AssertFailed
  | UnwrapNone
  | UnwrapErr
  | Uninit
  | OutOfFuel
  | Explicit string

datatype 'a exec = Ret 'a | Panic panic_reason

section \<open>Sequencing\<close>

fun bind_exec :: "'a exec \<Rightarrow> ('a \<Rightarrow> 'b exec) \<Rightarrow> 'b exec" where
  "bind_exec (Ret x) f = f x"
| "bind_exec (Panic r) f = Panic r"

definition assert_exec :: "bool \<Rightarrow> 'b exec \<Rightarrow> 'b exec" where
  "assert_exec b k = (if b then k else Panic AssertFailed)"

fun is_ret :: "'a exec \<Rightarrow> bool" where
  "is_ret (Ret _) = True"
| "is_ret (Panic _) = False"

section \<open>Checked arithmetic of usize\<close>

definition usize_bound :: nat where
  "usize_bound = 2 ^ 64"

definition usize_add :: "nat \<Rightarrow> nat \<Rightarrow> nat exec" where
  "usize_add a b = (if a + b < usize_bound then Ret (a + b) else Panic Overflow)"

definition usize_sub :: "nat \<Rightarrow> nat \<Rightarrow> nat exec" where
  "usize_sub a b = (if b \<le> a then Ret (a - b) else Panic Overflow)"

definition usize_mul :: "nat \<Rightarrow> nat \<Rightarrow> nat exec" where
  "usize_mul a b = (if a * b < usize_bound then Ret (a * b) else Panic Overflow)"

text \<open>The bitwise complement of a 64-bit unsigned number.\<close>

definition usize_not :: "nat \<Rightarrow> nat" where
  "usize_not a = usize_bound - 1 - a"

section \<open>Fact collections\<close>

named_theorems exec_simps \<open>unfolding the sequencing of kernel code\<close>

section \<open>Lemmas\<close>

lemma bind_exec_eq_Ret [exec_simps]:
  "bind_exec m f = Ret y \<longleftrightarrow> (\<exists>x. m = Ret x \<and> f x = Ret y)"
  by (cases m) auto

lemma bind_exec_Ret_eq [exec_simps]:
  "Ret y = bind_exec m f \<longleftrightarrow> (\<exists>x. m = Ret x \<and> f x = Ret y)"
  by (cases m) auto

lemma bind_exec_eq_Panic [exec_simps]:
  "bind_exec m f = Panic r \<longleftrightarrow> m = Panic r \<or> (\<exists>x. m = Ret x \<and> f x = Panic r)"
  by (cases m) auto

lemma bind_exec_Ret [simp]: "bind_exec m Ret = m"
  by (cases m) auto

lemma bind_exec_cong [fundef_cong]:
  "m = m' \<Longrightarrow> (\<And>x. m' = Ret x \<Longrightarrow> f x = g x) \<Longrightarrow> bind_exec m f = bind_exec m' g"
  by (cases m') auto

lemma assert_exec_cong [fundef_cong]:
  "b = b' \<Longrightarrow> (b' \<Longrightarrow> k = k') \<Longrightarrow> assert_exec b k = assert_exec b' k'"
  by (simp add: assert_exec_def)

lemma bind_exec_assoc:
  "bind_exec (bind_exec m f) g = bind_exec m (\<lambda>x. bind_exec (f x) g)"
  by (cases m) auto

lemma assert_exec_simps [simp]:
  "assert_exec True k = k" "assert_exec False k = Panic AssertFailed"
  by (simp_all add: assert_exec_def)

lemma assert_exec_eq_Ret [exec_simps]:
  "assert_exec b k = Ret y \<longleftrightarrow> b \<and> k = Ret y"
  by (simp add: assert_exec_def)

lemma is_ret_iff: "is_ret m \<longleftrightarrow> (\<exists>x. m = Ret x)"
  by (cases m) auto

lemma usize_add_eq_Ret [exec_simps]:
  "usize_add a b = Ret c \<longleftrightarrow> c = a + b \<and> a + b < usize_bound"
  by (auto simp: usize_add_def)

lemma usize_sub_eq_Ret [exec_simps]:
  "usize_sub a b = Ret c \<longleftrightarrow> c = a - b \<and> b \<le> a"
  by (auto simp: usize_sub_def)

lemma usize_mul_eq_Ret [exec_simps]:
  "usize_mul a b = Ret c \<longleftrightarrow> c = a * b \<and> a * b < usize_bound"
  by (auto simp: usize_mul_def)

lemma usize_add_Ret [simp]: "a + b < usize_bound \<Longrightarrow> usize_add a b = Ret (a + b)"
  by (simp add: usize_add_def)

lemma usize_sub_Ret [simp]: "b \<le> a \<Longrightarrow> usize_sub a b = Ret (a - b)"
  by (simp add: usize_sub_def)

lemma not_Some_pair [simp]: "(\<forall>a b. x \<noteq> Some (a, b)) \<longleftrightarrow> x = None"
  by (cases x) auto

end
