(* ===== verification/Queue_Interface.thy ===== *)
theory Queue_Interface
  imports Prelude
begin

text \<open>
  The contract of a first-in first-out channel, as the kernel's ring buffer and the buffer of a
  pipe implement it.  \<open>enq\<close> may refuse an element (a bounded buffer that is full), \<open>deq\<close>
  returns nothing on an empty channel.  The client lemma says what any sequence of operations
  delivers.
\<close>

datatype 'a fifo_op = Enq 'a | Deq

text \<open>
  A run of operations: the elements that were accepted, the elements that were delivered, and
  the channel at the end.
\<close>

fun fifo_run ::
  "('q \<Rightarrow> 'a \<Rightarrow> (bool \<times> 'q) exec) \<Rightarrow> ('q \<Rightarrow> ('a option \<times> 'q) exec) \<Rightarrow> 'a fifo_op list \<Rightarrow> 'q
     \<Rightarrow> ('a list \<times> 'a list \<times> 'q) exec" where
  "fifo_run enq deq [] q = Ret ([], [], q)"
| "fifo_run enq deq (Enq x # ops) q =
     bind_exec (enq q x) (\<lambda>(ok, q1).
     bind_exec (fifo_run enq deq ops q1) (\<lambda>(acc, del, q2).
     Ret (if ok then x # acc else acc, del, q2)))"
| "fifo_run enq deq (Deq # ops) q =
     bind_exec (deq q) (\<lambda>(r, q1).
     bind_exec (fifo_run enq deq ops q1) (\<lambda>(acc, del, q2).
     Ret (acc, (case r of None \<Rightarrow> del | Some x \<Rightarrow> x # del), q2)))"

locale fifo =
  fixes inv :: "'q \<Rightarrow> bool"
    and elems :: "'q \<Rightarrow> 'a list"
    and enq :: "'q \<Rightarrow> 'a \<Rightarrow> (bool \<times> 'q) exec"
    and deq :: "'q \<Rightarrow> ('a option \<times> 'q) exec"
  assumes enq_law: "inv q \<Longrightarrow> \<exists>ok q'. enq q x = Ret (ok, q') \<and> inv q'
      \<and> elems q' = (if ok then elems q @ [x] else elems q)"
    and deq_law: "inv q \<Longrightarrow> \<exists>q'. deq q = Ret (case elems q of [] \<Rightarrow> None | x # _ \<Rightarrow> Some x, q')
      \<and> inv q' \<and> elems q' = tl (elems q)"
begin

lemma fifo_order:
  "inv q \<Longrightarrow> \<exists>acc del q'. fifo_run enq deq ops q = Ret (acc, del, q') \<and> inv q'
      \<and> elems q @ acc = del @ elems q'"
proof (induction ops arbitrary: q)
  case (Cons op ops)
  show ?case
  proof (cases op)
    case (Enq x)
    obtain ok q1 where e: "enq q x = Ret (ok, q1)" "inv q1"
      and el: "elems q1 = (if ok then elems q @ [x] else elems q)"
      using enq_law[OF Cons.prems] by blast
    obtain acc del q2 where r: "fifo_run enq deq ops q1 = Ret (acc, del, q2)" "inv q2"
      "elems q1 @ acc = del @ elems q2"
      using Cons.IH[OF e(2)] by blast
    then show ?thesis using Enq e el by (auto split: if_splits)
  next
    case Deq
    obtain q1 where d: "deq q = Ret (case elems q of [] \<Rightarrow> None | x # _ \<Rightarrow> Some x, q1)" "inv q1"
      and el: "elems q1 = tl (elems q)"
      using deq_law[OF Cons.prems] by blast
    obtain acc del q2 where r: "fifo_run enq deq ops q1 = Ret (acc, del, q2)" "inv q2"
      "elems q1 @ acc = del @ elems q2"
      using Cons.IH[OF d(2)] by blast
    then show ?thesis using Deq d el by (cases "elems q") auto
  qed
qed simp

end

end
