(* ===== verification/Ring_Buffer.thy ===== *)
theory Ring_Buffer
  imports Queue_Interface
begin

text \<open>
  Model of kernel/src/collections/ring.rs.  A slot of type \<open>MaybeUninit<T>\<close> is an option,
  \<open>None\<close> for a slot that was never written; reading or dropping such a slot, which is undefined
  behaviour in the code, is the panic \<open>Uninit\<close> of the model.  The capacity \<open>N\<close> is the length
  of the buffer.  The ring holds at most \<open>N - 1\<close> elements, because equal indices mean empty.
\<close>

section \<open>The ring buffer\<close>

record 'a ring =
  buffer :: "'a option list"
  read_index :: usize
  write_index :: usize

definition ring_empty :: "nat \<Rightarrow> 'a ring" where
  "ring_empty N = \<lparr>buffer = replicate N None, read_index = 0, write_index = 0\<rparr>"

definition rem_len :: "usize \<Rightarrow> 'a list \<Rightarrow> usize exec" where
  "rem_len i buf = (if length buf = 0 then Panic DivByZero else Ret (i mod length buf))"

definition try_push :: "'a ring \<Rightarrow> 'a \<Rightarrow> (bool \<times> 'a ring) exec" where
  "try_push r v =
     bind_exec (rem_len (write_index r + 1) (buffer r)) (\<lambda>next_index.
     if next_index = read_index r then Ret (False, r)
     else if write_index r < length (buffer r)
     then Ret (True, r\<lparr>buffer := (buffer r)[write_index r := Some v], write_index := next_index\<rparr>)
     else Panic OutOfBounds)"

definition push :: "'a ring \<Rightarrow> 'a \<Rightarrow> 'a ring exec" where
  "push r v =
     bind_exec (rem_len (write_index r + 1) (buffer r)) (\<lambda>next_index.
     if next_index = read_index r then Panic (Explicit ''Ring buffer overflow'')
     else if write_index r < length (buffer r)
     then Ret (r\<lparr>buffer := (buffer r)[write_index r := Some v], write_index := next_index\<rparr>)
     else Panic OutOfBounds)"

definition read_slot :: "'a ring \<Rightarrow> usize \<Rightarrow> 'a exec" where
  "read_slot r i =
     (if i < length (buffer r)
      then (case buffer r ! i of None \<Rightarrow> Panic Uninit | Some v \<Rightarrow> Ret v)
      else Panic OutOfBounds)"

definition push_replace :: "'a ring \<Rightarrow> 'a \<Rightarrow> 'a ring exec" where
  "push_replace r v =
     bind_exec (rem_len (write_index r + 1) (buffer r)) (\<lambda>next_index.
     if next_index = read_index r
     then bind_exec (read_slot r (read_index r)) (\<lambda>_.
          bind_exec (rem_len (read_index r + 1) (buffer r)) (\<lambda>next_read.
          Ret (r\<lparr>buffer := (buffer r)[read_index r := Some v], write_index := next_index,
                read_index := next_read\<rparr>)))
     else if write_index r < length (buffer r)
     then Ret (r\<lparr>buffer := (buffer r)[write_index r := Some v], write_index := next_index\<rparr>)
     else Panic OutOfBounds)"

definition pop :: "'a ring \<Rightarrow> ('a option \<times> 'a ring) exec" where
  "pop r =
     (if read_index r = write_index r then Ret (None, r)
      else bind_exec (read_slot r (read_index r)) (\<lambda>value.
           bind_exec (rem_len (read_index r + 1) (buffer r)) (\<lambda>next_read.
           Ret (Some value, r\<lparr>read_index := next_read\<rparr>))))"

definition clear :: "'a ring \<Rightarrow> 'a ring" where
  "clear r = r\<lparr>read_index := 0, write_index := 0\<rparr>"

section \<open>The elements of a ring\<close>

definition ring_count :: "'a ring \<Rightarrow> nat" where
  "ring_count r =
     (if read_index r \<le> write_index r then write_index r - read_index r
      else write_index r + length (buffer r) - read_index r)"

definition ring_slots :: "'a ring \<Rightarrow> 'a option list" where
  "ring_slots r =
     map (\<lambda>i. buffer r ! ((read_index r + i) mod length (buffer r))) [0..<ring_count r]"

definition ring_inv :: "'a ring \<Rightarrow> bool" where
  "ring_inv r \<longleftrightarrow> read_index r < length (buffer r) \<and> write_index r < length (buffer r)
     \<and> None \<notin> set (ring_slots r)"

definition ring_elems :: "'a ring \<Rightarrow> 'a list" where
  "ring_elems r = map the (ring_slots r)"

section \<open>Lemmas\<close>

lemma wrap_mod:
  assumes "(a::nat) < 2 * n"
  shows "a mod n = (if a < n then a else a - n)"
  using assms by (simp add: le_mod_geq)

lemma ring_inv_mod [simp]: "ring_inv r \<Longrightarrow> a mod length (buffer r) < length (buffer r)"
  by (auto simp: ring_inv_def intro!: mod_less_divisor)

lemma ring_count_bound:
  assumes "ring_inv r"
  shows "ring_count r < length (buffer r)"
  using assms by (auto simp: ring_count_def ring_inv_def)

lemma ring_write_position:
  assumes "ring_inv r"
  shows "(read_index r + ring_count r) mod length (buffer r) = write_index r"
  using assms by (auto simp: ring_count_def ring_inv_def)

lemma ring_position_inj:
  assumes "ring_inv r" "i < length (buffer r)" "j < length (buffer r)"
    and "(read_index r + i) mod length (buffer r) = (read_index r + j) mod length (buffer r)"
  shows "i = j"
  using assms wrap_mod[of "read_index r + i" "length (buffer r)"]
    wrap_mod[of "read_index r + j" "length (buffer r)"]
  by (auto simp: ring_inv_def split: if_splits)

lemma ring_slot_not_write:
  assumes "ring_inv r" "i < ring_count r"
  shows "(read_index r + i) mod length (buffer r) \<noteq> write_index r"
  using ring_position_inj[OF assms(1), of i "ring_count r"] ring_count_bound[OF assms(1)]
    ring_write_position[OF assms(1)] assms(2) by auto

lemma ring_next_full_iff:
  assumes "ring_inv r"
  shows "(write_index r + 1) mod length (buffer r) = read_index r
    \<longleftrightarrow> Suc (ring_count r) = length (buffer r)"
  using assms wrap_mod[of "write_index r + 1" "length (buffer r)"]
  by (auto simp: ring_inv_def ring_count_def split: if_splits)

lemma ring_slots_nth:
  "i < ring_count r \<Longrightarrow> ring_slots r ! i = buffer r ! ((read_index r + i) mod length (buffer r))"
  by (simp add: ring_slots_def)

lemma ring_slots_length [simp]: "length (ring_slots r) = ring_count r"
  by (simp add: ring_slots_def)

lemma ring_slots_write:
  fixes r :: "'a ring" and v :: 'a
  assumes "ring_inv r" "Suc (ring_count r) < length (buffer r)"
  defines "r' \<equiv> r\<lparr>buffer := (buffer r)[write_index r := Some v],
      write_index := (write_index r + 1) mod length (buffer r)\<rparr>"
  shows "ring_slots r' = ring_slots r @ [Some v]"
proof (rule nth_equalityI)
  have c: "ring_count r' = Suc (ring_count r)"
    using assms(1,2) wrap_mod[of "write_index r + 1" "length (buffer r)"]
    by (auto simp: ring_inv_def ring_count_def r'_def split: if_splits)
  show l: "length (ring_slots r') = length (ring_slots r @ [Some v])" by (simp add: c)
  fix i
  assume "i < length (ring_slots r')"
  then have i: "i \<le> ring_count r" using c by simp
  have "ring_slots r' ! i = (buffer r)[write_index r := Some v] ! ((read_index r + i) mod length (buffer r))"
    using i c by (simp add: ring_slots_nth) (simp add: r'_def)
  also have "\<dots> = (ring_slots r @ [Some v]) ! i"
    using i ring_slot_not_write[OF assms(1), of i] ring_write_position[OF assms(1)] assms(1)
    by (cases "i < ring_count r") (auto simp: nth_append ring_slots_nth ring_inv_def)
  finally show "ring_slots r' ! i = (ring_slots r @ [Some v]) ! i" .
qed

lemma ring_slots_advance:
  assumes "ring_inv r" "read_index r \<noteq> write_index r"
  shows "ring_slots (r\<lparr>read_index := (read_index r + 1) mod length (buffer r)\<rparr>) = tl (ring_slots r)"
proof (rule nth_equalityI)
  let ?r = "r\<lparr>read_index := (read_index r + 1) mod length (buffer r)\<rparr>"
  have c: "ring_count ?r = ring_count r - 1"
    using assms wrap_mod[of "read_index r + 1" "length (buffer r)"]
    by (auto simp: ring_inv_def ring_count_def split: if_splits)
  show "length (ring_slots ?r) = length (tl (ring_slots r))" using c by simp
  fix i
  assume "i < length (ring_slots ?r)"
  then have i: "i < ring_count ?r" "Suc i < ring_count r" using c by simp_all
  then show "ring_slots ?r ! i = tl (ring_slots r) ! i"
    by (simp add: ring_slots_nth nth_tl mod_simps)
qed

lemma ring_read_slot:
  assumes "ring_inv r" "read_index r \<noteq> write_index r"
  shows "\<exists>v. read_slot r (read_index r) = Ret v \<and> ring_slots r = Some v # tl (ring_slots r)"
proof -
  have "0 < ring_count r" using assms by (auto simp: ring_count_def ring_inv_def)
  then have ne: "ring_slots r \<noteq> []" by (metis ring_slots_length length_greater_0_conv)
  moreover have "hd (ring_slots r) = buffer r ! read_index r"
    using \<open>0 < ring_count r\<close> assms(1) ring_slots_nth[of 0 r] ne
    by (simp add: hd_conv_nth ring_inv_def)
  ultimately show ?thesis using assms(1)
    by (cases "ring_slots r"; cases "buffer r ! read_index r") (auto simp: read_slot_def ring_inv_def)
qed

lemma ring_empty_slots: "read_index r = write_index r \<Longrightarrow> ring_slots r = []"
  by (simp add: ring_slots_def ring_count_def)

lemma ring_try_push_law:
  assumes "ring_inv r"
  shows "\<exists>ok r'. try_push r v = Ret (ok, r') \<and> ring_inv r'
    \<and> ring_elems r' = (if ok then ring_elems r @ [v] else ring_elems r)"
proof (cases "(write_index r + 1) mod length (buffer r) = read_index r")
  case True
  then show ?thesis using assms by (auto simp: try_push_def rem_len_def ring_inv_def)
next
  case False
  let ?r = "r\<lparr>buffer := (buffer r)[write_index r := Some v],
      write_index := (write_index r + 1) mod length (buffer r)\<rparr>"
  have "Suc (ring_count r) < length (buffer r)"
    using False ring_next_full_iff[OF assms] ring_count_bound[OF assms] by simp
  then have s: "ring_slots ?r = ring_slots r @ [Some v]" by (rule ring_slots_write[OF assms])
  then have "ring_inv ?r" using assms ring_inv_mod[OF assms] by (simp add: ring_inv_def)
  moreover have "try_push r v = Ret (True, ?r)"
    using False assms by (auto simp: try_push_def rem_len_def ring_inv_def)
  ultimately show ?thesis using s by (intro exI[of _ True] exI[of _ ?r]) (simp add: ring_elems_def)
qed

lemma ring_pop_law:
  assumes "ring_inv r"
  shows "\<exists>r'. pop r = Ret (case ring_elems r of [] \<Rightarrow> None | x # _ \<Rightarrow> Some x, r')
    \<and> ring_inv r' \<and> ring_elems r' = tl (ring_elems r)"
proof (cases "read_index r = write_index r")
  case True
  then show ?thesis using assms by (simp add: pop_def ring_elems_def ring_empty_slots)
next
  case False
  let ?r = "r\<lparr>read_index := (read_index r + 1) mod length (buffer r)\<rparr>"
  obtain v where v: "read_slot r (read_index r) = Ret v" "ring_slots r = Some v # tl (ring_slots r)"
    using ring_read_slot[OF assms False] by blast
  have s: "ring_slots ?r = tl (ring_slots r)" by (rule ring_slots_advance[OF assms False])
  have "ring_inv ?r"
    using assms s ring_inv_mod[OF assms] v(2) by (cases "ring_slots r") (auto simp: ring_inv_def)
  moreover have "pop r = Ret (Some v, ?r)"
    using False v assms by (auto simp: pop_def rem_len_def ring_inv_def)
  moreover have "ring_elems r = v # ring_elems ?r" using s
    by (subst ring_elems_def, subst v(2)) (simp add: ring_elems_def)
  ultimately show ?thesis by auto
qed

interpretation ring: fifo ring_inv ring_elems try_push pop
  by unfold_locales (rule ring_try_push_law, simp, rule ring_pop_law, simp)


lemma ring_empty_inv: "ring_inv (ring_empty (Suc n))" "ring_elems (ring_empty (Suc n)) = []"
  by (simp_all add: ring_inv_def ring_empty_def ring_slots_def ring_elems_def ring_count_def)

lemma try_push_refuses_iff:
  assumes "ring_inv r"
  shows "try_push r v = Ret (False, r) \<longleftrightarrow> Suc (length (ring_elems r)) = length (buffer r)"
  using ring_next_full_iff[OF assms] assms
  by (auto simp: try_push_def rem_len_def ring_inv_def ring_elems_def)

lemma try_push_capacity: "try_push r v = Ret (ok, r') \<Longrightarrow> length (buffer r') = length (buffer r)"
  by (auto simp: try_push_def exec_simps split: if_splits)

lemma pop_capacity: "pop r = Ret (x, r') \<Longrightarrow> length (buffer r') = length (buffer r)"
  by (auto simp: pop_def exec_simps split: if_splits)

lemma ring_run_capacity:
  "fifo_run try_push pop ops r = Ret (acc, del, r') \<Longrightarrow> length (buffer r') = length (buffer r)"
proof (induction ops arbitrary: r acc del)
  case (Cons op ops)
  then show ?case
    by (cases op) (auto simp: exec_simps dest!: try_push_capacity pop_capacity)
qed simp

lemma ring_slots_replace:
  fixes r :: "'a ring" and v :: 'a
  assumes "ring_inv r" "1 < length (buffer r)" "Suc (ring_count r) = length (buffer r)"
  defines "r' \<equiv> r\<lparr>buffer := (buffer r)[read_index r := Some v], write_index := read_index r,
      read_index := (read_index r + 1) mod length (buffer r)\<rparr>"
  shows "ring_slots r' = tl (ring_slots r) @ [buffer r ! write_index r]"
proof (rule nth_equalityI)
  let ?n = "length (buffer r)"
  have "read_index r < ?n" using assms(1) by (simp add: ring_inv_def)
  then have "ring_count r' = ?n - 1"
    by (cases "Suc (read_index r) = ?n") (simp_all add: ring_count_def r'_def)
  then have c: "ring_count r' = ring_count r" using assms(3) by simp
  show l: "length (ring_slots r') = length (tl (ring_slots r) @ [buffer r ! write_index r])"
    using assms(2,3) by (simp add: c)
  fix i
  assume "i < length (ring_slots r')"
  then have i: "i < ring_count r" using c by simp
  have "(read_index r + Suc i) mod ?n \<noteq> (read_index r + 0) mod ?n"
    using ring_position_inj[OF assms(1), of "Suc i" 0] i assms(2,3) by force
  then have "(read_index r + Suc i) mod ?n \<noteq> read_index r" using assms(1) by (simp add: ring_inv_def)
  then have "ring_slots r' ! i = buffer r ! ((read_index r + Suc i) mod ?n)"
    using i c by (simp add: ring_slots_nth) (simp add: r'_def mod_simps)
  also have "\<dots> = (tl (ring_slots r) @ [buffer r ! write_index r]) ! i"
  proof (cases "Suc i < ring_count r")
    case False
    then have "Suc i = ring_count r" using i by simp
    then show ?thesis using ring_write_position[OF assms(1)] by (auto simp: nth_append)
  qed (use i in \<open>auto simp: nth_append nth_tl ring_slots_nth\<close>)
  finally show "ring_slots r' ! i = (tl (ring_slots r) @ [buffer r ! write_index r]) ! i" .
qed

section \<open>Properties\<close>

text \<open>
  C12.  A ring buffer with \<open>n + 1\<close> slots is a first-in first-out queue of capacity \<open>n\<close>: after any
  sequence of \<open>try_push\<close> and \<open>pop\<close> on a new ring, which never panics and never reads an unwritten
  slot, the accepted elements are the delivered ones followed by the elements still in the ring,
  in order, and a further push is refused exactly when \<open>n\<close> elements are in it.
\<close>
theorem ring_is_bounded_fifo:
  "\<exists>acc del r. fifo_run try_push pop ops (ring_empty (Suc n)) = Ret (acc, del, r)
     \<and> acc = del @ ring_elems r \<and> length (ring_elems r) \<le> n
     \<and> (try_push r v = Ret (False, r) \<longleftrightarrow> length (ring_elems r) = n)"
proof -
  obtain acc del r where r: "fifo_run try_push pop ops (ring_empty (Suc n)) = Ret (acc, del, r)"
    "ring_inv r" "acc = del @ ring_elems r"
    using ring.fifo_order[OF ring_empty_inv(1), of ops n] by (auto simp: ring_empty_inv)
  have "length (buffer r) = Suc n" using ring_run_capacity[OF r(1)] by (simp add: ring_empty_def)
  then show ?thesis
    using r try_push_refuses_iff[OF r(2), of v] ring_count_bound[OF r(2)]
    by (auto simp: ring_elems_def)
qed

text \<open>
  C13.  \<open>push_replace\<close> on a full ring drops the oldest element but does not enqueue the new
  one: it stores the value in the slot it has just freed and moves both indices, so that the last
  element of the ring is whatever the old write slot held, which may never have been written.
\<close>
theorem push_replace_full_loses_value:
  assumes "ring_inv r" and "1 < length (buffer r)" and "Suc (ring_count r) = length (buffer r)"
  shows "\<exists>r'. push_replace r v = Ret r'
    \<and> ring_slots r' = tl (ring_slots r) @ [buffer r ! write_index r]"
proof -
  have ne: "read_index r \<noteq> write_index r" using assms by (auto simp: ring_count_def)
  have "(write_index r + 1) mod length (buffer r) = read_index r"
    using ring_next_full_iff[OF assms(1)] assms(3) by simp
  then have "push_replace r v = Ret (r\<lparr>buffer := (buffer r)[read_index r := Some v],
      write_index := read_index r, read_index := (read_index r + 1) mod length (buffer r)\<rparr>)"
    using ring_read_slot[OF assms(1) ne] assms(1)
    by (auto simp: push_replace_def rem_len_def ring_inv_def)
  then show ?thesis using ring_slots_replace[OF assms] by auto
qed

theorem push_replace_full_loses_value_witness:
  "let r = \<lparr>buffer = [Some (1 :: nat), None], read_index = 0, write_index = 1\<rparr> in
     \<exists>r'. push_replace r 7 = Ret r' \<and> ring_slots r' = tl (ring_slots r) @ [buffer r ! write_index r]
       \<and> pop r' = Panic Uninit"
  using push_replace_full_loses_value[of "\<lparr>buffer = [Some (1 :: nat), None], read_index = 0, write_index = 1\<rparr>" 7]
  by (simp add: ring_inv_def ring_slots_def ring_count_def push_replace_def rem_len_def read_slot_def
      pop_def)

end
