(* ===== verification/Fs_Types.thy ===== *)
theory Fs_Types
  imports Prelude
begin

unbundle bit_operations_syntax

text \<open>
  The error types of the file system layer (kernel/src/fs/mod.rs, fs/fat.rs, fs/mapping.rs and
  devices/ide.rs), the file attribute bits and the access rights of an open file.
\<close>

datatype IdeError = DeviceError u8 | UnalignedSize | BoundsExceeded

datatype FatError = InvalidBootSector | UnexpectedFatEntry | NotEnoughSpace

datatype MappingError = MapMustBeAbsolute | MapInvalidPath | PartOfParentNotMounted | AlreadyMounted

datatype FileSystemError =
    PartitionTableNotFound
  | DeviceNotFound
  | DiskReadError u64 IdeError
  | FsFatError FatError
  | FileNotFound
  | InvalidPath
  | MustBeAbsolute
  | IsNotDirectory
  | IsDirectory
  | ReadNotSupported
  | WriteNotSupported
  | OperationNotSupported
  | CouldNotSetFileLength
  | EndOfFile
  | BufferNotLargeEnough usize
  | AlreadyExists
  | FsMappingError MappingError

section \<open>File attributes\<close>

datatype FileAttributes = FileAttributes u8

definition ATTR_EMPTY :: FileAttributes where "ATTR_EMPTY = FileAttributes 0"
definition ATTR_READ_ONLY :: FileAttributes where "ATTR_READ_ONLY = FileAttributes 0x01"
definition ATTR_HIDDEN :: FileAttributes where "ATTR_HIDDEN = FileAttributes 0x02"
definition ATTR_SYSTEM :: FileAttributes where "ATTR_SYSTEM = FileAttributes 0x04"
definition ATTR_VOLUME_LABEL :: FileAttributes where "ATTR_VOLUME_LABEL = FileAttributes 0x08"
definition ATTR_DIRECTORY :: FileAttributes where "ATTR_DIRECTORY = FileAttributes 0x10"
definition ATTR_ARCHIVE :: FileAttributes where "ATTR_ARCHIVE = FileAttributes 0x20"

fun attr_contains :: "FileAttributes \<Rightarrow> FileAttributes \<Rightarrow> bool" where
  "attr_contains (FileAttributes a) (FileAttributes b) = (a AND b \<noteq> 0)"

fun attr_bitor :: "FileAttributes \<Rightarrow> FileAttributes \<Rightarrow> FileAttributes" where
  "attr_bitor (FileAttributes a) (FileAttributes b) = FileAttributes (a OR b)"

fun attr_bitand :: "FileAttributes \<Rightarrow> FileAttributes \<Rightarrow> FileAttributes" where
  "attr_bitand (FileAttributes a) (FileAttributes b) = FileAttributes (a AND b)"

section \<open>Access rights\<close>

record FileAccess =
  fa_read :: bool
  fa_write :: bool

definition ACCESS_READ :: FileAccess where
  "ACCESS_READ = \<lparr>fa_read = True, fa_write = False\<rparr>"

definition ACCESS_WRITE :: FileAccess where
  "ACCESS_WRITE = \<lparr>fa_read = False, fa_write = True\<rparr>"

definition FileAccess_bitor :: "FileAccess \<Rightarrow> FileAccess \<Rightarrow> FileAccess" where
  "FileAccess_bitor a b = \<lparr>fa_read = fa_read a \<or> fa_read b, fa_write = fa_write a \<or> fa_write b\<rparr>"

end
