(* ===== verification/Pipe.thy ===== *)
theory Pipe
  imports Queue_Interface Fs_Types
begin

text \<open>
  Model of kernel/src/devices/pipe.rs.  The two sides of a pipe share one \<open>InnerPipe\<close> behind an
  \<open>Arc\<close>; the record \<open>pipe_pair\<close> holds that shared object and the two sides, as
  \<open>create_pipe_pair\<close> makes them.  A \<open>VecDeque\<close> is a list whose head is its front.

  The wrapping of the two sides in \<open>File\<close> handles is not part of this theory; a handle is
  represented by what it does to its side: \<open>clone_device\<close> when it is inherited, \<open>close\<close> when
  it is dropped.
\<close>

section \<open>State\<close>

record InnerPipe =
  pipe_buffer :: "u8 list"
  read_side_available :: bool
  write_side_available :: bool

record PipeSide =
  clones :: usize
  is_read_side :: bool

record pipe_pair =
  inner :: InnerPipe
  read_device :: PipeSide
  write_device :: PipeSide

definition create_pipe_pair :: pipe_pair where
  "create_pipe_pair =
     \<lparr>inner = \<lparr>pipe_buffer = [], read_side_available = True, write_side_available = True\<rparr>,
      read_device = \<lparr>clones = 1, is_read_side = True\<rparr>,
      write_device = \<lparr>clones = 1, is_read_side = False\<rparr>\<rparr>"

section \<open>Operations of one side\<close>

definition push_front :: "u8 list \<Rightarrow> u8 \<Rightarrow> u8 list" where
  "push_front d b = b # d"

definition pop_back :: "u8 list \<Rightarrow> u8 option \<times> u8 list" where
  "pop_back d = (if d = [] then (None, d) else (Some (last d), butlast d))"

text \<open>The loop over the bytes of the caller's buffer: \<open>done\<close> counts the bytes read.\<close>

fun pipe_read_loop :: "u8 list \<Rightarrow> u8 list \<Rightarrow> u8 list \<times> nat \<times> u8 list" where
  "pipe_read_loop [] d = ([], 0, d)"
| "pipe_read_loop (byte # buf) d =
     (case pop_back d of
        (Some b, d') \<Rightarrow> (let (buf', n, d'') = pipe_read_loop buf d' in (b # buf', Suc n, d''))
      | (None, d') \<Rightarrow> (byte # buf, 0, d'))"

text \<open>\<open>read\<close> returns the byte count, the caller's buffer and the pipe.\<close>

definition pipe_read ::
  "PipeSide \<Rightarrow> InnerPipe \<Rightarrow> u8 list \<Rightarrow> (FileSystemError + nat) \<times> u8 list \<times> InnerPipe" where
  "pipe_read side p buf =
     (if \<not> is_read_side side then (Inl ReadNotSupported, buf, p)
      else if \<not> write_side_available p \<and> pipe_buffer p = [] then (Inl EndOfFile, buf, p)
      else (let (buf', n, d) = pipe_read_loop buf (pipe_buffer p)
            in (Inr n, buf', p\<lparr>pipe_buffer := d\<rparr>)))"

definition pipe_write :: "PipeSide \<Rightarrow> InnerPipe \<Rightarrow> u8 list \<Rightarrow> (FileSystemError + nat) \<times> InnerPipe" where
  "pipe_write side p buf =
     (if is_read_side side then (Inl WriteNotSupported, p)
      else if \<not> read_side_available p then (Inl EndOfFile, p)
      else (Inr (length buf), p\<lparr>pipe_buffer := fold (\<lambda>b d. push_front d b) buf (pipe_buffer p)\<rparr>))"

text \<open>\<open>fetch_sub\<close> and \<open>fetch_add\<close> return the old value and wrap around.\<close>

definition pipe_close :: "PipeSide \<Rightarrow> InnerPipe \<Rightarrow> PipeSide \<times> InnerPipe" where
  "pipe_close side p =
     (let old = clones side;
          side' = side\<lparr>clones := (old + usize_bound - 1) mod usize_bound\<rparr>
      in if old \<noteq> 1 then (side', p)
         else if is_read_side side then (side', p\<lparr>read_side_available := False\<rparr>)
         else (side', p\<lparr>write_side_available := False\<rparr>))"

definition clone_device :: "PipeSide \<Rightarrow> PipeSide" where
  "clone_device side = side\<lparr>clones := (clones side + 1) mod usize_bound\<rparr>"

section \<open>The operations of the holders of the two sides\<close>

text \<open>
  What the processes holding the pipe can do.  A read names the size of its buffer (the bytes it
  overwrites do not matter).  A side can be cloned or closed only by a handle that is still open,
  so only while its clone count is positive.  The outcome is recorded for the trace properties.
\<close>

datatype pipe_op = Read nat | Write "u8 list" | CloseRead | CloseWrite | CloneRead | CloneWrite

datatype pipe_event =
    Delivered "u8 list"
  | Accepted "u8 list"
  | ReadFailed FileSystemError
  | WriteFailed FileSystemError
  | Silent

inductive pipe_step :: "pipe_pair \<Rightarrow> pipe_op \<Rightarrow> pipe_event \<Rightarrow> pipe_pair \<Rightarrow> bool" where
  step_read: "\<lbrakk> 0 < clones (read_device s);
     pipe_read (read_device s) (inner s) (replicate n 0) = (Inr k, buf, p) \<rbrakk>
   \<Longrightarrow> pipe_step s (Read n) (Delivered (take k buf)) (s\<lparr>inner := p\<rparr>)"
| step_read_err: "\<lbrakk> 0 < clones (read_device s);
     pipe_read (read_device s) (inner s) (replicate n 0) = (Inl e, buf, p) \<rbrakk>
   \<Longrightarrow> pipe_step s (Read n) (ReadFailed e) (s\<lparr>inner := p\<rparr>)"
| step_write: "\<lbrakk> 0 < clones (write_device s);
     pipe_write (write_device s) (inner s) bs = (Inr k, p) \<rbrakk>
   \<Longrightarrow> pipe_step s (Write bs) (Accepted (take k bs)) (s\<lparr>inner := p\<rparr>)"
| step_write_err: "\<lbrakk> 0 < clones (write_device s);
     pipe_write (write_device s) (inner s) bs = (Inl e, p) \<rbrakk>
   \<Longrightarrow> pipe_step s (Write bs) (WriteFailed e) (s\<lparr>inner := p\<rparr>)"
| step_close_read: "\<lbrakk> 0 < clones (read_device s); pipe_close (read_device s) (inner s) = (side, p) \<rbrakk>
   \<Longrightarrow> pipe_step s CloseRead Silent (s\<lparr>read_device := side, inner := p\<rparr>)"
| step_close_write: "\<lbrakk> 0 < clones (write_device s); pipe_close (write_device s) (inner s) = (side, p) \<rbrakk>
   \<Longrightarrow> pipe_step s CloseWrite Silent (s\<lparr>write_device := side, inner := p\<rparr>)"
| step_clone_read: "\<lbrakk> 0 < clones (read_device s); clones (read_device s) + 1 < usize_bound \<rbrakk>
   \<Longrightarrow> pipe_step s CloneRead Silent (s\<lparr>read_device := clone_device (read_device s)\<rparr>)"
| step_clone_write: "\<lbrakk> 0 < clones (write_device s); clones (write_device s) + 1 < usize_bound \<rbrakk>
   \<Longrightarrow> pipe_step s CloneWrite Silent (s\<lparr>write_device := clone_device (write_device s)\<rparr>)"

text \<open>A trace from a new pipe: the bytes accepted so far, the bytes delivered so far, the state.\<close>

fun accepted :: "pipe_event \<Rightarrow> u8 list" where
  "accepted (Accepted bs) = bs"
| "accepted _ = []"

fun delivered :: "pipe_event \<Rightarrow> u8 list" where
  "delivered (Delivered bs) = bs"
| "delivered _ = []"

inductive pipe_trace :: "u8 list \<Rightarrow> u8 list \<Rightarrow> pipe_pair \<Rightarrow> bool" where
  trace_init: "pipe_trace [] [] create_pipe_pair"
| trace_step: "\<lbrakk> pipe_trace acc del s; pipe_step s opr ev s' \<rbrakk>
   \<Longrightarrow> pipe_trace (acc @ accepted ev) (del @ delivered ev) s'"

section \<open>Lemmas\<close>

inductive_cases pipe_step_elim: "pipe_step s opr ev s'"

lemma fold_push_front: "fold (\<lambda>b d. push_front d b) bs d = rev bs @ d"
  by (induction bs arbitrary: d) (simp_all add: push_front_def)

lemma pipe_read_loop_spec:
  "pipe_read_loop buf d =
     (let n = min (length buf) (length d)
      in (take n (rev d) @ drop n buf, n, take (length d - n) d))"
proof (induction buf d rule: pipe_read_loop.induct)
  case (2 byte buf d)
  show ?case
  proof (cases d rule: rev_cases)
    case (snoc ys y)
    then have "pipe_read_loop buf ys = (let n = min (length buf) (length ys)
        in (take n (rev ys) @ drop n buf, n, take (length ys - n) ys))"
      using 2 by (auto simp: pop_back_def)
    with snoc show ?thesis by (simp add: pop_back_def Let_def)
  qed (simp add: pop_back_def)
qed simp

interpretation pipe_deque: fifo "\<lambda>_. True" rev "\<lambda>d b. Ret (True, push_front d b)" "\<lambda>d. Ret (pop_back d)"
proof
  show "\<exists>q'. Ret (pop_back q) = Ret (case rev q of [] \<Rightarrow> None | x # _ \<Rightarrow> Some x, q')
      \<and> True \<and> rev q' = tl (rev q)" for q :: "u8 list"
    by (cases q rule: rev_cases) (simp_all add: pop_back_def)
  show "\<exists>ok q'. Ret (True, push_front q x) = Ret (ok, q') \<and> True
      \<and> rev q' = (if ok then rev q @ [x] else rev q)" for q :: "u8 list" and x
    by (intro exI[of _ True] exI[of _ "push_front q x"]) (simp add: push_front_def)
qed

lemma fetch_sub_one:
  assumes "0 < c" "c < usize_bound"
  shows "(c + usize_bound - Suc 0) mod usize_bound = c - Suc 0"
proof -
  have e: "c + usize_bound - Suc 0 = c - Suc 0 + usize_bound" using assms(1) by simp
  show ?thesis unfolding e using assms by (simp only: mod_add_self2) simp
qed

text \<open>The invariant that ties the availability flags to the open handles.\<close>

definition pipe_inv :: "u8 list \<Rightarrow> u8 list \<Rightarrow> pipe_pair \<Rightarrow> bool" where
  "pipe_inv acc del s \<longleftrightarrow>
     is_read_side (read_device s) \<and> \<not> is_read_side (write_device s)
   \<and> clones (read_device s) < usize_bound \<and> clones (write_device s) < usize_bound
   \<and> (read_side_available (inner s) \<longleftrightarrow> 0 < clones (read_device s))
   \<and> (write_side_available (inner s) \<longleftrightarrow> 0 < clones (write_device s))
   \<and> acc = del @ rev (pipe_buffer (inner s))"

lemma pipe_inv_step:
  assumes "pipe_inv acc del s" "pipe_step s opr ev s'"
  shows "pipe_inv (acc @ accepted ev) (del @ delivered ev) s'"
  using assms(2,1)
proof (cases rule: pipe_step.cases)
  case (step_read n k buf p)
  then show ?thesis using assms(1)
    by (auto simp: pipe_inv_def pipe_read_def pipe_read_loop_spec Let_def take_rev min_def
        simp flip: rev_append split: if_splits)
qed (use assms(1) in \<open>auto simp: pipe_inv_def pipe_read_def pipe_write_def pipe_close_def
      clone_device_def fold_push_front Let_def fetch_sub_one split: if_splits prod.splits\<close>)

lemma pipe_inv_trace: "pipe_trace acc del s \<Longrightarrow> pipe_inv acc del s"
proof (induction rule: pipe_trace.induct)
  case trace_init
  show ?case by (simp add: pipe_inv_def create_pipe_pair_def usize_bound_def)
next
  case (trace_step acc del s opr ev s')
  then show ?case by (blast intro: pipe_inv_step)
qed

section \<open>Properties\<close>

text \<open>
  C14.  What the two ends of a pipe see, after any interleaving of reads, writes, clones and
  closes by their holders.  The bytes delivered are the bytes accepted, in order and without
  loss, up to those still in the buffer.  A read returns as many of the outstanding bytes as fit
  the buffer, and the end of file exactly when no write handle is left and everything was
  delivered.  A write is refused exactly when no read handle is left.
\<close>
theorem pipe_delivers_in_order:
  assumes "pipe_trace acc del s"
  shows "\<exists>rest. acc = del @ rest
    \<and> pipe_read (read_device s) (inner s) buf =
        (if clones (write_device s) = 0 \<and> rest = [] then (Inl EndOfFile, buf, inner s)
         else let k = min (length buf) (length rest) in
           (Inr k, take k rest @ drop k buf, (inner s)\<lparr>pipe_buffer := rev (drop k rest)\<rparr>))
    \<and> pipe_write (write_device s) (inner s) bs =
        (if clones (read_device s) = 0 then (Inl EndOfFile, inner s)
         else (Inr (length bs), (inner s)\<lparr>pipe_buffer := rev (rest @ bs)\<rparr>))"
proof (intro exI[of _ "rev (pipe_buffer (inner s))"] conjI)
  note inv = pipe_inv_trace[OF assms, unfolded pipe_inv_def]
  show "acc = del @ rev (pipe_buffer (inner s))" using inv by simp
  show "pipe_read (read_device s) (inner s) buf =
      (if clones (write_device s) = 0 \<and> rev (pipe_buffer (inner s)) = [] then (Inl EndOfFile, buf, inner s)
       else let k = min (length buf) (length (rev (pipe_buffer (inner s)))) in
         (Inr k, take k (rev (pipe_buffer (inner s))) @ drop k buf,
          (inner s)\<lparr>pipe_buffer := rev (drop k (rev (pipe_buffer (inner s))))\<rparr>))"
    using inv by (simp add: pipe_read_def pipe_read_loop_spec Let_def rev_drop)
  show "pipe_write (write_device s) (inner s) bs =
      (if clones (read_device s) = 0 then (Inl EndOfFile, inner s)
       else (Inr (length bs), (inner s)\<lparr>pipe_buffer := rev (rev (pipe_buffer (inner s)) @ bs)\<rparr>))"
    using inv by (simp add: pipe_write_def fold_push_front)
qed

theorem pipe_delivers_in_order_witness:
  "\<exists>s. pipe_trace [5, 6, 7] [] s \<and> (\<exists>rest. [5, 6, 7] = [] @ rest
    \<and> pipe_read (read_device s) (inner s) [0, 0] =
        (if clones (write_device s) = 0 \<and> rest = [] then (Inl EndOfFile, [0, 0], inner s)
         else let k = min (length [0 :: u8, 0]) (length rest) in
           (Inr k, take k rest @ drop k [0, 0], (inner s)\<lparr>pipe_buffer := rev (drop k rest)\<rparr>))
    \<and> pipe_write (write_device s) (inner s) [9] =
        (if clones (read_device s) = 0 then (Inl EndOfFile, inner s)
         else (Inr (length [9 :: u8]), (inner s)\<lparr>pipe_buffer := rev (rest @ [9])\<rparr>)))"
proof -
  let ?s = "create_pipe_pair\<lparr>inner := snd (pipe_write (write_device create_pipe_pair) (inner create_pipe_pair) [5, 6, 7])\<rparr>"
  have "pipe_step create_pipe_pair (Write [5, 6, 7]) (Accepted (take 3 [5, 6, 7])) ?s"
    by (rule step_write) (simp_all add: create_pipe_pair_def pipe_write_def)
  from trace_step[OF trace_init this] have t: "pipe_trace [5, 6, 7] [] ?s" by simp
  show ?thesis by (rule exI[of _ ?s], rule conjI[OF t], rule pipe_delivers_in_order[OF t])
qed

end
