(* ===== verification/Link_Syscalls.thy ===== *)
theory Link_Syscalls
  imports Prelude
begin

unbundle bit_operations_syntax

text \<open>
  Model of libraries/kernel_user_link/src/syscalls.rs: the error types of the system call
  interface and the encoding of a system call result in the 64-bit register that crosses the
  user/kernel boundary.  Both directions are modelled, the kernel side
  (\<open>syscall_result_to_u64\<close>) and the user side (\<open>syscall_result_from_u64\<close>).
\<close>

section \<open>Errors\<close>

datatype SyscallArgError =
    GeneralInvalid
  | InvalidUserPointer
  | NotValidUtf8
  | InvalidHeapIncrement
  | DuplicateFileMappings
  | InvalidNanoseconds

fun SyscallArgError_as_u64 :: "SyscallArgError \<Rightarrow> u64" where
  "SyscallArgError_as_u64 GeneralInvalid = 1"
| "SyscallArgError_as_u64 InvalidUserPointer = 2"
| "SyscallArgError_as_u64 NotValidUtf8 = 3"
| "SyscallArgError_as_u64 InvalidHeapIncrement = 4"
| "SyscallArgError_as_u64 DuplicateFileMappings = 5"
| "SyscallArgError_as_u64 InvalidNanoseconds = 6"

definition SyscallArgError_try_from :: "u8 \<Rightarrow> unit + SyscallArgError option" where
  "SyscallArgError_try_from v =
     (if v = 0 then Inr None
      else if v = 1 then Inr (Some GeneralInvalid)
      else if v = 2 then Inr (Some InvalidUserPointer)
      else if v = 3 then Inr (Some NotValidUtf8)
      else if v = 4 then Inr (Some InvalidHeapIncrement)
      else if v = 5 then Inr (Some DuplicateFileMappings)
      else if v = 6 then Inr (Some InvalidNanoseconds)
      else Inl ())"

type_synonym arg_err = "SyscallArgError option"

datatype SyscallError =
    SyscallNotFound
  | InvalidError
  | CouldNotOpenFile
  | InvalidFileIndex
  | CouldNotWriteToFile
  | CouldNotReadFromFile
  | CouldNotLoadElf
  | CouldNotAllocateProcess
  | HeapRangesExceeded
  | SysEndOfFile
  | SysFileNotFound
  | PidNotFound
  | ProcessStillRunning
  | SysIsNotDirectory
  | SysIsDirectory
  | BufferTooSmall
  | GraphicsNotAvailable
  | GraphicsAlreadyTaken
  | GraphicsNotOwned
  | InvalidGraphicsBuffer
  | InvalidOffset
  | SysAlreadyExists
  | SysOperationNotSupported
  | InvalidArgument arg_err arg_err arg_err arg_err arg_err arg_err arg_err

type_synonym SyscallResult = "SyscallError + u64"

definition NUM_SYSCALLS :: nat where
  "NUM_SYSCALLS = 22"

section \<open>The kernel side\<close>

text \<open>The bit that marks an error, \<open>1 << 63\<close> in the code.\<close>

definition msb64 :: u64 where
  "msb64 = push_bit 63 1"

definition arg_err_bits :: "arg_err \<Rightarrow> u64" where
  "arg_err_bits a = (case a of None \<Rightarrow> 0 | Some e \<Rightarrow> SyscallArgError_as_u64 e)"

definition create_syscall_error ::
  "arg_err \<Rightarrow> arg_err \<Rightarrow> arg_err \<Rightarrow> arg_err \<Rightarrow> arg_err \<Rightarrow> arg_err \<Rightarrow> arg_err \<Rightarrow> u64" where
  "create_syscall_error a1 a2 a3 a4 a5 a6 a7 =
     arg_err_bits a1 OR push_bit 8 (arg_err_bits a2) OR push_bit 16 (arg_err_bits a3)
     OR push_bit 24 (arg_err_bits a4) OR push_bit 32 (arg_err_bits a5)
     OR push_bit 40 (arg_err_bits a6) OR push_bit 48 (arg_err_bits a7) OR msb64"

fun syscall_err_upper :: "SyscallError \<Rightarrow> u64 exec" where
  "syscall_err_upper SyscallNotFound = Ret (- 1)"
| "syscall_err_upper (InvalidArgument a1 a2 a3 a4 a5 a6 a7) =
     Ret (create_syscall_error a1 a2 a3 a4 a5 a6 a7)"
| "syscall_err_upper CouldNotOpenFile = Ret (push_bit 56 2)"
| "syscall_err_upper InvalidFileIndex = Ret (push_bit 56 3)"
| "syscall_err_upper CouldNotWriteToFile = Ret (push_bit 56 4)"
| "syscall_err_upper CouldNotReadFromFile = Ret (push_bit 56 5)"
| "syscall_err_upper CouldNotLoadElf = Ret (push_bit 56 6)"
| "syscall_err_upper CouldNotAllocateProcess = Ret (push_bit 56 7)"
| "syscall_err_upper HeapRangesExceeded = Ret (push_bit 56 8)"
| "syscall_err_upper SysEndOfFile = Ret (push_bit 56 9)"
| "syscall_err_upper SysFileNotFound = Ret (push_bit 56 10)"
| "syscall_err_upper PidNotFound = Ret (push_bit 56 11)"
| "syscall_err_upper ProcessStillRunning = Ret (push_bit 56 12)"
| "syscall_err_upper SysIsNotDirectory = Ret (push_bit 56 13)"
| "syscall_err_upper SysIsDirectory = Ret (push_bit 56 14)"
| "syscall_err_upper BufferTooSmall = Ret (push_bit 56 15)"
| "syscall_err_upper GraphicsNotAvailable = Ret (push_bit 56 16)"
| "syscall_err_upper GraphicsAlreadyTaken = Ret (push_bit 56 17)"
| "syscall_err_upper GraphicsNotOwned = Ret (push_bit 56 18)"
| "syscall_err_upper InvalidGraphicsBuffer = Ret (push_bit 56 19)"
| "syscall_err_upper InvalidOffset = Ret (push_bit 56 20)"
| "syscall_err_upper SysAlreadyExists = Ret (push_bit 56 21)"
| "syscall_err_upper SysOperationNotSupported = Ret (push_bit 56 22)"
| "syscall_err_upper InvalidError = Panic (Explicit ''Should never be used'')"

fun syscall_result_to_u64 :: "SyscallResult \<Rightarrow> u64 exec" where
  "syscall_result_to_u64 (Inr value) = assert_exec (value AND msb64 = 0) (Ret value)"
| "syscall_result_to_u64 (Inl err) =
     bind_exec (syscall_err_upper err) (\<lambda>err_upper. Ret (err_upper OR msb64))"

definition syscall_handler_wrapper :: "u64 \<Rightarrow> (unit \<Rightarrow> SyscallResult exec) \<Rightarrow> u64 exec" where
  "syscall_handler_wrapper syscall_number f =
     (if unat syscall_number \<ge> NUM_SYSCALLS then syscall_result_to_u64 (Inl SyscallNotFound)
      else bind_exec (f ()) syscall_result_to_u64)"

section \<open>The user side\<close>

definition arg_err_at :: "nat \<Rightarrow> u64 \<Rightarrow> unit + arg_err" where
  "arg_err_at sh value = SyscallArgError_try_from (ucast (drop_bit sh value AND 0xFF))"

definition decode_invalid_argument :: "u64 \<Rightarrow> SyscallError" where
  "decode_invalid_argument value =
     (case arg_err_at 0 value of Inl _ \<Rightarrow> InvalidError | Inr a1 \<Rightarrow>
     (case arg_err_at 8 value of Inl _ \<Rightarrow> InvalidError | Inr a2 \<Rightarrow>
     (case arg_err_at 16 value of Inl _ \<Rightarrow> InvalidError | Inr a3 \<Rightarrow>
     (case arg_err_at 24 value of Inl _ \<Rightarrow> InvalidError | Inr a4 \<Rightarrow>
     (case arg_err_at 32 value of Inl _ \<Rightarrow> InvalidError | Inr a5 \<Rightarrow>
     (case arg_err_at 40 value of Inl _ \<Rightarrow> InvalidError | Inr a6 \<Rightarrow>
     (case arg_err_at 48 value of Inl _ \<Rightarrow> InvalidError | Inr a7 \<Rightarrow>
        InvalidArgument a1 a2 a3 a4 a5 a6 a7)))))))"

definition decode_error_byte :: "u8 \<Rightarrow> u64 \<Rightarrow> SyscallError" where
  "decode_error_byte err_byte value =
     (if err_byte = 0 then decode_invalid_argument value
      else if err_byte = 1 then InvalidError
      else if err_byte = 2 then CouldNotOpenFile
      else if err_byte = 3 then InvalidFileIndex
      else if err_byte = 4 then CouldNotWriteToFile
      else if err_byte = 5 then CouldNotReadFromFile
      else if err_byte = 6 then CouldNotLoadElf
      else if err_byte = 7 then CouldNotAllocateProcess
      else if err_byte = 8 then HeapRangesExceeded
      else if err_byte = 9 then SysEndOfFile
      else if err_byte = 10 then SysFileNotFound
      else if err_byte = 11 then PidNotFound
      else if err_byte = 12 then ProcessStillRunning
      else if err_byte = 13 then SysIsNotDirectory
      else if err_byte = 14 then SysIsDirectory
      else if err_byte = 15 then BufferTooSmall
      else if err_byte = 16 then GraphicsNotAvailable
      else if err_byte = 17 then GraphicsAlreadyTaken
      else if err_byte = 18 then GraphicsNotOwned
      else if err_byte = 19 then InvalidGraphicsBuffer
      else if err_byte = 20 then InvalidOffset
      else if err_byte = 21 then SysAlreadyExists
      else if err_byte = 22 then SysOperationNotSupported
      else InvalidError)"

definition syscall_result_from_u64 :: "u64 \<Rightarrow> SyscallResult" where
  "syscall_result_from_u64 v =
     (if v AND msb64 = 0 then Inr v
      else (let value = v AND NOT msb64;
                err_byte = ucast (drop_bit 56 value) :: u8
            in Inl (decode_error_byte err_byte value)))"

section \<open>Lemmas\<close>

lemma bit_msb64 [bit_simps]: "bit msb64 n \<longleftrightarrow> n = 63"
  unfolding msb64_def bit_push_bit_iff bit_1_iff by auto

text \<open>The register word an \<open>InvalidArgument\<close> travels in, byte by byte.\<close>

definition pack7 :: "u8 \<Rightarrow> u8 \<Rightarrow> u8 \<Rightarrow> u8 \<Rightarrow> u8 \<Rightarrow> u8 \<Rightarrow> u8 \<Rightarrow> u64" where
  "pack7 b1 b2 b3 b4 b5 b6 b7 =
     ucast b1 OR push_bit 8 (ucast b2) OR push_bit 16 (ucast b3) OR push_bit 24 (ucast b4)
     OR push_bit 32 (ucast b5) OR push_bit 40 (ucast b6) OR push_bit 48 (ucast b7)"

definition arg_err_byte :: "arg_err \<Rightarrow> u8" where
  "arg_err_byte a = ucast (arg_err_bits a)"

lemma arg_err_bits_byte: "arg_err_bits a = ucast (arg_err_byte a)"
proof (cases a)
  case (Some e)
  then show ?thesis by (cases e) (simp_all add: arg_err_byte_def arg_err_bits_def)
qed (simp add: arg_err_byte_def arg_err_bits_def)

lemma SyscallArgError_roundtrip: "SyscallArgError_try_from (arg_err_byte a) = Inr a"
proof (cases a)
  case (Some e)
  then show ?thesis
    by (cases e) (simp_all add: arg_err_byte_def arg_err_bits_def SyscallArgError_try_from_def)
qed (simp add: arg_err_byte_def arg_err_bits_def SyscallArgError_try_from_def)

lemma u8_bit_out: "8 \<le> n \<Longrightarrow> \<not> bit (b :: u8) n"
  using bit_imp_le_length[of b n] by auto

lemma unpack7:
  fixes b1 b2 b3 b4 b5 b6 b7 :: u8
  defines "w \<equiv> pack7 b1 b2 b3 b4 b5 b6 b7"
  shows "ucast (drop_bit 0 w AND 0xFF) = b1" "ucast (drop_bit 8 w AND 0xFF) = b2"
    "ucast (drop_bit 16 w AND 0xFF) = b3" "ucast (drop_bit 24 w AND 0xFF) = b4"
    "ucast (drop_bit 32 w AND 0xFF) = b5" "ucast (drop_bit 40 w AND 0xFF) = b6"
    "ucast (drop_bit 48 w AND 0xFF) = b7" "ucast (drop_bit 56 w) = (0 :: u8)"
    "\<not> bit w 63"
proof -
  have ff: "(0xFF :: u64) = mask 8" by (simp add: mask_eq_exp_minus_1)
  note s = w_def pack7_def bit_simps ff u8_bit_out
  show "ucast (drop_bit 0 w AND 0xFF) = b1"
    by (rule bit_word_eqI) (simp add: s)
  show "ucast (drop_bit 8 w AND 0xFF) = b2"
    by (rule bit_word_eqI) (simp add: s)
  show "ucast (drop_bit 16 w AND 0xFF) = b3"
    by (rule bit_word_eqI) (simp add: s)
  show "ucast (drop_bit 24 w AND 0xFF) = b4"
    by (rule bit_word_eqI) (simp add: s)
  show "ucast (drop_bit 32 w AND 0xFF) = b5"
    by (rule bit_word_eqI) (simp add: s)
  show "ucast (drop_bit 40 w AND 0xFF) = b6"
    by (rule bit_word_eqI) (simp add: s)
  show "ucast (drop_bit 48 w AND 0xFF) = b7"
    by (rule bit_word_eqI) (simp add: s)
  show "ucast (drop_bit 56 w) = (0 :: u8)"
    by (rule bit_word_eqI) (simp add: s)
  show "\<not> bit w 63"
    by (simp add: s)
qed

lemma msb_clear_set:
  fixes w :: u64
  assumes "\<not> bit w 63"
  shows "(w OR msb64) AND NOT msb64 = w"
    "(w OR msb64) AND msb64 \<noteq> 0"
proof -
  show "(w OR msb64) AND NOT msb64 = w"
    using assms by (intro bit_word_eqI) (auto simp: bit_simps)
  have "bit ((w OR msb64) AND msb64) 63" by (simp add: bit_simps)
  then show "(w OR msb64) AND msb64 \<noteq> 0" by force
qed

lemma create_syscall_error_pack:
  "create_syscall_error a1 a2 a3 a4 a5 a6 a7 =
     pack7 (arg_err_byte a1) (arg_err_byte a2) (arg_err_byte a3) (arg_err_byte a4)
       (arg_err_byte a5) (arg_err_byte a6) (arg_err_byte a7) OR msb64"
  by (simp add: create_syscall_error_def pack7_def arg_err_bits_byte or.assoc)

lemma invalid_argument_roundtrip:
  "syscall_result_from_u64 (create_syscall_error a1 a2 a3 a4 a5 a6 a7 OR msb64) =
     Inl (InvalidArgument a1 a2 a3 a4 a5 a6 a7)"
proof -
  note u = unpack7[of "arg_err_byte a1" "arg_err_byte a2" "arg_err_byte a3" "arg_err_byte a4"
      "arg_err_byte a5" "arg_err_byte a6" "arg_err_byte a7"]
  show ?thesis
    unfolding create_syscall_error_pack or.assoc or.idem syscall_result_from_u64_def Let_def
    by (simp only: msb_clear_set[OF u(9)] u(1-8) if_False decode_error_byte_def if_True
        decode_invalid_argument_def arg_err_at_def SyscallArgError_roundtrip sum.case refl)
qed

lemma error_code_roundtrip:
  assumes "c < 128"
  shows "syscall_result_from_u64 (push_bit 56 c OR msb64) =
    Inl (decode_error_byte (ucast c) (push_bit 56 c))"
proof -
  have c: "bit c n \<Longrightarrow> n < 7" for n
  proof -
    have "unat (take_bit 7 c) = unat c" using assms
      by (simp add: unsigned_take_bit_eq take_bit_nat_eq_self word_less_nat_alt)
    then have "take_bit 7 c = c" by (simp only: word_unat_eq_iff)
    then show "bit c n \<Longrightarrow> n < 7" by (metis bit_take_bit_iff)
  qed
  have m: "\<not> bit (push_bit 56 c) 63" by (auto simp: bit_simps dest: c)
  have "ucast (drop_bit 56 (push_bit 56 c)) = (ucast c :: u8)"
    by (rule bit_word_eqI) (auto simp: bit_simps dest: c)
  then show ?thesis
    unfolding syscall_result_from_u64_def Let_def by (simp only: msb_clear_set[OF m] if_False)
qed

lemma error_upper_roundtrip:
  assumes "syscall_err_upper e = Ret (push_bit 56 c)" "c < 128"
    and "decode_error_byte (ucast c) (push_bit 56 c) = e"
  shows "\<exists>w. syscall_result_to_u64 (Inl e) = Ret w \<and> syscall_result_from_u64 w = Inl e"
  using assms error_code_roundtrip[of c] by simp

lemma error_roundtrip:
  assumes "e \<noteq> SyscallNotFound" "e \<noteq> InvalidError"
  shows "\<exists>w. syscall_result_to_u64 (Inl e) = Ret w \<and> syscall_result_from_u64 w = Inl e"
proof (cases e)
  case (InvalidArgument a1 a2 a3 a4 a5 a6 a7)
  then show ?thesis by (simp add: invalid_argument_roundtrip)
next
  case SyscallNotFound
  with assms show ?thesis by simp
next
  case InvalidError
  with assms show ?thesis by simp
qed (hypsubst, rule error_upper_roundtrip, rule syscall_err_upper.simps,
      simp, simp add: decode_error_byte_def)+

lemma negative_has_msb:
  fixes c :: u32
  assumes "sint c < 0"
  shows "(scast c :: u64) AND msb64 \<noteq> 0"
proof -
  have "bit c 31" using assms bit_last_iff[of c] by simp
  then have "bit ((scast c :: u64) AND msb64) 63" by (simp add: bit_simps)
  then show ?thesis by force
qed

section \<open>Properties\<close>

text \<open>
  C9.  The register encoding of a system call result loses nothing: whatever the kernel encodes,
  user space decodes to the same result.  This covers every success value that fits in 63 bits
  and every error, with all combinations of the seven argument errors, except
  \<open>SyscallNotFound\<close> and \<open>InvalidError\<close>, which have no code of their own.
\<close>
theorem syscall_result_roundtrip:
  assumes "case r of Inr v \<Rightarrow> v AND msb64 = 0
                   | Inl e \<Rightarrow> e \<noteq> SyscallNotFound \<and> e \<noteq> InvalidError"
  shows "\<exists>w. syscall_result_to_u64 r = Ret w \<and> syscall_result_from_u64 w = r"
proof (cases r)
  case (Inr v)
  with assms show ?thesis by (simp add: syscall_result_from_u64_def)
next
  case (Inl e)
  with assms show ?thesis using error_roundtrip[of e] by simp
qed

theorem syscall_result_roundtrip_witness:
  "\<exists>w. syscall_result_to_u64 (Inl (InvalidArgument None (Some NotValidUtf8) None None None None
          (Some InvalidNanoseconds))) = Ret w
     \<and> syscall_result_from_u64 w = Inl (InvalidArgument None (Some NotValidUtf8) None None None None
          (Some InvalidNanoseconds))"
  by (rule syscall_result_roundtrip) simp

text \<open>
  C10.  The two results the encoding does not carry.  An unknown system call number is reported
  to user space as \<open>InvalidError\<close>, not as \<open>SyscallNotFound\<close>; and a successful result
  with the most significant bit set (such as a negative exit code that was sign extended)
  stops the kernel.
\<close>
theorem syscall_result_not_carried:
  "syscall_result_from_u64 (- 1) = Inl InvalidError
   \<and> (NUM_SYSCALLS \<le> unat n \<longrightarrow> syscall_handler_wrapper n f = Ret (- 1))
   \<and> (sint (c :: u32) < 0 \<longrightarrow> syscall_result_to_u64 (Inr (scast c)) = Panic AssertFailed)"
proof (intro conjI impI)
  show "syscall_result_from_u64 (- 1) = Inl InvalidError"
    by (simp add: syscall_result_from_u64_def msb64_def decode_error_byte_def)
  show "NUM_SYSCALLS \<le> unat n \<Longrightarrow> syscall_handler_wrapper n f = Ret (- 1)"
    by (simp add: syscall_handler_wrapper_def)
  show "sint c < 0 \<Longrightarrow> syscall_result_to_u64 (Inr (scast c)) = Panic AssertFailed"
    using negative_has_msb[of c] by simp
qed

theorem syscall_result_not_carried_witness:
  "syscall_result_from_u64 (- 1) = Inl InvalidError
   \<and> syscall_handler_wrapper 22 (\<lambda>_. Ret (Inr 0)) = Ret (- 1)
   \<and> syscall_result_to_u64 (Inr (scast (- 1 :: u32))) = Panic AssertFailed"
  using syscall_result_not_carried[of 22 "\<lambda>_. Ret (Inr 0)" "- 1"]
  by (simp add: NUM_SYSCALLS_def)

end
