(* ===== verification/Link_File.thy ===== *)
theory Link_File
  imports Prelude
begin

unbundle bit_operations_syntax

text \<open>
  Model of libraries/kernel_user_link/src/file.rs and of the priority levels of process.rs: the
  types that user programs and the kernel exchange about files, with their encodings in
  system call arguments.
\<close>

section \<open>Blocking modes\<close>

datatype BlockingMode = BlockNone | BlockLine | Block u32

definition BlockingMode_from_flags :: "u64 \<Rightarrow> BlockingMode" where
  "BlockingMode_from_flags flags = (if flags AND 1 = 0 then BlockNone else BlockLine)"

fun BlockingMode_to_u64 :: "BlockingMode \<Rightarrow> u64" where
  "BlockingMode_to_u64 BlockNone = 0"
| "BlockingMode_to_u64 BlockLine = 1"
| "BlockingMode_to_u64 (Block num) = push_bit 2 (ucast num) OR 3"

definition BlockingMode_try_from :: "u64 \<Rightarrow> unit + BlockingMode" where
  "BlockingMode_try_from value =
     (let mode = value AND 3; rest = drop_bit 2 value in
      if mode = 0 \<and> rest = 0 then Inr BlockNone
      else if mode = 1 \<and> rest = 0 then Inr BlockLine
      else if mode = 3 \<and> rest \<noteq> 0 \<and> rest \<le> 0xFFFFFFFF then Inr (Block (ucast rest))
      else Inl ())"

definition parse_flags :: "u64 \<Rightarrow> BlockingMode option" where
  "parse_flags flags =
     (let blocking_mode = BlockingMode_from_flags flags; flags' = flags AND NOT 1 in
      if flags' = 0 then Some blocking_mode else None)"

section \<open>Directory entries\<close>

datatype FileType = FileT | DirectoryT

record FileStat =
  stat_size :: u64
  stat_file_type :: FileType

definition MAX_FILENAME_LEN :: nat where
  "MAX_FILENAME_LEN = 255"

text \<open>\<open>DirFilename\<close> is the fixed array of 256 bytes.\<close>

type_synonym DirFilename = "u8 list"

definition DirFilename_default :: DirFilename where
  "DirFilename_default = replicate (MAX_FILENAME_LEN + 1) 0"

definition DirFilename_from :: "u8 list \<Rightarrow> DirFilename exec" where
  "DirFilename_from bytes =
     assert_exec (length bytes < MAX_FILENAME_LEN)
       (Ret (bytes @ drop (length bytes) (replicate (MAX_FILENAME_LEN + 1) 0)))"

definition DirFilename_as_cstr :: "DirFilename \<Rightarrow> u8 list exec" where
  "DirFilename_as_cstr name =
     (if 0 \<in> set name then Ret (takeWhile (\<lambda>b. b \<noteq> 0) name) else Panic UnwrapErr)"

record DirEntry =
  de_stat :: FileStat
  de_name :: DirFilename

definition filename_cstr :: "DirEntry \<Rightarrow> u8 list exec" where
  "filename_cstr e = DirFilename_as_cstr (de_name e)"

section \<open>File metadata\<close>

datatype FileMeta = MetaBlockingMode BlockingMode | MetaIsTerminal bool

fun to_u64_meta_id :: "FileMeta \<Rightarrow> u64" where
  "to_u64_meta_id (MetaBlockingMode _) = 0"
| "to_u64_meta_id (MetaIsTerminal _) = 1"

fun inner_u64 :: "FileMeta \<Rightarrow> u64" where
  "inner_u64 (MetaBlockingMode mode) = BlockingMode_to_u64 mode"
| "inner_u64 (MetaIsTerminal is_terminal) = (if is_terminal then 1 else 0)"

definition FileMeta_try_from :: "u64 \<times> u64 \<Rightarrow> unit + FileMeta" where
  "FileMeta_try_from v =
     (if fst v = 0 then
        (case BlockingMode_try_from (snd v) of Inl e \<Rightarrow> Inl e | Inr m \<Rightarrow> Inr (MetaBlockingMode m))
      else if fst v = 1 then Inr (MetaIsTerminal (snd v \<noteq> 0))
      else Inl ())"

section \<open>Seeking\<close>

datatype SeekWhence = SeekStart | SeekCurrent | SeekEnd

fun SeekWhence_as_u64 :: "SeekWhence \<Rightarrow> u64" where
  "SeekWhence_as_u64 SeekStart = 0"
| "SeekWhence_as_u64 SeekCurrent = 1"
| "SeekWhence_as_u64 SeekEnd = 2"

definition SeekWhence_try_from :: "u64 \<Rightarrow> unit + SeekWhence" where
  "SeekWhence_try_from v =
     (if v = 0 then Inr SeekStart else if v = 1 then Inr SeekCurrent
      else if v = 2 then Inr SeekEnd else Inl ())"

record SeekFrom =
  offset :: "64 word"
  whence :: SeekWhence

definition SeekFrom_new :: "64 word \<Rightarrow> SeekWhence \<Rightarrow> SeekFrom" where
  "SeekFrom_new off wh = \<lparr>offset = off, whence = wh\<rparr>"

section \<open>Open options\<close>

datatype OpenOptions = OpenOptions u8

definition OPEN_READ :: u8 where "OPEN_READ = push_bit 0 1"
definition OPEN_WRITE :: u8 where "OPEN_WRITE = push_bit 1 1"
definition OPEN_CREATE :: u8 where "OPEN_CREATE = push_bit 2 1"
definition OPEN_CREATE_NEW :: u8 where "OPEN_CREATE_NEW = push_bit 3 1"
definition OPEN_TRUNCATE :: u8 where "OPEN_TRUNCATE = push_bit 4 1"
definition OPEN_APPEND :: u8 where "OPEN_APPEND = push_bit 5 1"

definition OpenOptions_new :: OpenOptions where "OpenOptions_new = OpenOptions 0"

definition OpenOptions_default :: OpenOptions where "OpenOptions_default = OpenOptions OPEN_READ"

text \<open>The six setters of the code are the same two lines with a different bit.\<close>

fun set_option_bit :: "u8 \<Rightarrow> OpenOptions \<Rightarrow> bool \<Rightarrow> OpenOptions" where
  "set_option_bit b (OpenOptions o') on = OpenOptions (if on then o' OR b else o' AND NOT b)"

definition opt_read :: "OpenOptions \<Rightarrow> bool \<Rightarrow> OpenOptions" where
  "opt_read = set_option_bit OPEN_READ"
definition opt_write :: "OpenOptions \<Rightarrow> bool \<Rightarrow> OpenOptions" where
  "opt_write = set_option_bit OPEN_WRITE"
definition opt_create :: "OpenOptions \<Rightarrow> bool \<Rightarrow> OpenOptions" where
  "opt_create = set_option_bit OPEN_CREATE"
definition opt_create_new :: "OpenOptions \<Rightarrow> bool \<Rightarrow> OpenOptions" where
  "opt_create_new = set_option_bit OPEN_CREATE_NEW"
definition opt_truncate :: "OpenOptions \<Rightarrow> bool \<Rightarrow> OpenOptions" where
  "opt_truncate = set_option_bit OPEN_TRUNCATE"
definition opt_append :: "OpenOptions \<Rightarrow> bool \<Rightarrow> OpenOptions" where
  "opt_append = set_option_bit OPEN_APPEND"

fun has_option_bit :: "u8 \<Rightarrow> OpenOptions \<Rightarrow> bool" where
  "has_option_bit b (OpenOptions o') = (o' AND b \<noteq> 0)"

definition is_read :: "OpenOptions \<Rightarrow> bool" where
  "is_read o' = has_option_bit OPEN_READ o'"
definition is_append :: "OpenOptions \<Rightarrow> bool" where
  "is_append o' = has_option_bit OPEN_APPEND o'"
definition is_write :: "OpenOptions \<Rightarrow> bool" where
  "is_write o' = (has_option_bit OPEN_WRITE o' \<or> is_append o')"
definition is_create :: "OpenOptions \<Rightarrow> bool" where
  "is_create o' = has_option_bit OPEN_CREATE o'"
definition is_create_new :: "OpenOptions \<Rightarrow> bool" where
  "is_create_new o' = has_option_bit OPEN_CREATE_NEW o'"
definition is_truncate :: "OpenOptions \<Rightarrow> bool" where
  "is_truncate o' = has_option_bit OPEN_TRUNCATE o'"

definition OpenOptions_from_u64 :: "u64 \<Rightarrow> OpenOptions option" where
  "OpenOptions_from_u64 flags =
     (let all = ucast (OPEN_READ OR OPEN_WRITE OR OPEN_CREATE OR OPEN_CREATE_NEW
                       OR OPEN_TRUNCATE OR OPEN_APPEND) :: u64 in
      if flags AND NOT all \<noteq> 0 then None else Some (OpenOptions (ucast flags)))"

fun OpenOptions_to_u64 :: "OpenOptions \<Rightarrow> u64" where
  "OpenOptions_to_u64 (OpenOptions o') = ucast o'"

fun OpenOptions_bitor :: "OpenOptions \<Rightarrow> OpenOptions \<Rightarrow> OpenOptions" where
  "OpenOptions_bitor (OpenOptions a) (OpenOptions b) = OpenOptions (a OR b)"

fun OpenOptions_bitand :: "OpenOptions \<Rightarrow> OpenOptions \<Rightarrow> OpenOptions" where
  "OpenOptions_bitand (OpenOptions a) (OpenOptions b) = OpenOptions (a AND b)"

section \<open>Process priorities\<close>

datatype PriorityLevel = VeryLow | Low | Normal | High | VeryHigh

definition PriorityLevel_from_u64 :: "u64 \<Rightarrow> PriorityLevel option" where
  "PriorityLevel_from_u64 v =
     (if v = 1 then Some VeryLow else if v = 2 then Some Low else if v = 3 then Some Normal
      else if v = 4 then Some High else if v = 5 then Some VeryHigh else None)"

fun PriorityLevel_to_u64 :: "PriorityLevel \<Rightarrow> u64" where
  "PriorityLevel_to_u64 VeryLow = 1"
| "PriorityLevel_to_u64 Low = 2"
| "PriorityLevel_to_u64 Normal = 3"
| "PriorityLevel_to_u64 High = 4"
| "PriorityLevel_to_u64 VeryHigh = 5"

section \<open>Lemmas\<close>

lemma u32_bit_out: "32 \<le> n \<Longrightarrow> \<not> bit (b :: u32) n"
  using bit_imp_le_length[of b n] by auto

lemma three_mask: "(3 :: u64) = mask 2"
  by (simp add: mask_eq_exp_minus_1)

lemma block_word_parts:
  fixes num :: u32
  shows "(push_bit 2 (ucast num) OR 3) AND (3 :: u64) = 3"
    "drop_bit 2 (push_bit 2 (ucast num) OR (3 :: u64)) = ucast num"
  unfolding three_mask
   apply (rule bit_word_eqI, auto simp: bit_simps)
  apply (rule bit_word_eqI)
  subgoal for n by (cases "n < 32") (auto simp: bit_simps u32_bit_out)
  done

lemma unat_ucast_u32: "unat (ucast (num :: u32) :: u64) = unat num"
  using unsigned_less[of num, where 'a = nat]
  by (simp add: unsigned_ucast_eq unsigned_take_bit_eq take_bit_nat_eq_self)

lemma ucast_u32_facts:
  fixes num :: u32
  shows "(ucast num :: u64) \<le> 0xFFFFFFFF" "(ucast num :: u64) = 0 \<longleftrightarrow> num = 0"
    "ucast (ucast num :: u64) = num"
proof -
  show "(ucast num :: u64) \<le> 0xFFFFFFFF"
    using unsigned_less[of num, where 'a = nat] by (simp add: word_le_nat_alt unat_ucast_u32)
  show u: "ucast (ucast num :: u64) = num" by (rule bit_word_eqI) (simp add: bit_simps)
  then show "(ucast num :: u64) = 0 \<longleftrightarrow> num = 0" by (metis unsigned_0)
qed

lemma BlockingMode_roundtrip_iff:
  "BlockingMode_try_from (BlockingMode_to_u64 m) = Inr m \<longleftrightarrow> m \<noteq> Block 0"
  by (cases m) (simp_all add: BlockingMode_try_from_def Let_def block_word_parts ucast_u32_facts
      del: drop_bit_or)

lemma split_low_two_bits:
  fixes v :: u64
  shows "v = push_bit 2 (drop_bit 2 v) OR (v AND 3)"
  unfolding three_mask
proof (rule bit_word_eqI)
  fix n
  assume "n < LENGTH(64)"
  then show "bit v n = bit (push_bit 2 (drop_bit 2 v) OR v AND mask 2) n"
  proof (cases "n < 2")
    case False
    then obtain m where "n = m + 2" by (metis le_add_diff_inverse2 not_less)
    with \<open>n < LENGTH(64)\<close> show ?thesis by (simp add: bit_simps)
  qed (simp add: bit_simps)
qed

lemma ucast_u64_u32:
  fixes r :: u64
  assumes "r \<le> 0xFFFFFFFF"
  shows "ucast (ucast r :: u32) = r"
  using assms
  by (simp add: word_unat_eq_iff unat_ucast_u32 unsigned_ucast_eq unsigned_take_bit_eq
      word_le_nat_alt take_bit_nat_eq_self)

lemma BlockingMode_decode_encode:
  assumes "BlockingMode_try_from v = Inr m"
  shows "BlockingMode_to_u64 m = v"
  using assms split_low_two_bits[of v]
  by (auto simp: BlockingMode_try_from_def Let_def ucast_u64_u32 split: if_splits)


lemma BlockingMode_codec:
  "BlockingMode_try_from v = Inr m \<longleftrightarrow> BlockingMode_to_u64 m = v \<and> m \<noteq> Block 0"
  using BlockingMode_decode_encode BlockingMode_roundtrip_iff by metis

lemma FileMeta_codec:
  "FileMeta_try_from (to_u64_meta_id fm, inner_u64 fm) = Inr fm \<longleftrightarrow> fm \<noteq> MetaBlockingMode (Block 0)"
proof (cases fm)
  case (MetaBlockingMode m)
  then show ?thesis using BlockingMode_roundtrip_iff[of m]
    by (auto simp: FileMeta_try_from_def split: sum.splits)
qed (simp add: FileMeta_try_from_def)

lemma SeekWhence_codec: "SeekWhence_try_from v = Inr wh \<longleftrightarrow> SeekWhence_as_u64 wh = v"
  by (cases wh) (auto simp: SeekWhence_try_from_def)

lemma PriorityLevel_codec: "PriorityLevel_from_u64 v = Some l \<longleftrightarrow> PriorityLevel_to_u64 l = v"
  by (cases l) (auto simp: PriorityLevel_from_u64_def)

lemma OpenOptions_codec:
  "OpenOptions_from_u64 v = Some opts \<longleftrightarrow> OpenOptions_to_u64 opts = v \<and> v < 64"
proof -
  have m: "(0x3F :: u64) = mask 6" by (simp add: mask_eq_exp_minus_1)
  have a: "ucast (OPEN_READ OR OPEN_WRITE OR OPEN_CREATE OR OPEN_CREATE_NEW OR OPEN_TRUNCATE
      OR OPEN_APPEND) = (0x3F :: u64)"
    by (simp add: OPEN_READ_def OPEN_WRITE_def OPEN_CREATE_def OPEN_CREATE_NEW_def
        OPEN_TRUNCATE_def OPEN_APPEND_def)
  have z: "v AND NOT 0x3F = 0 \<longleftrightarrow> v < 64"
  proof -
    have "v AND NOT (mask 6) = 0 \<longleftrightarrow> take_bit 6 v = v"
    proof
      assume "v AND NOT (mask 6) = 0"
      then have "\<not> bit (v AND NOT (mask 6)) n" for n by simp
      then show "take_bit 6 v = v" by (intro bit_word_eqI) (auto simp: bit_simps)
    next
      assume "take_bit 6 v = v"
      then show "v AND NOT (mask 6) = 0"
        by (metis take_bit_eq_mask and.assoc bit.conj_cancel_right bit.conj_zero_right)
    qed
    also have "\<dots> \<longleftrightarrow> unat v < 64"
      by (simp add: word_unat_eq_iff unsigned_take_bit_eq take_bit_nat_eq_self_iff)
    finally show ?thesis by (simp add: m word_less_nat_alt)
  qed
  have u: "unat (ucast (b :: u8) :: u64) = unat b" for b
    using unsigned_less[of b, where 'a = nat]
    by (simp add: unsigned_ucast_eq unsigned_take_bit_eq take_bit_nat_eq_self)
  have c: "v < 64 \<Longrightarrow> ucast (ucast v :: u8) = v"
    by (simp add: word_unat_eq_iff u unsigned_ucast_eq unsigned_take_bit_eq word_less_nat_alt
        take_bit_nat_eq_self)
  have d: "ucast (ucast b :: u64) = (b :: u8)" for b
    by (rule bit_word_eqI) (simp add: bit_simps)
  show ?thesis unfolding OpenOptions_from_u64_def Let_def a
    by (cases opts) (use z c d in auto)
qed

section \<open>Properties\<close>


text \<open>
  A file name of fewer than 255 bytes is stored in a directory entry as a 256-byte
  zero-terminated array and read back up to its first zero byte; a longer one, including a name
  of exactly \<open>MAX_FILENAME_LEN\<close> bytes, panics.
\<close>
theorem dir_filename_roundtrip:
  "if length bytes < 255
   then \<exists>name. DirFilename_from bytes = Ret name \<and> length name = 256
          \<and> DirFilename_as_cstr name = Ret (takeWhile (\<lambda>b. b \<noteq> 0) bytes)
   else DirFilename_from bytes = Panic AssertFailed"
proof (cases "length bytes < 255")
  case True
  define k where "k = 255 - length bytes"
  have "drop (length bytes) (replicate (MAX_FILENAME_LEN + 1) (0 :: u8)) = 0 # replicate k 0"
  proof -
    have "255 + 1 - length bytes = Suc k" using True by (simp add: k_def)
    then show ?thesis by (simp only: drop_replicate MAX_FILENAME_LEN_def replicate_Suc)
  qed
  then have "DirFilename_from bytes = Ret (bytes @ 0 # replicate k 0)"
    using True by (simp only: DirFilename_from_def MAX_FILENAME_LEN_def assert_exec_simps)
  moreover have "length (bytes @ 0 # replicate k (0 :: u8)) = 256"
    using True by (simp add: k_def)
  moreover have "DirFilename_as_cstr (bytes @ 0 # replicate k 0)
      = Ret (takeWhile (\<lambda>b. b \<noteq> 0) bytes)"
  proof (cases "0 \<in> set bytes")
    case False
    then have t: "takeWhile (\<lambda>b. b \<noteq> 0) bytes = bytes" by auto
    show ?thesis by (simp add: DirFilename_as_cstr_def takeWhile_append t)
  qed (simp add: DirFilename_as_cstr_def)
  ultimately show ?thesis using True by auto
qed (simp add: DirFilename_from_def MAX_FILENAME_LEN_def)

end
