(* ===== verification/Memory_Layout.thy ===== *)
theory Memory_Layout
  imports Prelude
begin

unbundle bit_operations_syntax

text \<open>
  Model of kernel/src/memory_management/memory_layout.rs: the address map of the kernel, the
  alignment arithmetic of the trait \<open>AlignMem\<close> and the direct map between physical and
  kernel virtual addresses.

  The masks are the ones of the code; the lemmas show that for an alignment that is a power of
  two they compute the greatest multiple below and the least multiple above an address.
\<close>

section \<open>Constants\<close>

definition PAGE_4K :: usize where "PAGE_4K = 0x1000"
definition PAGE_2M :: usize where "PAGE_2M = 0x200000"

definition KERNEL_BASE :: usize where "KERNEL_BASE = 0xFFFFFFFF80000000"
definition EXTENDED_OFFSET :: usize where "EXTENDED_OFFSET = 0x100000"
definition KERNEL_LINK :: usize where "KERNEL_LINK = KERNEL_BASE + EXTENDED_OFFSET"
definition KERNEL_MAPPED_SIZE :: usize where "KERNEL_MAPPED_SIZE = 0x8000000"
definition KERNEL_END :: usize where "KERNEL_END = KERNEL_BASE + KERNEL_MAPPED_SIZE"

definition KERNEL_HEAP_BASE :: usize where "KERNEL_HEAP_BASE = KERNEL_END"
definition KERNEL_HEAP_SIZE :: usize where "KERNEL_HEAP_SIZE = 0x1000000"

definition INTR_STACK_SIZE :: usize where "INTR_STACK_SIZE = PAGE_4K * 32"
definition INTR_STACK_EMPTY_SIZE :: usize where "INTR_STACK_EMPTY_SIZE = PAGE_4K"
definition INTR_STACK_ENTRY_SIZE :: usize where
  "INTR_STACK_ENTRY_SIZE = INTR_STACK_SIZE + INTR_STACK_EMPTY_SIZE"
definition INTR_STACK_BASE :: usize where "INTR_STACK_BASE = KERNEL_HEAP_BASE + KERNEL_HEAP_SIZE"
definition INTR_STACK_COUNT :: usize where "INTR_STACK_COUNT = 7"
definition INTR_STACK_TOTAL_SIZE :: usize where
  "INTR_STACK_TOTAL_SIZE = INTR_STACK_ENTRY_SIZE * INTR_STACK_COUNT"

definition KERNEL_EXTRA_MEMORY_BASE :: usize where
  "KERNEL_EXTRA_MEMORY_BASE = INTR_STACK_BASE + INTR_STACK_TOTAL_SIZE"
definition KERNEL_LAST_POSSIBLE_ADDR :: usize where
  "KERNEL_LAST_POSSIBLE_ADDR = 0xFFFFFFFFFFFFF000"
definition KERNEL_EXTRA_MEMORY_SIZE :: usize where
  "KERNEL_EXTRA_MEMORY_SIZE = KERNEL_LAST_POSSIBLE_ADDR - KERNEL_EXTRA_MEMORY_BASE"

definition KERNEL_PROCESS_VIRTUAL_ADDRESS_START :: usize where
  "KERNEL_PROCESS_VIRTUAL_ADDRESS_START = 0xFFFFFF8000000000"
definition PROCESS_KERNEL_STACK_GUARD :: usize where "PROCESS_KERNEL_STACK_GUARD = PAGE_4K"
definition PROCESS_KERNEL_STACK_BASE :: usize where
  "PROCESS_KERNEL_STACK_BASE = KERNEL_PROCESS_VIRTUAL_ADDRESS_START + PROCESS_KERNEL_STACK_GUARD"
definition PROCESS_KERNEL_STACK_SIZE :: usize where "PROCESS_KERNEL_STACK_SIZE = PAGE_4K * 64"
definition PROCESS_KERNEL_STACK_END :: usize where
  "PROCESS_KERNEL_STACK_END = PROCESS_KERNEL_STACK_BASE + PROCESS_KERNEL_STACK_SIZE"

section \<open>Alignment\<close>

definition align_up :: "usize \<Rightarrow> usize \<Rightarrow> usize exec" where
  "align_up addr alignment =
     bind_exec (usize_add addr alignment) (\<lambda>s.
     bind_exec (usize_sub s 1) (\<lambda>s1.
     bind_exec (usize_sub alignment 1) (\<lambda>m.
     Ret (s1 AND usize_not m))))"

definition align_down :: "usize \<Rightarrow> usize \<Rightarrow> usize exec" where
  "align_down addr alignment =
     bind_exec (usize_sub alignment 1) (\<lambda>m. Ret (addr AND usize_not m))"

definition is_aligned :: "usize \<Rightarrow> usize \<Rightarrow> bool exec" where
  "is_aligned addr alignment =
     bind_exec (usize_sub alignment 1) (\<lambda>m. Ret (addr AND m = 0))"

definition align_range :: "usize \<Rightarrow> usize \<Rightarrow> usize \<Rightarrow> (usize \<times> usize \<times> usize) exec" where
  "align_range addr sz alignment =
     bind_exec (usize_add addr sz) (\<lambda>addr_end.
     bind_exec (align_down addr alignment) (\<lambda>start_aligned.
     bind_exec (align_up addr_end alignment) (\<lambda>end_aligned.
     bind_exec (usize_sub end_aligned start_aligned) (\<lambda>size_aligned.
     assert_exec (size_aligned > 0)
    (bind_exec (is_aligned size_aligned alignment) (\<lambda>al.
     assert_exec al
    (bind_exec (usize_sub addr start_aligned) (\<lambda>offset.
     Ret (start_aligned, size_aligned, offset)))))))))"

section \<open>The direct map\<close>

definition virtual2physical :: "usize \<Rightarrow> usize exec" where
  "virtual2physical addr =
     assert_exec (KERNEL_BASE \<le> addr \<and> addr \<le> KERNEL_BASE + KERNEL_MAPPED_SIZE)
       (usize_sub addr KERNEL_BASE)"

definition physical2virtual :: "usize \<Rightarrow> usize exec" where
  "physical2virtual addr =
     assert_exec (addr < KERNEL_MAPPED_SIZE) (usize_add addr KERNEL_BASE)"

section \<open>Lemmas\<close>

lemma and_not_mask_nat:
  fixes a k :: nat
  assumes "a < usize_bound" "k \<le> 64"
  shows "a AND usize_not (2 ^ k - 1) = (a div 2 ^ k) * 2 ^ k"
proof -
  have pk: "(2::nat) ^ k \<le> 2 ^ 64" using assms(2) by (intro power_increasing) auto
  have not: "usize_not (2 ^ k - 1) = push_bit k (mask (64 - k))"
    using pk assms(2)
    by (simp add: usize_not_def usize_bound_def push_bit_eq_mult mask_eq_exp_minus_1
        diff_mult_distrib flip: power_add)
  have "a AND push_bit k (mask (64 - k)) = push_bit k (take_bit (64 - k) (drop_bit k a))"
    by (rule bit_eqI) (auto simp: bit_simps)
  also have "take_bit (64 - k) (drop_bit k a) = drop_bit k (take_bit 64 a)"
    using assms(2) by (simp add: drop_bit_take_bit)
  also have "take_bit 64 a = a"
    using assms(1) by (simp add: take_bit_nat_eq_self usize_bound_def)
  finally show ?thesis
    unfolding not by (simp add: push_bit_eq_mult drop_bit_eq_div)
qed

lemma align_down_pow2:
  assumes "a < usize_bound" "k < 64"
  shows "align_down a (2 ^ k) = Ret (a div 2 ^ k * 2 ^ k)"
  using and_not_mask_nat[of a k] assms by (simp add: align_down_def)

lemma align_up_pow2:
  assumes "a + 2 ^ k < usize_bound" "k < 64"
  shows "align_up a (2 ^ k) = Ret ((a + 2 ^ k - 1) div 2 ^ k * 2 ^ k)"
proof -
  have "1 \<le> a + 2 ^ k" using one_le_power[of "2::nat" k] by linarith
  then have "usize_sub (a + 2 ^ k) 1 = Ret (a + 2 ^ k - 1)" by (rule usize_sub_Ret)
  then show ?thesis
    using and_not_mask_nat[of "a + 2 ^ k - 1" k] assms by (simp add: align_up_def)
qed

lemma align_up_overflow:
  assumes "usize_bound \<le> a + al"
  shows "align_up a al = Panic Overflow"
  using assms by (simp add: align_up_def usize_add_def)

lemma is_aligned_pow2:
  "is_aligned a (2 ^ k) = Ret (2 ^ k dvd a)"
  using and_exp_eq_0_iff_not_bit take_bit_eq_mask[of k a]
  by (simp add: is_aligned_def mask_eq_exp_minus_1 take_bit_eq_mod dvd_eq_mod_eq_0)

lemma round_down_bounds:
  fixes a n :: nat
  assumes "0 < n"
  shows "a div n * n \<le> a" "a < a div n * n + n" "n dvd a div n * n"
proof -
  show "a < a div n * n + n" using dividend_less_div_times[OF assms, of a] by simp
qed auto

lemma round_up_bounds:
  fixes a n :: nat
  assumes "0 < n"
  shows "a \<le> (a + n - 1) div n * n" "(a + n - 1) div n * n < a + n" "n dvd (a + n - 1) div n * n"
  using round_down_bounds[OF assms, of "a + n - 1"] assms
  by (linarith, linarith, simp)

lemma round_up_least:
  fixes a n m :: nat
  assumes "0 < n" "n dvd m" "a \<le> m"
  shows "(a + n - 1) div n * n \<le> m"
proof -
  obtain q where q: "m = q * n" using assms(2) by (metis dvd_def mult.commute)
  have "(a + n - 1) div n * n < m + n" using round_up_bounds(2)[OF assms(1), of a] assms(3) by linarith
  then have "(a + n - 1) div n < q + 1" using q assms(1)
    by (metis add_mult_distrib2 mult.commute mult_less_cancel2 nat_mult_1_right)
  then show ?thesis using q by simp
qed

lemma round_up_aligned [simp]:
  fixes a n :: nat
  assumes "n dvd a" "0 < n"
  shows "(a + n - 1) div n * n = a"
  using round_up_bounds[OF assms(2), of a] round_up_least[OF assms(2,1) order.refl] by linarith

lemma PAGE_4K_pow2: "PAGE_4K = 2 ^ 12"
  by (simp add: PAGE_4K_def)

lemma PAGE_4K_pos [simp]: "0 < PAGE_4K"
  by (simp add: PAGE_4K_def)

lemma PAGE_4K_neq_0 [simp]: "PAGE_4K \<noteq> 0"
  by (simp add: PAGE_4K_def)

lemma is_aligned_page [simp]: "is_aligned a PAGE_4K = Ret (PAGE_4K dvd a)"
  unfolding PAGE_4K_pow2 by (rule is_aligned_pow2)

lemma align_up_page:
  "a + PAGE_4K < usize_bound \<Longrightarrow> align_up a PAGE_4K = Ret ((a + PAGE_4K - 1) div PAGE_4K * PAGE_4K)"
  unfolding PAGE_4K_pow2 by (rule align_up_pow2) auto

lemma align_down_page:
  "a < usize_bound \<Longrightarrow> align_down a PAGE_4K = Ret (a div PAGE_4K * PAGE_4K)"
  unfolding PAGE_4K_pow2 by (rule align_down_pow2) auto

lemma align_up_page_Ret:
  assumes "align_up a PAGE_4K = Ret r"
  shows "a \<le> r" "r < a + PAGE_4K" "PAGE_4K dvd r" "a + PAGE_4K < usize_bound"
proof -
  show lt: "a + PAGE_4K < usize_bound"
    using assms align_up_overflow[of a PAGE_4K] by (cases "a + PAGE_4K < usize_bound") auto
  then have "r = (a + PAGE_4K - 1) div PAGE_4K * PAGE_4K" using assms by (simp add: align_up_page)
  then show "a \<le> r" "r < a + PAGE_4K" "PAGE_4K dvd r"
    using round_up_bounds[OF PAGE_4K_pos, of a] by simp_all
qed

lemma align_down_page_Ret:
  assumes "align_down a PAGE_4K = Ret r" "a < usize_bound"
  shows "r \<le> a" "a < r + PAGE_4K" "PAGE_4K dvd r"
  using assms round_down_bounds[OF PAGE_4K_pos, of a] by (simp_all add: align_down_page)

lemmas kernel_layout_defs =
  KERNEL_BASE_def EXTENDED_OFFSET_def KERNEL_LINK_def KERNEL_MAPPED_SIZE_def KERNEL_END_def
  KERNEL_HEAP_BASE_def KERNEL_HEAP_SIZE_def INTR_STACK_SIZE_def INTR_STACK_EMPTY_SIZE_def
  INTR_STACK_ENTRY_SIZE_def INTR_STACK_BASE_def INTR_STACK_COUNT_def INTR_STACK_TOTAL_SIZE_def
  KERNEL_EXTRA_MEMORY_BASE_def KERNEL_LAST_POSSIBLE_ADDR_def KERNEL_EXTRA_MEMORY_SIZE_def
  KERNEL_PROCESS_VIRTUAL_ADDRESS_START_def PROCESS_KERNEL_STACK_GUARD_def
  PROCESS_KERNEL_STACK_BASE_def PROCESS_KERNEL_STACK_SIZE_def PROCESS_KERNEL_STACK_END_def
  PAGE_4K_def PAGE_2M_def

lemma physical2virtual_eq_Ret:
  "physical2virtual p = Ret v \<longleftrightarrow> p < KERNEL_MAPPED_SIZE \<and> v = p + KERNEL_BASE"
  by (auto simp: physical2virtual_def exec_simps kernel_layout_defs usize_bound_def)

lemma virtual2physical_eq_Ret:
  "virtual2physical v = Ret p \<longleftrightarrow> KERNEL_BASE \<le> v \<and> v \<le> KERNEL_END \<and> p = v - KERNEL_BASE"
  by (auto simp: virtual2physical_def exec_simps KERNEL_END_def)

section \<open>Properties\<close>

text \<open>
  For an alignment that is a power of two and a range that does not reach the top of the
  address space, \<open>align_range\<close> returns a block that starts and ends on the alignment, contains
  the requested range at the returned offset, and wastes less than one alignment unit on each
  side.
\<close>
theorem align_range_covers:
  assumes "k < 64" and "0 < sz" and "addr + sz + 2 ^ k < usize_bound"
  shows "\<exists>start len off. align_range addr sz (2 ^ k) = Ret (start, len, off)
    \<and> 2 ^ k dvd start \<and> 2 ^ k dvd len \<and> start + off = addr \<and> off < 2 ^ k
    \<and> addr + sz \<le> start + len \<and> start + len < addr + sz + 2 ^ k"
proof -
  let ?n = "2 ^ k :: nat"
  let ?s = "addr div ?n * ?n" and ?e = "(addr + sz + ?n - 1) div ?n * ?n"
  have n: "0 < ?n" by simp
  note d = round_down_bounds[OF n, of addr] and u = round_up_bounds[OF n, of "addr + sz"]
  have down: "align_down addr ?n = Ret ?s" using assms by (simp add: align_down_pow2)
  have up: "align_up (addr + sz) ?n = Ret ?e" using assms by (simp add: align_up_pow2)
  have "?s < ?e" using d u assms(2) by linarith
  moreover have "?n dvd ?e - ?s" using d(3) u(3) by (simp add: dvd_diff_nat)
  ultimately have "align_range addr sz ?n = Ret (?s, ?e - ?s, addr - ?s)"
    using assms down up d(1) by (simp add: align_range_def is_aligned_pow2)
  with d u \<open>?s < ?e\<close> \<open>?n dvd ?e - ?s\<close> show ?thesis
    by (intro exI[of _ ?s] exI[of _ "?e - ?s"] exI[of _ "addr - ?s"]) auto
qed

theorem align_range_covers_witness:
  "\<exists>start len off. align_range 0x1234 0x2000 (2 ^ 12) = Ret (start, len, off)
    \<and> 2 ^ 12 dvd start \<and> 2 ^ 12 dvd len \<and> start + off = 0x1234 \<and> off < 2 ^ 12
    \<and> 0x1234 + 0x2000 \<le> start + len \<and> start + len < 0x1234 + 0x2000 + 2 ^ 12"
  by (rule align_range_covers) (simp_all add: usize_bound_def)

end
