(* ===== verification/Phys_Alloc.thy ===== *)
theory Phys_Alloc
  imports Memory_Layout
begin

text \<open>
  Model of kernel/src/memory_management/physical_page_allocator.rs: the allocator of 4K physical
  pages, a linked list threaded through the free pages themselves.

  The contents of the pages are an explicit store: a page holds the \<open>FreePage\<close> header while it
  is in the list, and otherwise 512 words of 64 bits, which is how the page tables read it.
  Pointers are addresses; following the header of a page that does not hold one, or reading a
  free page as words, is the panic \<open>Uninit\<close>.  The memory map
  and the end of the multiboot information come from the boot loader and are arguments of
  \<open>phys_new\<close>, like the end of the kernel image, which the linker script defines.
\<close>

section \<open>State\<close>

datatype page_data = FreePage "usize option" | Words "nat \<Rightarrow> u64"

text \<open>\<open>write_bytes(b, PAGE_4K)\<close>, as words.\<close>

definition page_fill :: "u8 \<Rightarrow> page_data" where
  "page_fill b = Words (\<lambda>_. ucast b * 0x0101010101010101)"

type_synonym page_store = "usize \<Rightarrow> page_data"

record PhysicalPageAllocator =
  low_mem_free_list_head :: "usize option"
  high_mem_start :: usize
  pa_start :: usize
  pa_end :: usize
  free_count :: usize
  used_count :: usize
  pages :: page_store

datatype MemoryMapType =
    Available | Reserved | ACPIReclaimable | ACPINonVolatile | BadMemory | Undefined u32

record MemoryMap =
  base_addr :: usize
  mm_length :: usize
  mem_type :: MemoryMapType

section \<open>Operations\<close>

definition phys_alloc :: "PhysicalPageAllocator \<Rightarrow> (usize \<times> PhysicalPageAllocator) exec" where
  "phys_alloc s =
     (case low_mem_free_list_head s of
        None \<Rightarrow> Panic (Explicit ''out of memory'')
      | Some page \<Rightarrow>
          (case pages s page of
             Words _ \<Rightarrow> Panic Uninit
           | FreePage next_page \<Rightarrow>
               bind_exec (usize_add (used_count s) 1) (\<lambda>used.
               Ret (page, s\<lparr>low_mem_free_list_head := next_page,
                            pages := (pages s)(page := page_fill 1), used_count := used\<rparr>))))"

definition phys_alloc_zeroed :: "PhysicalPageAllocator \<Rightarrow> (usize \<times> PhysicalPageAllocator) exec" where
  "phys_alloc_zeroed s =
     bind_exec (phys_alloc s) (\<lambda>(page, s').
     Ret (page, s'\<lparr>pages := (pages s')(page := page_fill 0)\<rparr>))"

text \<open>The method \<open>free\<close>, whose \<open>None\<close> reports an invalid page.\<close>

definition phys_try_free ::
  "PhysicalPageAllocator \<Rightarrow> usize \<Rightarrow> (unit option \<times> PhysicalPageAllocator) exec" where
  "phys_try_free s page =
     bind_exec (if page = 0 then Ret False else is_aligned page PAGE_4K) (\<lambda>ok.
     if \<not> ok \<or> page \<ge> pa_end s \<or> page < pa_start s then Ret (None, s)
     else assert_exec (high_mem_start s = 0 \<or> page < high_mem_start s)
       (bind_exec (usize_add (free_count s) 1) (\<lambda>fc.
        Ret (Some (), s\<lparr>pages := (pages s)(page := FreePage (low_mem_free_list_head s)),
                        low_mem_free_list_head := Some page, free_count := fc\<rparr>))))"

text \<open>The function \<open>free\<close> of the module, which panics on an invalid page.\<close>

definition phys_free :: "PhysicalPageAllocator \<Rightarrow> usize \<Rightarrow> PhysicalPageAllocator exec" where
  "phys_free s page =
     bind_exec (phys_try_free s page) (\<lambda>(r, s').
     case r of None \<Rightarrow> Panic (Explicit ''Page not valid'') | Some _ \<Rightarrow> Ret s')"

definition phys_stats :: "PhysicalPageAllocator \<Rightarrow> usize \<times> usize" where
  "phys_stats s = (free_count s, used_count s)"

function init_range_loop :: "PhysicalPageAllocator \<Rightarrow> usize \<Rightarrow> usize \<Rightarrow> PhysicalPageAllocator exec" where
  "init_range_loop s page end_page =
     (if page < end_page
      then bind_exec (phys_try_free s page) (\<lambda>(r, s').
           case r of None \<Rightarrow> Panic UnwrapNone
           | Some _ \<Rightarrow> init_range_loop s' (page + PAGE_4K) end_page)
      else Ret s)"
  by pat_completeness auto
termination
  by (relation "measure (\<lambda>(s, page, end_page). end_page - page)") (auto simp: PAGE_4K_def)

declare init_range_loop.simps [simp del]

definition init_range :: "PhysicalPageAllocator \<Rightarrow> usize \<Rightarrow> usize \<Rightarrow> PhysicalPageAllocator exec" where
  "init_range s start_addr end_addr =
     bind_exec (align_up start_addr PAGE_4K) (\<lambda>start'.
     bind_exec (align_down end_addr PAGE_4K) (\<lambda>end'.
     assert_exec (start' < end') (init_range_loop s start' end')))"

text \<open>
  The physical range one entry of the memory map contributes: nothing for an entry that is
  skipped, otherwise its start, its end and whether it is the range the kernel lies in.
\<close>

definition memory_range :: "usize \<Rightarrow> MemoryMap \<Rightarrow> (usize \<times> usize \<times> bool) option exec" where
  "memory_range physical_kernel_end memory =
     bind_exec (usize_add (base_addr memory) (mm_length memory)) (\<lambda>mem_end.
     if mem_end < EXTENDED_OFFSET then Ret None
     else if mem_type memory \<noteq> Available then Ret None
     else bind_exec (virtual2physical KERNEL_LINK) (\<lambda>physical_kernel_start.
       if base_addr memory \<le> physical_kernel_start \<and> mem_end \<ge> physical_kernel_end
       then bind_exec (align_down mem_end PAGE_4K) (\<lambda>e. Ret (Some (physical_kernel_end, e, True)))
       else assert_exec (base_addr memory \<ge> physical_kernel_end)
         (bind_exec (align_up (base_addr memory) PAGE_4K) (\<lambda>b.
          bind_exec (align_down mem_end PAGE_4K) (\<lambda>e. Ret (Some (b, e, False)))))))"

text \<open>The loop of \<open>new\<close> over the memory map.\<close>

fun phys_new_loop ::
  "usize \<Rightarrow> MemoryMap list \<Rightarrow> PhysicalPageAllocator \<Rightarrow> PhysicalPageAllocator exec" where
  "phys_new_loop pke [] s = Ret s"
| "phys_new_loop pke (memory # ms) s =
     bind_exec (memory_range pke memory) (\<lambda>r.
     case r of None \<Rightarrow> phys_new_loop pke ms s
     | Some (start_physical, end_physical, in_kernel) \<Rightarrow>
       bind_exec (if in_kernel
                  then bind_exec (physical2virtual pke) (\<lambda>v. Ret (s\<lparr>pa_start := v\<rparr>)) else Ret s) (\<lambda>s1.
       bind_exec (virtual2physical KERNEL_END) (\<lambda>low_end.
       bind_exec (if end_physical \<ge> low_end then Ret (KERNEL_END, KERNEL_END)
                  else bind_exec (physical2virtual end_physical) (\<lambda>v. Ret (0, v))) (\<lambda>(hms, end_virtual).
       bind_exec (physical2virtual start_physical) (\<lambda>start_virtual.
       if start_virtual < end_virtual
       then bind_exec (init_range (s1\<lparr>pa_end := end_virtual\<rparr>) start_virtual end_virtual) (\<lambda>s2.
            if hms \<noteq> 0 then Ret (s2\<lparr>high_mem_start := hms\<rparr>) else phys_new_loop pke ms s2)
       else phys_new_loop pke ms s1)))))"

definition phys_kernel_end :: "usize \<Rightarrow> usize \<Rightarrow> usize exec" where
  "phys_kernel_end kernel_elf_end multiboot_end_address =
     bind_exec (bind_exec (align_up kernel_elf_end PAGE_4K) virtual2physical) (\<lambda>pke.
     bind_exec (bind_exec (virtual2physical multiboot_end_address) (\<lambda>m. align_up m PAGE_4K)) (\<lambda>mend.
     if mend > pke then assert_exec (mend - pke < PAGE_4K * 5) (Ret mend) else Ret pke))"

definition phys_new :: "usize \<Rightarrow> usize \<Rightarrow> MemoryMap list \<Rightarrow> page_store \<Rightarrow> PhysicalPageAllocator exec" where
  "phys_new kernel_elf_end multiboot_end_address memory_maps m =
     bind_exec (phys_kernel_end kernel_elf_end multiboot_end_address) (\<lambda>pke.
     phys_new_loop pke memory_maps
       \<lparr>low_mem_free_list_head = None, high_mem_start = 0, pa_start = 0, pa_end = 0,
        free_count = 0, used_count = 0, pages = m\<rparr>)"

section \<open>The free list\<close>

text \<open>\<open>chain m p xs\<close>: following the headers from \<open>p\<close> visits exactly the pages \<open>xs\<close>.\<close>

fun chain :: "page_store \<Rightarrow> usize option \<Rightarrow> usize list \<Rightarrow> bool" where
  "chain m p [] = (p = None)"
| "chain m p (x # xs) = (p = Some x \<and> (case m x of FreePage n \<Rightarrow> chain m n xs | Words _ \<Rightarrow> False))"

definition valid_page :: "PhysicalPageAllocator \<Rightarrow> usize \<Rightarrow> bool" where
  "valid_page s p \<longleftrightarrow> p \<noteq> 0 \<and> PAGE_4K dvd p \<and> pa_start s \<le> p \<and> p < pa_end s"

definition phys_inv :: "PhysicalPageAllocator \<Rightarrow> usize list \<Rightarrow> bool" where
  "phys_inv s xs \<longleftrightarrow> chain (pages s) (low_mem_free_list_head s) xs \<and> distinct xs
     \<and> (\<forall>p \<in> set xs. valid_page s p)"

text \<open>
  The allocator as its clients use it: a page is given back by the client that holds it.  The
  list component is the pages currently held by clients.
\<close>

inductive phys_reach :: "PhysicalPageAllocator \<Rightarrow> PhysicalPageAllocator \<Rightarrow> usize list \<Rightarrow> bool"
  for s0 where
  reach_init: "phys_reach s0 s0 []"
| reach_alloc: "\<lbrakk> phys_reach s0 s held; phys_alloc s = Ret (p, s') \<rbrakk>
    \<Longrightarrow> phys_reach s0 s' (p # held)"
| reach_alloc_zeroed: "\<lbrakk> phys_reach s0 s held; phys_alloc_zeroed s = Ret (p, s') \<rbrakk>
    \<Longrightarrow> phys_reach s0 s' (p # held)"
| reach_free: "\<lbrakk> phys_reach s0 s held; p \<in> set held; phys_free s p = Ret s' \<rbrakk>
    \<Longrightarrow> phys_reach s0 s' (removeAll p held)"

section \<open>Lemmas\<close>

lemma chain_fun_upd [simp]: "x \<notin> set xs \<Longrightarrow> chain (m(x := d)) p xs = chain m p xs"
  by (induction xs arbitrary: p) (auto split: page_data.splits)

lemma phys_alloc_Ret:
  assumes "phys_inv s xs" "phys_alloc s = Ret (p, s')"
  obtains ps where "xs = p # ps" "phys_inv s' ps" "pages s' = (pages s)(p := page_fill 1)"
    "pa_start s' = pa_start s" "pa_end s' = pa_end s" "high_mem_start s' = high_mem_start s"
    "free_count s' = free_count s" "used_count s' = Suc (used_count s)"
proof (cases xs)
  case Nil
  with assms show ?thesis by (auto simp: phys_inv_def phys_alloc_def)
next
  case (Cons q ps)
  with assms that show ?thesis
    by (auto simp: phys_inv_def phys_alloc_def exec_simps valid_page_def split: page_data.splits)
qed

lemma phys_alloc_total:
  assumes "phys_inv s (p # ps)" "used_count s + 1 < usize_bound"
  shows "\<exists>s'. phys_alloc s = Ret (p, s')"
  using assms by (auto simp: phys_inv_def phys_alloc_def exec_simps split: page_data.splits)

lemma phys_alloc_empty: "phys_inv s [] \<Longrightarrow> phys_alloc s = Panic (Explicit ''out of memory'')"
  by (simp add: phys_inv_def phys_alloc_def)

lemma phys_try_free_eq_Ret_Some:
  "phys_try_free s p = Ret (Some (), s') \<longleftrightarrow>
     valid_page s p \<and> (high_mem_start s = 0 \<or> p < high_mem_start s) \<and> free_count s + 1 < usize_bound
     \<and> s' = s\<lparr>pages := (pages s)(p := FreePage (low_mem_free_list_head s)),
             low_mem_free_list_head := Some p, free_count := free_count s + 1\<rparr>"
  by (auto simp: phys_try_free_def valid_page_def exec_simps)

lemma phys_free_eq_Ret: "phys_free s p = Ret s' \<longleftrightarrow> phys_try_free s p = Ret (Some (), s')"
  by (auto simp: phys_free_def exec_simps split: option.splits)

lemma phys_inv_free:
  assumes "phys_inv s xs" "p \<notin> set xs" "phys_try_free s p = Ret (Some (), s')"
  shows "phys_inv s' (p # xs)"
  using assms by (auto simp: phys_inv_def phys_try_free_eq_Ret_Some valid_page_def)

lemma phys_alloc_zeroed_Ret:
  "phys_alloc_zeroed s = Ret (p, s') \<longleftrightarrow>
     (\<exists>s1. phys_alloc s = Ret (p, s1) \<and> s' = s1\<lparr>pages := (pages s1)(p := page_fill 0)\<rparr>)"
  by (auto simp: phys_alloc_zeroed_def exec_simps)

lemma phys_inv_zero:
  "phys_inv s xs \<Longrightarrow> p \<notin> set xs \<Longrightarrow> phys_inv (s\<lparr>pages := (pages s)(p := d)\<rparr>) xs"
  by (simp add: phys_inv_def valid_page_def)

text \<open>Free pages and held pages partition the pages the allocator started with.\<close>

lemma phys_reach_inv:
  assumes "phys_reach s0 s held" "phys_inv s0 xs0"
  shows "\<exists>xs. phys_inv s xs \<and> distinct (xs @ held) \<and> set (xs @ held) = set xs0
    \<and> pa_start s = pa_start s0 \<and> pa_end s = pa_end s0"
  using assms
proof (induction rule: phys_reach.induct)
  case reach_init
  then show ?case by (auto simp: phys_inv_def)
next
  case (reach_alloc s held p s')
  then obtain xs where xs: "phys_inv s xs" "distinct (xs @ held)" "set (xs @ held) = set xs0"
    "pa_start s = pa_start s0" "pa_end s = pa_end s0" by blast
  from phys_alloc_Ret[OF xs(1) reach_alloc.hyps(2)] obtain ps where
    "xs = p # ps" "phys_inv s' ps" "pa_start s' = pa_start s" "pa_end s' = pa_end s" by blast
  with xs show ?case by (intro exI[of _ ps]) auto
next
  case (reach_alloc_zeroed s held p s')
  then obtain xs where xs: "phys_inv s xs" "distinct (xs @ held)" "set (xs @ held) = set xs0"
    "pa_start s = pa_start s0" "pa_end s = pa_end s0" by blast
  obtain s1 where s1: "phys_alloc s = Ret (p, s1)" "s' = s1\<lparr>pages := (pages s1)(p := page_fill 0)\<rparr>"
    using reach_alloc_zeroed.hyps(2) by (auto simp: phys_alloc_zeroed_Ret)
  from phys_alloc_Ret[OF xs(1) s1(1)] obtain ps where
    ps: "xs = p # ps" "phys_inv s1 ps" "pa_start s1 = pa_start s" "pa_end s1 = pa_end s" by blast
  then have "phys_inv s' ps" using xs(2) s1(2) phys_inv_zero by simp
  with xs ps s1(2) show ?case by (intro exI[of _ ps]) auto
next
  case (reach_free s held p s')
  then obtain xs where xs: "phys_inv s xs" "distinct (xs @ held)" "set (xs @ held) = set xs0"
    "pa_start s = pa_start s0" "pa_end s = pa_end s0" by blast
  have f: "phys_try_free s p = Ret (Some (), s')" using reach_free.hyps(3) by (simp add: phys_free_eq_Ret)
  have "phys_inv s' (p # xs)" using phys_inv_free[OF xs(1) _ f] xs(2) reach_free.hyps(2) by auto
  with xs f reach_free.hyps(2) show ?case
    by (intro exI[of _ "p # xs"]) (auto simp: distinct_removeAll phys_try_free_eq_Ret_Some)
qed

text \<open>Building the list at boot.\<close>

lemma init_range_loop_inv:
  assumes "init_range_loop s page e = Ret s'" "phys_inv s xs"
    and "\<forall>x \<in> set xs. x < page \<or> e \<le> x"
  shows "\<exists>ys. phys_inv s' (ys @ xs) \<and> (\<forall>y \<in> set ys. page \<le> y \<and> y < e)
    \<and> pa_start s' = pa_start s \<and> pa_end s' = pa_end s \<and> high_mem_start s' = high_mem_start s
    \<and> free_count s' = free_count s + length ys"
  using assms
proof (induction s page e arbitrary: xs rule: init_range_loop.induct)
  case (1 s page e)
  show ?case
  proof (cases "page < e")
    case False
    with 1 show ?thesis by (intro exI[of _ "[]"]) (simp add: init_range_loop.simps)
  next
    case True
    then obtain s1 where f: "phys_try_free s page = Ret (Some (), s1)"
      and l: "init_range_loop s1 (page + PAGE_4K) e = Ret s'"
      using 1(2) by (auto simp: init_range_loop.simps[of s] exec_simps split: option.splits)
    have "phys_inv s1 (page # xs)" using phys_inv_free[OF 1(3) _ f] 1(4) True by auto
    moreover have "\<forall>x \<in> set (page # xs). x < page + PAGE_4K \<or> e \<le> x" using 1(4) by auto
    ultimately obtain ys where "phys_inv s' (ys @ page # xs)"
      "\<forall>y \<in> set ys. page + PAGE_4K \<le> y \<and> y < e" "pa_start s' = pa_start s1"
      "pa_end s' = pa_end s1" "high_mem_start s' = high_mem_start s1"
      "free_count s' = free_count s1 + length ys"
      using 1(1)[OF True f, of "Some ()" s1 "()" "page # xs"] l by auto
    then show ?thesis using f True
      by (intro exI[of _ "ys @ [page]"]) (auto simp: phys_try_free_eq_Ret_Some)
  qed
qed

lemma init_range_inv:
  assumes "init_range s a b = Ret s'" "phys_inv s xs" "b < usize_bound"
    and "\<forall>x \<in> set xs. x < a"
  shows "\<exists>ys. phys_inv s' (ys @ xs) \<and> (\<forall>y \<in> set ys. a \<le> y \<and> y + PAGE_4K \<le> b)
    \<and> pa_start s' = pa_start s \<and> pa_end s' = pa_end s \<and> high_mem_start s' = high_mem_start s
    \<and> free_count s' = free_count s + length ys"
proof -
  obtain a' b' where ab: "align_up a PAGE_4K = Ret a'" "align_down b PAGE_4K = Ret b'"
    and l: "init_range_loop s a' b' = Ret s'"
    using assms(1) by (auto simp: init_range_def exec_simps)
  note a' = align_up_page_Ret[OF ab(1)] and b' = align_down_page_Ret[OF ab(2) assms(3)]
  have "\<forall>x \<in> set xs. x < a' \<or> b' \<le> x" using assms(4) a'(1) by auto
  then obtain ys where ys: "phys_inv s' (ys @ xs)" "\<forall>y \<in> set ys. a' \<le> y \<and> y < b'"
    "pa_start s' = pa_start s" "pa_end s' = pa_end s" "high_mem_start s' = high_mem_start s"
    "free_count s' = free_count s + length ys"
    using init_range_loop_inv[OF l assms(2)] by blast
  have "y + PAGE_4K \<le> b" if "y \<in> set ys" for y
  proof -
    have "PAGE_4K dvd y" using ys(1) that by (auto simp: phys_inv_def valid_page_def)
    then obtain i where i: "y = PAGE_4K * i" by (rule dvdE)
    obtain j where j: "b' = PAGE_4K * j" using b'(3) by (rule dvdE)
    have "i < j" using ys(2) that i j by auto
    then have "PAGE_4K * (i + 1) \<le> PAGE_4K * j" by (intro mult_le_mono2) simp
    then show ?thesis using i j b'(1) by simp
  qed
  then show ?thesis using ys a'(1) by (intro exI[of _ ys]) force
qed

text \<open>Where a page of the memory map may come from.\<close>

definition mapped_page :: "usize \<Rightarrow> MemoryMap list \<Rightarrow> usize \<Rightarrow> bool" where
  "mapped_page pke ms p \<longleftrightarrow> KERNEL_BASE + pke \<le> p \<and> p + PAGE_4K \<le> KERNEL_END
     \<and> (\<exists>mm \<in> set ms. mem_type mm = Available \<and> KERNEL_BASE + base_addr mm \<le> p
          \<and> p + PAGE_4K \<le> KERNEL_BASE + base_addr mm + mm_length mm)"

definition map_sorted :: "MemoryMap list \<Rightarrow> bool" where
  "map_sorted ms \<longleftrightarrow> sorted_wrt (\<lambda>a b. base_addr a + mm_length a \<le> base_addr b) ms"

lemma memory_range_Some:
  assumes "memory_range pke mm = Ret (Some (b, e, k))"
  shows "mem_type mm = Available" "base_addr mm + mm_length mm < usize_bound"
    "e \<le> base_addr mm + mm_length mm" "pke \<le> b" "base_addr mm \<le> b \<or> k"
    "k \<Longrightarrow> base_addr mm \<le> EXTENDED_OFFSET"
  using assms
  by (auto simp: memory_range_def exec_simps virtual2physical_eq_Ret KERNEL_LINK_def
      dest: align_up_page_Ret(1) align_down_page_Ret(1) split: if_splits)

lemma phys_inv_bounds:
  assumes "phys_inv s xs" "\<forall>x \<in> set xs. pa_start s' \<le> x \<and> x < pa_end s'"
    "pages s' = pages s" "low_mem_free_list_head s' = low_mem_free_list_head s"
  shows "phys_inv s' xs"
  using assms by (simp add: phys_inv_def valid_page_def)

lemma layout_bounds: "KERNEL_END < usize_bound" "KERNEL_BASE \<le> KERNEL_END" "KERNEL_END \<noteq> 0"
  "KERNEL_END = KERNEL_BASE + KERNEL_MAPPED_SIZE"
  by (simp_all add: kernel_layout_defs usize_bound_def)

lemma phys_new_range:
  assumes "init_range (s\<lparr>pa_end := ev\<rparr>) (b + KERNEL_BASE) ev = Ret s'" "phys_inv s xs"
    and "\<forall>x \<in> set xs. x < b + KERNEL_BASE" "b + KERNEL_BASE < ev" "ev \<le> KERNEL_END"
    and "ev \<le> KERNEL_BASE + base_addr mm + mm_length mm" "pke \<le> b" "base_addr mm \<le> b"
    and "mem_type mm = Available" "mm \<in> set all"
  shows "\<exists>ys. phys_inv s' (ys @ xs) \<and> (\<forall>y \<in> set ys. mapped_page pke all y \<and> y < ev)
    \<and> free_count s' = free_count s + length ys"
proof -
  have "phys_inv (s\<lparr>pa_end := ev\<rparr>) xs"
    by (rule phys_inv_bounds[OF assms(2)])
      (use assms(2-4) in \<open>auto simp: phys_inv_def valid_page_def\<close>)
  moreover have "ev < usize_bound" using assms(5) layout_bounds(1) by linarith
  ultimately obtain ys where ys: "phys_inv s' (ys @ xs)"
    "\<forall>y \<in> set ys. b + KERNEL_BASE \<le> y \<and> y + PAGE_4K \<le> ev"
    "free_count s' = free_count s + length ys"
    using init_range_inv[OF assms(1) _ _ assms(3)] by auto
  have "mapped_page pke all y \<and> y < ev" if "y \<in> set ys" for y
  proof -
    have "b + KERNEL_BASE \<le> y" "y + PAGE_4K \<le> ev" using ys(2) that by auto
    then show ?thesis using assms(5-10) PAGE_4K_pos
      unfolding mapped_page_def by (intro conjI bexI[of _ mm]) linarith+
  qed
  with ys show ?thesis by blast
qed

lemma phys_new_loop_inv:
  assumes "phys_new_loop pke ms s = Ret s'" "map_sorted ms" "phys_inv s xs"
    and "\<forall>m \<in> set ms. lo \<le> base_addr m" "EXTENDED_OFFSET < pke" "xs \<noteq> [] \<longrightarrow> pke \<le> lo"
    and "\<forall>p \<in> set xs. mapped_page pke all p \<and> p < KERNEL_BASE + lo" "set ms \<subseteq> set all"
  shows "\<exists>ys. phys_inv s' ys \<and> (\<forall>p \<in> set ys. mapped_page pke all p)
    \<and> free_count s' + length xs = free_count s + length ys"
  using assms
proof (induction ms arbitrary: s xs lo)
  case (Cons mm ms)
  have srt: "map_sorted ms" and after: "\<forall>m \<in> set ms. base_addr mm + mm_length mm \<le> base_addr m"
    using Cons.prems(2) by (auto simp: map_sorted_def)
  obtain r where r: "memory_range pke mm = Ret r" using Cons.prems(1) by (auto simp: exec_simps)
  show ?case
  proof (cases r)
    case None
    then show ?thesis using Cons.prems r srt
      by (intro Cons.IH[of s xs lo]) (auto simp: exec_simps)
  next
    case (Some a)
    obtain b e k where a: "a = (b, e, k)" by (cases a) auto
    note rng = memory_range_Some[OF r[unfolded Some a]]
    have xs_k: "k \<Longrightarrow> xs = []"
    proof (rule ccontr)
      assume "k" "xs \<noteq> []"
      then have "pke \<le> lo" "lo \<le> base_addr mm" using Cons.prems(4,6) by auto
      then show False using rng(6)[OF \<open>k\<close>] Cons.prems(5) by simp
    qed
    define s1 where "s1 = (if k then s\<lparr>pa_start := pke + KERNEL_BASE\<rparr> else s)"
    define ev where "ev = (if e \<ge> KERNEL_MAPPED_SIZE then KERNEL_END else e + KERNEL_BASE)"
    define hms where "hms = (if e \<ge> KERNEL_MAPPED_SIZE then KERNEL_END else 0)"
    have vk: "virtual2physical KERNEL_END = Ret KERNEL_MAPPED_SIZE"
      by (simp add: virtual2physical_eq_Ret kernel_layout_defs)
    have step: "(if b + KERNEL_BASE < ev
        then bind_exec (init_range (s1\<lparr>pa_end := ev\<rparr>) (b + KERNEL_BASE) ev) (\<lambda>s2.
             if hms \<noteq> 0 then Ret (s2\<lparr>high_mem_start := hms\<rparr>) else phys_new_loop pke ms s2)
        else phys_new_loop pke ms s1) = Ret s'"
      using Cons.prems(1) r Some a
      by (auto simp: exec_simps physical2virtual_eq_Ret vk s1_def ev_def hms_def split: if_splits)
    have inv1: "phys_inv s1 xs" using Cons.prems(3) xs_k
      by (cases k) (auto simp: s1_def phys_inv_def)
    have fc1: "free_count s1 = free_count s" by (simp add: s1_def)
    have evb: "ev < usize_bound" "ev \<le> KERNEL_END" "ev \<le> KERNEL_BASE + base_addr mm + mm_length mm"
      using layout_bounds rng(3) by (auto simp: ev_def)
    show ?thesis
    proof (cases "b + KERNEL_BASE < ev")
      case False
      then show ?thesis
        using step Cons.IH[OF _ srt inv1, of lo] Cons.prems(4-8) fc1 by auto
    next
      case True
      obtain s2 where s2: "init_range (s1\<lparr>pa_end := ev\<rparr>) (b + KERNEL_BASE) ev = Ret s2"
        using step True by (auto simp: exec_simps)
      have lox: "\<forall>x \<in> set xs. x < b + KERNEL_BASE"
        using Cons.prems(4,7) rng(5) xs_k by (cases k) fastforce+
      have "base_addr mm \<le> b" using rng(4-6) Cons.prems(5) by fastforce
      with phys_new_range[OF s2 inv1 lox True evb(2,3) rng(4) _ rng(1), of all] Cons.prems(8) fc1
      obtain ys where ys: "phys_inv s2 (ys @ xs)" "\<forall>y \<in> set ys. mapped_page pke all y \<and> y < ev"
          "free_count s2 = free_count s + length ys" by auto
      show ?thesis
      proof (cases "hms = 0")
        case False
        then show ?thesis using step True s2 ys Cons.prems(7)
          by (intro exI[of _ "ys @ xs"]) (auto simp: phys_inv_def valid_page_def)
      next
        case h0: True
        have l: "phys_new_loop pke ms s2 = Ret s'" using step True s2 h0 by simp
        let ?lo = "base_addr mm + mm_length mm"
        have "pke \<le> ?lo" using True evb(3) rng(4) by linarith
        moreover have "mapped_page pke all p \<and> p < KERNEL_BASE + ?lo" if "p \<in> set (ys @ xs)" for p
        proof -
          have "p < ev" using that ys(2) lox True by fastforce
          then show ?thesis using that ys(2) evb(3) Cons.prems(7) by auto
        qed
        ultimately obtain zs where "phys_inv s' zs" "\<forall>p \<in> set zs. mapped_page pke all p"
          "free_count s' + length (ys @ xs) = free_count s2 + length zs"
          using Cons.IH[OF l srt ys(1) after Cons.prems(5)] Cons.prems(8) by auto
        then show ?thesis using ys(3) by auto
      qed
    qed
  qed
qed auto

lemma phys_kernel_end_above:
  assumes "phys_kernel_end ke me = Ret pke"
  shows "ke \<le> KERNEL_BASE + pke"
  using assms
  by (auto simp: phys_kernel_end_def exec_simps virtual2physical_eq_Ret
      dest!: align_up_page_Ret(1) split: if_splits)

section \<open>Properties\<close>


text \<open>
  C16.  No page is handed out twice.  Whatever the clients have allocated and freed since the
  allocator was set up with the pages \<open>xs0\<close>, an allocation returns one of those pages that no
  client holds; and it does return one whenever there is one (the call counter permitting).
\<close>
theorem phys_alloc_exclusive:
  assumes "phys_inv s0 xs0" and "phys_reach s0 s held" and "used_count s + 1 < usize_bound"
  shows "if set held = set xs0 then phys_alloc s = Panic (Explicit ''out of memory'')
    else \<exists>p s'. phys_alloc s = Ret (p, s') \<and> p \<in> set xs0 - set held \<and> PAGE_4K dvd p
           \<and> pa_start s0 \<le> p \<and> p < pa_end s0"
proof -
  obtain xs where xs: "phys_inv s xs" "distinct (xs @ held)" "set (xs @ held) = set xs0"
    "pa_start s = pa_start s0" "pa_end s = pa_end s0"
    using phys_reach_inv[OF assms(2,1)] by blast
  show ?thesis
  proof (cases xs)
    case Nil
    then show ?thesis using xs(1,3) phys_alloc_empty by auto
  next
    case (Cons p ps)
    then obtain s' where "phys_alloc s = Ret (p, s')" using phys_alloc_total assms(3) xs(1) by blast
    with Cons xs show ?thesis by (auto simp: phys_inv_def valid_page_def)
  qed
qed

text \<open>
  The two statistics count calls, not pages: giving back the page just allocated restores
  the free list, but leaves both the free and the used count one higher than before.
\<close>
theorem phys_stats_count_calls:
  assumes "phys_inv s (p # ps)" and "high_mem_start s = 0" and "used_count s + 1 < usize_bound"
    and "free_count s + 1 < usize_bound"
  shows "\<exists>s1 s2. phys_alloc s = Ret (p, s1) \<and> phys_free s1 p = Ret s2 \<and> phys_inv s2 (p # ps)
    \<and> phys_stats s2 = (fst (phys_stats s) + 1, snd (phys_stats s) + 1)"
proof -
  obtain s1 where s1: "phys_alloc s = Ret (p, s1)" using phys_alloc_total[OF assms(1,3)] by blast
  from phys_alloc_Ret[OF assms(1) s1] have f: "phys_inv s1 ps" "pa_start s1 = pa_start s"
    "pa_end s1 = pa_end s" "high_mem_start s1 = high_mem_start s" "free_count s1 = free_count s"
    "used_count s1 = Suc (used_count s)" by auto
  have np: "p \<notin> set ps" and "valid_page s p" using assms(1) by (auto simp: phys_inv_def)
  then obtain s2 where s2: "phys_try_free s1 p = Ret (Some (), s2)"
    using f assms(2,4) by (auto simp: phys_try_free_eq_Ret_Some valid_page_def)
  then show ?thesis using s1 f phys_inv_free[OF f(1) np s2]
    by (auto simp: phys_free_eq_Ret phys_stats_def phys_try_free_eq_Ret_Some)
qed

section \<open>Witnesses\<close>

definition example_map :: "MemoryMap list" where
  "example_map = [\<lparr>base_addr = 0, mm_length = 0x9F000, mem_type = Available\<rparr>,
     \<lparr>base_addr = 0x100000, mm_length = 0x23800, mem_type = Available\<rparr>,
     \<lparr>base_addr = 0x123800, mm_length = 0x1000, mem_type = Reserved\<rparr>]"

definition two_pages :: PhysicalPageAllocator where
  "two_pages = \<lparr>low_mem_free_list_head = Some 0x2000, high_mem_start = 0, pa_start = 0x1000,
     pa_end = 0x3000, free_count = 2, used_count = 0,
     pages = (\<lambda>_. page_fill 0)(0x1000 := FreePage None, 0x2000 := FreePage (Some 0x1000))\<rparr>"

lemma two_pages_inv: "phys_inv two_pages [0x2000, 0x1000]"
  by (simp add: phys_inv_def two_pages_def valid_page_def PAGE_4K_def)

theorem phys_alloc_exclusive_witness:
  "if set [] = set [0x2000, 0x1000 :: usize]
   then phys_alloc two_pages = Panic (Explicit ''out of memory'')
   else \<exists>p s'. phys_alloc two_pages = Ret (p, s') \<and> p \<in> set [0x2000, 0x1000] - set []
          \<and> PAGE_4K dvd p \<and> pa_start two_pages \<le> p \<and> p < pa_end two_pages"
  by (rule phys_alloc_exclusive[OF two_pages_inv reach_init])
    (simp add: two_pages_def usize_bound_def)

theorem phys_stats_count_calls_witness:
  "\<exists>s1 s2. phys_alloc two_pages = Ret (0x2000, s1) \<and> phys_free s1 0x2000 = Ret s2
    \<and> phys_inv s2 [0x2000, 0x1000] \<and> phys_stats s2 = (fst (phys_stats two_pages) + 1, snd (phys_stats two_pages) + 1)"
  by (rule phys_stats_count_calls[OF two_pages_inv]) (simp_all add: two_pages_def usize_bound_def)

lemma example_boot:
  "is_ret (phys_new (KERNEL_LINK + 0x20000) (KERNEL_BASE + 0x9000) example_map (\<lambda>_. page_fill 0))"
  by (simp add: phys_new_def phys_kernel_end_def virtual2physical_def physical2virtual_def
      kernel_layout_defs example_map_def memory_range_def usize_bound_def init_range_def
      phys_try_free_def init_range_loop.simps usize_add_def usize_sub_def assert_exec_def
      align_up_def align_down_def usize_not_def is_aligned_def)


end
