(* ===== verification/Page_Tables.thy ===== *)
theory Page_Tables
  imports Phys_Alloc
begin

unbundle bit_operations_syntax

text \<open>
  Model of kernel/src/memory_management/virtual_memory_mapper.rs: the four level page tables of
  the x86-64 processor.  The tables live in pages of the physical page allocator, whose store of
  page contents is the memory of this model; a table is named by its physical address, as in
  \<open>PageDirectoryTablePtr\<close>, and reached through the direct map.  The 2 MB branch of \<open>map\<close>,
  which the code disables with \<open>can_map_2mb_page = false\<close>, is not modelled.
  Loading cr3 and invalidating the translation cache have no effect on the state of the model.
\<close>

section \<open>Entries\<close>

definition PTE_PRESENT :: u64 where "PTE_PRESENT = push_bit 0 1"
definition PTE_WRITABLE :: u64 where "PTE_WRITABLE = push_bit 1 1"
definition PTE_USER :: u64 where "PTE_USER = push_bit 2 1"
definition PTE_HUGE_PAGE :: u64 where "PTE_HUGE_PAGE = push_bit 7 1"

definition ADDR_MASK :: u64 where "ADDR_MASK = 0x00000000FFFFF000"

definition KERNEL_L4_INDEX :: usize where "KERNEL_L4_INDEX = 0x1FF"
definition KERNEL_L3_INDEX_START :: usize where "KERNEL_L3_INDEX_START = 0x1FE"
definition KERNEL_L3_PROCESS_INDEX_START :: usize where "KERNEL_L3_PROCESS_INDEX_START = 0"
definition KERNEL_L3_PROCESS_INDEX_END :: usize where
  "KERNEL_L3_PROCESS_INDEX_END = KERNEL_L3_INDEX_START - 1"
definition NUM_USER_L4_INDEXES :: usize where "NUM_USER_L4_INDEXES = KERNEL_L4_INDEX"

definition MAX_USER_VIRTUAL_ADDRESS :: usize where
  "MAX_USER_VIRTUAL_ADDRESS =
     0xFFFF000000000000 OR push_bit 39 (KERNEL_L4_INDEX - 1) OR push_bit 30 0x1FF
     OR push_bit 21 0x1FF OR push_bit 12 0x1FF"

definition get_l4 :: "usize \<Rightarrow> usize" where "get_l4 addr = drop_bit 39 addr AND 0x1FF"
definition get_l3 :: "usize \<Rightarrow> usize" where "get_l3 addr = drop_bit 30 addr AND 0x1FF"
definition get_l2 :: "usize \<Rightarrow> usize" where "get_l2 addr = drop_bit 21 addr AND 0x1FF"
definition get_l1 :: "usize \<Rightarrow> usize" where "get_l1 addr = drop_bit 12 addr AND 0x1FF"

record VirtualMemoryMapEntry =
  virtual_address :: usize
  physical_address :: "usize option"
  me_size :: usize
  me_flags :: u64

record VirtualMemoryMapper =
  page_map_l4 :: usize
  is_user :: bool

section \<open>Tables\<close>

definition from_entry :: "u64 \<Rightarrow> usize" where
  "from_entry entry = unat (entry AND ADDR_MASK)"

definition as_virtual :: "usize \<Rightarrow> usize exec" where
  "as_virtual physical_addr = assert_exec (physical_addr < KERNEL_END) (physical2virtual physical_addr)"

definition alloc_new :: "PhysicalPageAllocator \<Rightarrow> (usize \<times> PhysicalPageAllocator) exec" where
  "alloc_new st =
     bind_exec (phys_alloc_zeroed st) (\<lambda>(v, st').
     bind_exec (virtual2physical v) (\<lambda>p. Ret (p, st')))"

definition free_table :: "PhysicalPageAllocator \<Rightarrow> usize \<Rightarrow> PhysicalPageAllocator exec" where
  "free_table st p = bind_exec (as_virtual p) (\<lambda>v. phys_free st v)"

definition read_entry :: "PhysicalPageAllocator \<Rightarrow> usize \<Rightarrow> usize \<Rightarrow> u64 exec" where
  "read_entry st p i =
     bind_exec (as_virtual p) (\<lambda>v.
     case pages st v of
       FreePage _ \<Rightarrow> Panic Uninit
     | Words f \<Rightarrow> if i < 512 then Ret (f i) else Panic OutOfBounds)"

definition write_entry ::
  "PhysicalPageAllocator \<Rightarrow> usize \<Rightarrow> usize \<Rightarrow> u64 \<Rightarrow> PhysicalPageAllocator exec" where
  "write_entry st p i e =
     bind_exec (as_virtual p) (\<lambda>v.
     case pages st v of
       FreePage _ \<Rightarrow> Panic Uninit
     | Words f \<Rightarrow> if i < 512 then Ret (st\<lparr>pages := (pages st)(v := Words (f(i := e)))\<rparr>)
                  else Panic OutOfBounds)"

definition present :: "u64 \<Rightarrow> bool" where
  "present e \<longleftrightarrow> e AND PTE_PRESENT \<noteq> 0"

section \<open>Mapping\<close>

text \<open>One level of the descent of \<open>map\<close>: make the entry point to a table, add the flags.\<close>

definition map_level ::
  "PhysicalPageAllocator \<Rightarrow> usize \<Rightarrow> usize \<Rightarrow> u64 \<Rightarrow> (usize \<times> PhysicalPageAllocator) exec" where
  "map_level st table i fl =
     bind_exec (read_entry st table i) (\<lambda>e.
     bind_exec (if \<not> present e
                then bind_exec (alloc_new st) (\<lambda>(p, st').
                     Ret ((of_nat p AND ADDR_MASK) OR PTE_PRESENT, st'))
                else Ret (e, st)) (\<lambda>(e1, st1).
     bind_exec (write_entry st1 table i (e1 OR fl)) (\<lambda>st2.
     Ret (from_entry (e1 OR fl), st2))))"

definition map_page ::
  "PhysicalPageAllocator \<Rightarrow> usize \<Rightarrow> usize \<Rightarrow> usize option \<Rightarrow> u64 \<Rightarrow> PhysicalPageAllocator exec" where
  "map_page st l4 va pa fl =
     bind_exec (case pa of Some p \<Rightarrow> Ret (p, st) | None \<Rightarrow> alloc_new st) (\<lambda>(current_pa, st0).
     bind_exec (map_level st0 l4 (get_l4 va) fl) (\<lambda>(l3, st1).
     bind_exec (map_level st1 l3 (get_l3 va) fl) (\<lambda>(l2, st2).
     bind_exec (map_level st2 l2 (get_l2 va) fl) (\<lambda>(l1, st3).
     write_entry st3 l1 (get_l1 va) ((of_nat current_pa AND ADDR_MASK) OR fl OR PTE_PRESENT)))))"

definition advance_physical :: "usize option \<Rightarrow> usize option exec" where
  "advance_physical pa =
     (case pa of None \<Rightarrow> Ret None | Some p \<Rightarrow> bind_exec (usize_add p PAGE_4K) (\<lambda>p'. Ret (Some p')))"

function map_loop ::
  "PhysicalPageAllocator \<Rightarrow> usize \<Rightarrow> usize \<Rightarrow> usize option \<Rightarrow> usize \<Rightarrow> u64
     \<Rightarrow> PhysicalPageAllocator exec" where
  "map_loop st l4 va pa sz fl =
     (if sz = 0 then Ret st
      else bind_exec (map_page st l4 va pa fl) (\<lambda>st1.
           bind_exec (usize_sub sz PAGE_4K) (\<lambda>sz1.
           if sz1 = 0 then Ret st1
           else bind_exec (usize_add va PAGE_4K) (\<lambda>va1.
                bind_exec (advance_physical pa) (\<lambda>pa1.
                map_loop st1 l4 va1 pa1 sz1 fl)))))"
  by pat_completeness auto
termination
  by (relation "measure (\<lambda>(st, l4, va, pa, sz, fl). sz)") (auto simp: exec_simps)

declare map_loop.simps [simp del]

definition vm_map ::
  "VirtualMemoryMapper \<Rightarrow> VirtualMemoryMapEntry \<Rightarrow> PhysicalPageAllocator \<Rightarrow> PhysicalPageAllocator exec" where
  "vm_map vm entry st =
     bind_exec (as_virtual (page_map_l4 vm)) (\<lambda>l4v.
     assert_exec (l4v \<noteq> 0)
    (bind_exec (is_aligned l4v PAGE_4K) (\<lambda>al.
     assert_exec al
    (bind_exec (align_range (virtual_address entry) (me_size entry) PAGE_4K) (\<lambda>(va, sz, _).
     bind_exec (if is_user vm
                then assert_exec (me_flags entry AND PTE_USER \<noteq> 0)
                    (assert_exec (get_l4 va \<noteq> KERNEL_L4_INDEX)
                    (bind_exec (usize_add va sz) (\<lambda>e.
                     assert_exec (e \<le> MAX_USER_VIRTUAL_ADDRESS) (Ret ()))))
                else Ret ()) (\<lambda>_.
     bind_exec (case physical_address entry of
                  None \<Rightarrow> Ret None
                | Some p \<Rightarrow> bind_exec (align_range p (me_size entry) PAGE_4K) (\<lambda>(ps, psz, _).
                            assert_exec (psz = sz) (Ret (Some ps)))) (\<lambda>pa.
     assert_exec (sz > 0)
    (map_loop st (page_map_l4 vm) va pa sz (me_flags entry)))))))))"

section \<open>Unmapping\<close>

text \<open>One level of the descent of \<open>unmap\<close>: the entry must be present and loses the flags.\<close>

definition unmap_level ::
  "PhysicalPageAllocator \<Rightarrow> usize \<Rightarrow> usize \<Rightarrow> u64 \<Rightarrow> (usize \<times> PhysicalPageAllocator) exec" where
  "unmap_level st table i fl =
     bind_exec (read_entry st table i) (\<lambda>e.
     if \<not> present e then Panic (Explicit ''Trying to unmap a non-mapped address'')
     else bind_exec (write_entry st table i (e AND NOT fl)) (\<lambda>st1.
          Ret (from_entry (e AND NOT fl), st1)))"

definition unmap_page ::
  "PhysicalPageAllocator \<Rightarrow> usize \<Rightarrow> usize \<Rightarrow> u64 \<Rightarrow> bool \<Rightarrow> PhysicalPageAllocator exec" where
  "unmap_page st l4 va fl is_allocated =
     bind_exec (unmap_level st l4 (get_l4 va) fl) (\<lambda>(l3, st1).
     bind_exec (unmap_level st1 l3 (get_l3 va) fl) (\<lambda>(l2, st2).
     bind_exec (unmap_level st2 l2 (get_l2 va) fl) (\<lambda>(l1, st3).
     bind_exec (read_entry st3 l1 (get_l1 va)) (\<lambda>e.
     if \<not> present e then Panic (Explicit ''Trying to unmap a non-mapped address'')
     else bind_exec (if is_allocated then free_table st3 (from_entry e) else Ret st3) (\<lambda>st4.
          write_entry st4 l1 (get_l1 va) 0)))))"

function unmap_loop ::
  "PhysicalPageAllocator \<Rightarrow> usize \<Rightarrow> usize \<Rightarrow> usize \<Rightarrow> u64 \<Rightarrow> bool \<Rightarrow> PhysicalPageAllocator exec" where
  "unmap_loop st l4 va sz fl is_allocated =
     (if sz = 0 then Ret st
      else bind_exec (unmap_page st l4 va fl is_allocated) (\<lambda>st1.
           bind_exec (usize_sub sz PAGE_4K) (\<lambda>sz1.
           if sz1 = 0 then Ret st1
           else bind_exec (usize_add va PAGE_4K) (\<lambda>va1.
                unmap_loop st1 l4 va1 sz1 fl is_allocated))))"
  by pat_completeness auto
termination
  by (relation "measure (\<lambda>(st, l4, va, sz, fl, al). sz)") (auto simp: exec_simps)

declare unmap_loop.simps [simp del]

definition vm_unmap ::
  "VirtualMemoryMapper \<Rightarrow> VirtualMemoryMapEntry \<Rightarrow> bool \<Rightarrow> PhysicalPageAllocator
     \<Rightarrow> PhysicalPageAllocator exec" where
  "vm_unmap vm entry is_allocated st =
     assert_exec (physical_address entry = None)
    (bind_exec (align_range (virtual_address entry) (me_size entry) PAGE_4K) (\<lambda>(va, sz, _).
     assert_exec (sz > 0)
    (unmap_loop st (page_map_l4 vm) va sz (me_flags entry) is_allocated)))"

definition is_address_mapped :: "VirtualMemoryMapper \<Rightarrow> usize \<Rightarrow> PhysicalPageAllocator \<Rightarrow> bool exec" where
  "is_address_mapped vm addr st =
     bind_exec (read_entry st (page_map_l4 vm) (get_l4 addr)) (\<lambda>e4.
     if \<not> present e4 then Ret False
     else bind_exec (read_entry st (from_entry e4) (get_l3 addr)) (\<lambda>e3.
     if \<not> present e3 then Ret False
     else bind_exec (read_entry st (from_entry e3) (get_l2 addr)) (\<lambda>e2.
     if \<not> present e2 then Ret False
     else if e2 AND PTE_HUGE_PAGE \<noteq> 0 then Ret True
     else bind_exec (read_entry st (from_entry e2) (get_l1 addr)) (\<lambda>e1.
     Ret (present e1)))))"

section \<open>The kernel's map and the maps of processes\<close>

text \<open>\<open>map_kernel\<close> and \<open>unmap_kernel\<close> on the kernel's mapper.\<close>

definition map_kernel ::
  "VirtualMemoryMapper \<Rightarrow> VirtualMemoryMapEntry \<Rightarrow> PhysicalPageAllocator \<Rightarrow> PhysicalPageAllocator exec" where
  "map_kernel kvm entry st = assert_exec (virtual_address entry \<ge> KERNEL_BASE) (vm_map kvm entry st)"

definition unmap_kernel ::
  "VirtualMemoryMapper \<Rightarrow> VirtualMemoryMapEntry \<Rightarrow> bool \<Rightarrow> PhysicalPageAllocator
     \<Rightarrow> PhysicalPageAllocator exec" where
  "unmap_kernel kvm entry is_allocated st =
     assert_exec (virtual_address entry \<ge> KERNEL_BASE) (vm_unmap kvm entry is_allocated st)"

definition vm_new :: "PhysicalPageAllocator \<Rightarrow> (VirtualMemoryMapper \<times> PhysicalPageAllocator) exec" where
  "vm_new st = bind_exec (alloc_new st) (\<lambda>(p, st'). Ret (\<lparr>page_map_l4 = p, is_user = False\<rparr>, st'))"

fun copy_entries ::
  "PhysicalPageAllocator \<Rightarrow> usize \<Rightarrow> usize \<Rightarrow> usize list \<Rightarrow> PhysicalPageAllocator exec" where
  "copy_entries st src dst [] = Ret st"
| "copy_entries st src dst (i # is) =
     bind_exec (read_entry st src i) (\<lambda>e.
     bind_exec (write_entry st dst i e) (\<lambda>st'. copy_entries st' src dst is))"

definition clone_kernel_mem ::
  "VirtualMemoryMapper \<Rightarrow> PhysicalPageAllocator \<Rightarrow> (VirtualMemoryMapper \<times> PhysicalPageAllocator) exec" where
  "clone_kernel_mem vm st =
     bind_exec (read_entry st (page_map_l4 vm) KERNEL_L4_INDEX) (\<lambda>e.
     let this_kernel_l4 = from_entry e in
     bind_exec (vm_new st) (\<lambda>(new_vm, st1).
     bind_exec (alloc_new st1) (\<lambda>(new_kernel_l4, st2).
     bind_exec (copy_entries st2 this_kernel_l4 new_kernel_l4 [0..<0x200]) (\<lambda>st3.
     bind_exec (write_entry st3 (page_map_l4 new_vm) KERNEL_L4_INDEX
                  (of_nat new_kernel_l4 OR PTE_PRESENT OR PTE_WRITABLE)) (\<lambda>st4.
     Ret (new_vm, st4))))))"

fun clear_entries :: "PhysicalPageAllocator \<Rightarrow> usize \<Rightarrow> usize list \<Rightarrow> PhysicalPageAllocator exec" where
  "clear_entries st table [] = Ret st"
| "clear_entries st table (i # is) =
     bind_exec (write_entry st table i 0) (\<lambda>st'. clear_entries st' table is)"

definition add_process_specific_mappings ::
  "VirtualMemoryMapper \<Rightarrow> PhysicalPageAllocator \<Rightarrow> (VirtualMemoryMapper \<times> PhysicalPageAllocator) exec" where
  "add_process_specific_mappings vm st =
     bind_exec (read_entry st (page_map_l4 vm) KERNEL_L4_INDEX) (\<lambda>e.
     bind_exec (clear_entries st (from_entry e)
                  [KERNEL_L3_PROCESS_INDEX_START..<KERNEL_L3_PROCESS_INDEX_END + 1]) (\<lambda>st1.
     bind_exec (vm_map (vm\<lparr>is_user := False\<rparr>)
                  \<lparr>virtual_address = PROCESS_KERNEL_STACK_BASE, physical_address = None,
                   me_size = PROCESS_KERNEL_STACK_SIZE, me_flags = PTE_WRITABLE\<rparr> st1) (\<lambda>st2.
     Ret (vm\<lparr>is_user := True\<rparr>, st2))))"

definition clone_current_vm_as_user ::
  "VirtualMemoryMapper \<Rightarrow> PhysicalPageAllocator \<Rightarrow> (VirtualMemoryMapper \<times> PhysicalPageAllocator) exec" where
  "clone_current_vm_as_user current st =
     bind_exec (clone_kernel_mem current st) (\<lambda>(new_vm, st'). Ret (new_vm\<lparr>is_user := True\<rparr>, st'))"

text \<open>The current mapper, from the value of cr3 and the address of the kernel's table.\<close>

definition get_current_vm :: "usize \<Rightarrow> u64 \<Rightarrow> VirtualMemoryMapper" where
  "get_current_vm kernel_vm_addr cr3 =
     \<lparr>page_map_l4 = from_entry cr3, is_user = (cr3 \<noteq> of_nat kernel_vm_addr)\<rparr>"

definition is_used_by_me :: "VirtualMemoryMapper \<Rightarrow> u64 \<Rightarrow> bool" where
  "is_used_by_me vm cr3 \<longleftrightarrow> cr3 = of_nat (page_map_l4 vm)"

text \<open>The kernel's own map; the two addresses come from the linker script.\<close>

definition new_kernel_vm ::
  "usize \<Rightarrow> usize \<Rightarrow> PhysicalPageAllocator \<Rightarrow> (VirtualMemoryMapper \<times> PhysicalPageAllocator) exec" where
  "new_kernel_vm kernel_elf_rodata_end stack_guard_page_ptr st =
     bind_exec (align_up kernel_elf_rodata_end PAGE_4K) (\<lambda>data_start.
     bind_exec (virtual2physical KERNEL_LINK) (\<lambda>link_phys.
     bind_exec (virtual2physical data_start) (\<lambda>data_phys.
     bind_exec (usize_sub data_phys link_phys) (\<lambda>ro_size.
     bind_exec (usize_sub KERNEL_MAPPED_SIZE data_phys) (\<lambda>rw_size.
     bind_exec (vm_new st) (\<lambda>(vm, st0).
     bind_exec (vm_map vm \<lparr>virtual_address = KERNEL_BASE, physical_address = Some 0,
                  me_size = EXTENDED_OFFSET, me_flags = PTE_WRITABLE\<rparr> st0) (\<lambda>st1.
     bind_exec (vm_map vm \<lparr>virtual_address = KERNEL_LINK, physical_address = Some link_phys,
                  me_size = ro_size, me_flags = 0\<rparr> st1) (\<lambda>st2.
     bind_exec (vm_map vm \<lparr>virtual_address = data_start, physical_address = Some data_phys,
                  me_size = rw_size, me_flags = PTE_WRITABLE\<rparr> st2) (\<lambda>st3.
     bind_exec (vm_unmap vm \<lparr>virtual_address = stack_guard_page_ptr, physical_address = None,
                  me_size = PAGE_4K, me_flags = 0\<rparr> False st3) (\<lambda>st4.
     Ret (vm, st4)))))))))))"

section \<open>Walking all entries of a range\<close>

text \<open>
  The iterator chains of \<open>do_for_ranges_entries\<close> as loops: \<open>for_present\<close> runs a body on the
  present entries of a table, in order, reading each entry when it is reached.
\<close>

fun for_present ::
  "PhysicalPageAllocator \<Rightarrow> usize \<Rightarrow> usize list
     \<Rightarrow> (PhysicalPageAllocator \<Rightarrow> usize \<Rightarrow> usize \<Rightarrow> u64 \<Rightarrow> PhysicalPageAllocator exec)
     \<Rightarrow> PhysicalPageAllocator exec" where
  "for_present st table [] body = Ret st"
| "for_present st table (i # is) body =
     bind_exec (read_entry st table i) (\<lambda>e.
     bind_exec (if present e then body st table i e else Ret st) (\<lambda>st'.
     for_present st' table is body))"

definition handle_2mb_pages ::
  "(PhysicalPageAllocator \<Rightarrow> usize \<Rightarrow> usize \<Rightarrow> u64 \<Rightarrow> PhysicalPageAllocator exec)
     \<Rightarrow> PhysicalPageAllocator \<Rightarrow> usize \<Rightarrow> usize \<Rightarrow> u64 \<Rightarrow> PhysicalPageAllocator exec" where
  "handle_2mb_pages f st table i e =
     (if e AND PTE_HUGE_PAGE \<noteq> 0 then f st table i e
      else for_present st (from_entry e) [0..<512] f)"

definition visit_l3_entry ::
  "(PhysicalPageAllocator \<Rightarrow> usize \<Rightarrow> usize \<Rightarrow> u64 \<Rightarrow> PhysicalPageAllocator exec)
     \<Rightarrow> PhysicalPageAllocator \<Rightarrow> usize \<Rightarrow> usize \<Rightarrow> u64 \<Rightarrow> PhysicalPageAllocator exec" where
  "visit_l3_entry f st table i e = for_present st (from_entry e) [0..<512] (handle_2mb_pages f)"

text \<open>
  The outer part of the chain: the entries of the level 4 table, each flattened to the 512
  entries of the table it names, of which \<open>skip\<close> are dropped and then \<open>n\<close> are taken, over the
  whole flattened sequence.  The level 4 entries are not filtered by their present bit.
\<close>

fun l3_window ::
  "PhysicalPageAllocator \<Rightarrow> usize \<Rightarrow> usize list \<Rightarrow> nat \<Rightarrow> nat
     \<Rightarrow> (PhysicalPageAllocator \<Rightarrow> usize \<Rightarrow> usize \<Rightarrow> u64 \<Rightarrow> PhysicalPageAllocator exec)
     \<Rightarrow> PhysicalPageAllocator exec" where
  "l3_window st l4 [] skip n f = Ret st"
| "l3_window st l4 (i # is) skip n f =
     (if n = 0 then Ret st
      else bind_exec (read_entry st l4 i) (\<lambda>e.
           let js = take n (drop skip [0..<512]) in
           bind_exec (for_present st (from_entry e) js (visit_l3_entry f)) (\<lambda>st'.
           l3_window st' l4 is (skip - 512) (n - length js) f)))"

text \<open>The ranges are inclusive, as after the conversion of the bounds in the code.\<close>

definition do_for_ranges_entries ::
  "VirtualMemoryMapper \<Rightarrow> usize \<Rightarrow> usize \<Rightarrow> usize \<Rightarrow> usize
     \<Rightarrow> (PhysicalPageAllocator \<Rightarrow> usize \<Rightarrow> usize \<Rightarrow> u64 \<Rightarrow> PhysicalPageAllocator exec)
     \<Rightarrow> PhysicalPageAllocator \<Rightarrow> PhysicalPageAllocator exec" where
  "do_for_ranges_entries vm l4_start l4_end l3_start l3_end f st =
     bind_exec (usize_sub l4_end l4_start) (\<lambda>d4.
     bind_exec (usize_sub l3_end l3_start) (\<lambda>d3.
     l3_window st (page_map_l4 vm) (take (d4 + 1) (drop l4_start [0..<512])) l3_start (d3 + 1) f))"

definition do_for_every_user_entry ::
  "VirtualMemoryMapper
     \<Rightarrow> (PhysicalPageAllocator \<Rightarrow> usize \<Rightarrow> usize \<Rightarrow> u64 \<Rightarrow> PhysicalPageAllocator exec)
     \<Rightarrow> PhysicalPageAllocator \<Rightarrow> PhysicalPageAllocator exec" where
  "do_for_every_user_entry vm f st =
     do_for_ranges_entries vm 0 (NUM_USER_L4_INDEXES - 1) 0 0x1FF f st"

definition do_for_kernel_process_entry ::
  "VirtualMemoryMapper
     \<Rightarrow> (PhysicalPageAllocator \<Rightarrow> usize \<Rightarrow> usize \<Rightarrow> u64 \<Rightarrow> PhysicalPageAllocator exec)
     \<Rightarrow> PhysicalPageAllocator \<Rightarrow> PhysicalPageAllocator exec" where
  "do_for_kernel_process_entry vm f st =
     do_for_ranges_entries vm KERNEL_L4_INDEX KERNEL_L4_INDEX
       KERNEL_L3_PROCESS_INDEX_START KERNEL_L3_PROCESS_INDEX_END f st"

definition free_page_entry ::
  "PhysicalPageAllocator \<Rightarrow> usize \<Rightarrow> usize \<Rightarrow> u64 \<Rightarrow> PhysicalPageAllocator exec" where
  "free_page_entry st table i e =
     assert_exec (e AND PTE_HUGE_PAGE = 0)
    (bind_exec (free_table st (from_entry e)) (\<lambda>st1. write_entry st1 table i 0))"

definition unmap_process_memory ::
  "VirtualMemoryMapper \<Rightarrow> PhysicalPageAllocator \<Rightarrow> PhysicalPageAllocator exec" where
  "unmap_process_memory vm st =
     bind_exec (do_for_every_user_entry vm free_page_entry st) (\<lambda>st'.
     do_for_kernel_process_entry vm free_page_entry st')"

end
