(* ===== verification/Virtual_Space.thy ===== *)
theory Virtual_Space
  imports Page_Tables
begin

text \<open>
  Model of kernel/src/memory_management/virtual_space.rs: the allocator of kernel virtual
  addresses for memory that is known by its physical address.  The linked list of entries is a
  list; the cursor of \<open>deallocate\<close> is the split of the list at the current entry.
\<close>

section \<open>The allocator\<close>

datatype VirtualSpaceError = OutOfSpace | AlreadyMapped | NotFullRange | EntryNotFound

record VirtualSpaceEntry =
  vs_physical_start :: "usize option"
  vs_virtual_start :: usize
  vs_size :: usize

definition virtual_for_physical :: "VirtualSpaceEntry \<Rightarrow> usize \<Rightarrow> usize option exec" where
  "virtual_for_physical e physical_start =
     (case vs_physical_start e of
        None \<Rightarrow> Ret None
      | Some current_phy_start \<Rightarrow>
          if current_phy_start \<le> physical_start
          then bind_exec (usize_add current_phy_start (vs_size e)) (\<lambda>phy_end.
               if phy_end > physical_start
               then bind_exec (usize_add (vs_virtual_start e) (physical_start - current_phy_start)) (\<lambda>v.
                    Ret (Some v))
               else Ret None)
          else Ret None)"

fun find_containing ::
  "VirtualSpaceEntry list \<Rightarrow> usize \<Rightarrow> usize \<Rightarrow> (VirtualSpaceEntry \<times> bool) option exec" where
  "find_containing [] req_phy_start req_size = Ret None"
| "find_containing (e # es) req_phy_start req_size =
     (case vs_physical_start e of
        None \<Rightarrow> find_containing es req_phy_start req_size
      | Some current_phy_start \<Rightarrow>
          if current_phy_start \<le> req_phy_start
          then bind_exec (usize_add current_phy_start (vs_size e)) (\<lambda>phy_end.
               if phy_end > req_phy_start
               then bind_exec (usize_add req_phy_start req_size) (\<lambda>req_end.
                    Ret (Some (e, phy_end \<ge> req_end)))
               else find_containing es req_phy_start req_size)
          else find_containing es req_phy_start req_size)"

definition assert_request :: "usize \<Rightarrow> usize \<Rightarrow> 'a exec \<Rightarrow> 'a exec" where
  "assert_request start sz k =
     assert_exec (sz > 0)
    (bind_exec (is_aligned start PAGE_4K) (\<lambda>a.
     assert_exec a
    (bind_exec (is_aligned sz PAGE_4K) (\<lambda>b.
     assert_exec b k))))"

definition get_entry_containing ::
  "VirtualSpaceEntry list \<Rightarrow> usize \<Rightarrow> usize \<Rightarrow> (VirtualSpaceEntry \<times> bool) option exec" where
  "get_entry_containing es req_phy_start req_size =
     assert_request req_phy_start req_size (find_containing es req_phy_start req_size)"

text \<open>The search of \<open>allocate\<close> for the first free entry that is large enough.\<close>

fun take_first_fit ::
  "VirtualSpaceEntry list \<Rightarrow> usize \<Rightarrow> usize \<Rightarrow> (usize \<times> VirtualSpaceEntry list) option exec" where
  "take_first_fit [] phy_start sz = Ret None"
| "take_first_fit (e # es) phy_start sz =
     (if vs_physical_start e = None \<and> vs_size e \<ge> sz
      then bind_exec (usize_add (vs_virtual_start e) sz) (\<lambda>rest_start.
           Ret (Some (vs_virtual_start e,
             e\<lparr>vs_size := sz, vs_physical_start := Some phy_start\<rparr>
             # \<lparr>vs_physical_start = None, vs_virtual_start = rest_start, vs_size = vs_size e - sz\<rparr>
             # es)))
      else bind_exec (take_first_fit es phy_start sz) (\<lambda>r.
           Ret (case r of None \<Rightarrow> None | Some (v, es') \<Rightarrow> Some (v, e # es'))))"

definition initial_entry :: VirtualSpaceEntry where
  "initial_entry = \<lparr>vs_physical_start = None, vs_virtual_start = KERNEL_EXTRA_MEMORY_BASE,
     vs_size = KERNEL_EXTRA_MEMORY_SIZE\<rparr>"

function vs_allocate ::
  "VirtualSpaceEntry list \<Rightarrow> usize \<Rightarrow> usize
     \<Rightarrow> ((VirtualSpaceError + usize) \<times> VirtualSpaceEntry list) exec" where
  "vs_allocate es phy_start sz =
     assert_request phy_start sz
    (bind_exec (get_entry_containing es phy_start sz) (\<lambda>found.
     if found \<noteq> None then Ret (Inl AlreadyMapped, es)
     else bind_exec (take_first_fit es phy_start sz) (\<lambda>r.
       case r of
         Some (v, es') \<Rightarrow> Ret (Inr v, es')
       | None \<Rightarrow>
           if es = []
           then bind_exec (is_aligned KERNEL_EXTRA_MEMORY_SIZE PAGE_4K) (\<lambda>al.
                assert_exec al (vs_allocate [initial_entry] phy_start sz))
           else Ret (Inl OutOfSpace, es))))"
  by pat_completeness auto
termination
  by (relation "measure (\<lambda>(es, _). if es = [] then 1 else 0)") auto

declare vs_allocate.simps [simp del]

text \<open>
  \<open>deallocate\<close>: the entries before the cursor, last one first, and the entries from the cursor
  on.  When the entry is found it is taken out, its successor and its predecessor are looked at,
  and it is put back after the predecessor.
\<close>

definition merge_and_insert ::
  "VirtualSpaceEntry list \<Rightarrow> VirtualSpaceEntry \<Rightarrow> VirtualSpaceEntry list \<Rightarrow> VirtualSpaceEntry list exec" where
  "merge_and_insert before current after =
     bind_exec (case after of
         next_entry # rest \<Rightarrow>
           if vs_physical_start next_entry = None
           then bind_exec (usize_add (vs_size current) (vs_size next_entry)) (\<lambda>n.
                Ret (current\<lparr>vs_size := n\<rparr>, rest))
           else Ret (current, after)
       | [] \<Rightarrow> Ret (current, after)) (\<lambda>(current', after').
     bind_exec (case before of
         prev_entry # rest \<Rightarrow>
           if vs_physical_start prev_entry = None
           then bind_exec (usize_add (vs_size prev_entry) (vs_size current')) (\<lambda>n.
                Ret (prev_entry\<lparr>vs_size := n\<rparr> # rest))
           else Ret before
       | [] \<Rightarrow> Ret before) (\<lambda>before'.
     Ret (rev before' @ current' # after')))"

fun dealloc_walk ::
  "VirtualSpaceEntry list \<Rightarrow> VirtualSpaceEntry list \<Rightarrow> usize \<Rightarrow> usize
     \<Rightarrow> ((VirtualSpaceError + unit) \<times> VirtualSpaceEntry list) exec" where
  "dealloc_walk before [] req_virtual_start req_size = Ret (Inl EntryNotFound, rev before)"
| "dealloc_walk before (e # es) req_virtual_start req_size =
     bind_exec (if vs_virtual_start e \<le> req_virtual_start
                then bind_exec (usize_add (vs_virtual_start e) (vs_size e)) (\<lambda>entry_end.
                     Ret (entry_end > req_virtual_start))
                else Ret False) (\<lambda>inside.
     if inside
     then if req_virtual_start \<noteq> vs_virtual_start e \<or> req_size \<noteq> vs_size e
          then Ret (Inl NotFullRange, rev before @ e # es)
          else assert_exec (vs_physical_start e \<noteq> None)
            (bind_exec (merge_and_insert before (e\<lparr>vs_physical_start := None\<rparr>) es) (\<lambda>es'.
             Ret (Inr (), es')))
     else dealloc_walk (e # before) es req_virtual_start req_size)"

definition vs_deallocate ::
  "VirtualSpaceEntry list \<Rightarrow> usize \<Rightarrow> usize \<Rightarrow> ((VirtualSpaceError + unit) \<times> VirtualSpaceEntry list) exec" where
  "vs_deallocate es req_virtual_start req_size =
     assert_request req_virtual_start req_size (dealloc_walk [] es req_virtual_start req_size)"

section \<open>Mapping what is allocated\<close>

definition allocate_and_map_virtual_space ::
  "VirtualMemoryMapper \<Rightarrow> usize \<Rightarrow> usize \<Rightarrow> VirtualSpaceEntry list \<Rightarrow> PhysicalPageAllocator
     \<Rightarrow> ((VirtualSpaceError + usize) \<times> VirtualSpaceEntry list \<times> PhysicalPageAllocator) exec" where
  "allocate_and_map_virtual_space kvm physical_start sz es st =
     bind_exec (align_range physical_start sz PAGE_4K) (\<lambda>(aligned_start, asize, offset).
     bind_exec (vs_allocate es aligned_start asize) (\<lambda>(r, es').
     case r of
       Inl err \<Rightarrow> Ret (Inl err, es', st)
     | Inr virtual_addr \<Rightarrow>
         bind_exec (map_kernel kvm \<lparr>virtual_address = virtual_addr, physical_address = Some aligned_start,
                      me_size = asize, me_flags = PTE_WRITABLE\<rparr> st) (\<lambda>st'.
         bind_exec (usize_add virtual_addr offset) (\<lambda>v. Ret (Inr v, es', st')))))"

definition deallocate_virtual_space ::
  "VirtualMemoryMapper \<Rightarrow> usize \<Rightarrow> usize \<Rightarrow> VirtualSpaceEntry list \<Rightarrow> PhysicalPageAllocator
     \<Rightarrow> ((VirtualSpaceError + unit) \<times> VirtualSpaceEntry list \<times> PhysicalPageAllocator) exec" where
  "deallocate_virtual_space kvm virtual_start sz es st =
     bind_exec (align_range virtual_start sz PAGE_4K) (\<lambda>(aligned_start, asize, _).
     bind_exec (vs_deallocate es aligned_start asize) (\<lambda>(r, es').
     case r of
       Inl err \<Rightarrow> Ret (Inl err, es', st)
     | Inr _ \<Rightarrow>
         bind_exec (unmap_kernel kvm \<lparr>virtual_address = aligned_start, physical_address = None,
                      me_size = asize, me_flags = PTE_WRITABLE\<rparr> False st) (\<lambda>st'.
         Ret (Inr (), es', st'))))"

section \<open>The partition of the region\<close>

text \<open>\<open>tiles lo es hi\<close>: the entries cover the addresses from \<open>lo\<close> to \<open>hi\<close>, side by side.\<close>

fun tiles :: "usize \<Rightarrow> VirtualSpaceEntry list \<Rightarrow> usize \<Rightarrow> bool" where
  "tiles lo [] hi = (lo = hi)"
| "tiles lo (e # es) hi = (vs_virtual_start e = lo \<and> PAGE_4K dvd vs_size e \<and> tiles (lo + vs_size e) es hi)"

definition vs_inv :: "VirtualSpaceEntry list \<Rightarrow> bool" where
  "vs_inv es \<longleftrightarrow> es = [] \<or> tiles KERNEL_EXTRA_MEMORY_BASE es KERNEL_LAST_POSSIBLE_ADDR"

definition entry_range :: "VirtualSpaceEntry \<Rightarrow> usize set" where
  "entry_range e = {vs_virtual_start e ..< vs_virtual_start e + vs_size e}"

definition live :: "VirtualSpaceEntry list \<Rightarrow> VirtualSpaceEntry set" where
  "live es = {e \<in> set es. vs_physical_start e \<noteq> None}"

definition claim :: "usize \<Rightarrow> usize \<Rightarrow> usize \<Rightarrow> VirtualSpaceEntry" where
  "claim p v sz = \<lparr>vs_physical_start = Some p, vs_virtual_start = v, vs_size = sz\<rparr>"

section \<open>Lemmas\<close>

lemmas vs_run_simps = assert_request_def get_entry_containing_def initial_entry_def
  is_aligned_def assert_exec_def usize_add_def usize_sub_def usize_bound_def
  kernel_layout_defs PAGE_4K_def claim_def

lemma assert_request_Ret [exec_simps]:
  "assert_request start sz k = Ret r \<longleftrightarrow> 0 < sz \<and> PAGE_4K dvd start \<and> PAGE_4K dvd sz \<and> k = Ret r"
  by (auto simp: assert_request_def exec_simps)

lemma tiles_le: "tiles lo es hi \<Longrightarrow> lo \<le> hi"
  by (induction es arbitrary: lo) fastforce+

lemma tiles_append:
  "tiles lo (xs @ ys) hi \<longleftrightarrow> (\<exists>mid. tiles lo xs mid \<and> tiles mid ys hi)"
  by (induction xs arbitrary: lo) auto

lemma tiles_range: "tiles lo es hi \<Longrightarrow> e \<in> set es \<Longrightarrow> entry_range e \<subseteq> {lo..<hi}"
proof (induction es arbitrary: lo)
  case (Cons x xs)
  then show ?case using tiles_le[of "lo + vs_size x" xs hi]
    by (cases "e = x") (fastforce simp: entry_range_def)+
qed simp

text \<open>Distinct positions of the list have disjoint ranges.\<close>

lemma tiles_disjoint:
  assumes "tiles lo (xs @ e # ys) hi" "x \<in> set xs \<union> set ys"
  shows "entry_range e \<inter> entry_range x = {}"
proof -
  obtain mid where m: "tiles lo xs mid" "tiles mid (e # ys) hi" using assms(1) tiles_append by blast
  have e: "entry_range e = {mid..<mid + vs_size e}" using m(2) by (simp add: entry_range_def)
  show ?thesis
  proof (cases "x \<in> set xs")
    case True
    then show ?thesis using tiles_range[OF m(1)] e by fastforce
  next
    case False
    then have "x \<in> set ys" using assms(2) by simp
    then show ?thesis using tiles_range[of "mid + vs_size e" ys hi x] m(2) e by fastforce
  qed
qed

text \<open>The search for an entry over a physical address, and the search for room.\<close>

definition covers_physical :: "VirtualSpaceEntry \<Rightarrow> usize \<Rightarrow> bool" where
  "covers_physical e p \<longleftrightarrow> (case vs_physical_start e of None \<Rightarrow> False | Some q \<Rightarrow> q \<le> p \<and> p < q + vs_size e)"

definition physical_ok :: "VirtualSpaceEntry list \<Rightarrow> bool" where
  "physical_ok es \<longleftrightarrow>
     (\<forall>e \<in> set es. case vs_physical_start e of None \<Rightarrow> True | Some q \<Rightarrow> q + vs_size e < usize_bound)"

lemma physical_ok_Cons [simp]:
  "physical_ok (e # es) \<longleftrightarrow>
     (case vs_physical_start e of None \<Rightarrow> True | Some q \<Rightarrow> q + vs_size e < usize_bound) \<and> physical_ok es"
  by (simp add: physical_ok_def)

lemma find_containing_total:
  assumes "physical_ok es" "p + sz < usize_bound"
  shows "\<exists>r. find_containing es p sz = Ret r \<and> (r = None \<longleftrightarrow> (\<forall>e \<in> set es. \<not> covers_physical e p))"
  using assms
  by (induction es) (auto simp: covers_physical_def exec_simps usize_add_def split: option.splits)

lemma take_first_fit_None:
  "take_first_fit es p sz = Ret None \<Longrightarrow> e \<in> set es \<Longrightarrow> vs_physical_start e = None \<Longrightarrow> vs_size e < sz"
  by (induction es) (auto simp: exec_simps split: if_splits option.splits prod.splits)

lemma take_first_fit_total:
  assumes "tiles lo es hi" "hi < usize_bound"
  shows "\<exists>r. take_first_fit es p sz = Ret r"
  using assms
proof (induction es arbitrary: lo)
  case (Cons e es)
  then have "lo + vs_size e \<le> hi" using tiles_le[of "lo + vs_size e" es hi] by simp
  with Cons show ?case
    by (auto simp: exec_simps usize_add_def split: option.splits)
qed simp

lemma take_first_fit_Some:
  assumes "take_first_fit es p sz = Ret (Some (v, es'))"
  shows "\<exists>xs e ys. es = xs @ e # ys \<and> vs_physical_start e = None \<and> sz \<le> vs_size e \<and> v = vs_virtual_start e
     \<and> es' = xs @ e\<lparr>vs_size := sz, vs_physical_start := Some p\<rparr>
             # \<lparr>vs_physical_start = None, vs_virtual_start = vs_virtual_start e + sz,
                vs_size = vs_size e - sz\<rparr> # ys"
  using assms
proof (induction es arbitrary: v es')
  case (Cons e es)
  show ?case
  proof (cases "vs_physical_start e = None \<and> vs_size e \<ge> sz")
    case True
    with Cons.prems have "\<exists>ys. e # es = [] @ e # ys \<and> v = vs_virtual_start e
      \<and> es' = [] @ e\<lparr>vs_size := sz, vs_physical_start := Some p\<rparr>
             # \<lparr>vs_physical_start = None, vs_virtual_start = vs_virtual_start e + sz,
                vs_size = vs_size e - sz\<rparr> # ys"
      by (auto simp: exec_simps)
    with True show ?thesis by blast
  next
    case False
    then obtain es1 where 1: "take_first_fit es p sz = Ret (Some (v, es1))" "es' = e # es1"
      using Cons.prems by (auto simp: exec_simps split: if_splits option.splits)
    from Cons.IH[OF 1(1)] obtain xs f ys where
      "es = xs @ f # ys \<and> vs_physical_start f = None \<and> sz \<le> vs_size f \<and> v = vs_virtual_start f
       \<and> es1 = xs @ f\<lparr>vs_size := sz, vs_physical_start := Some p\<rparr>
             # \<lparr>vs_physical_start = None, vs_virtual_start = vs_virtual_start f + sz,
                vs_size = vs_size f - sz\<rparr> # ys" by blast
    then have "e # es = (e # xs) @ f # ys \<and> vs_physical_start f = None \<and> sz \<le> vs_size f
       \<and> v = vs_virtual_start f
       \<and> es' = (e # xs) @ f\<lparr>vs_size := sz, vs_physical_start := Some p\<rparr>
             # \<lparr>vs_physical_start = None, vs_virtual_start = vs_virtual_start f + sz,
                vs_size = vs_size f - sz\<rparr> # ys" using 1(2) by simp
    then show ?thesis by blast
  qed
qed simp

lemma vs_inv_bound: "KERNEL_LAST_POSSIBLE_ADDR < usize_bound" "PAGE_4K dvd KERNEL_EXTRA_MEMORY_BASE"
  by (simp_all add: usize_bound_def kernel_layout_defs)

lemma vs_inv_initial: "vs_inv [initial_entry]"
  by (simp add: vs_inv_def initial_entry_def kernel_layout_defs)

text \<open>The entries after a successful search: the chosen free entry is split in two.\<close>

lemma split_entry_tiles:
  assumes "tiles lo (xs @ e # ys) hi" "sz \<le> vs_size e" "PAGE_4K dvd sz"
  shows "tiles lo (xs @ e\<lparr>vs_size := sz, vs_physical_start := Some p\<rparr>
             # \<lparr>vs_physical_start = None, vs_virtual_start = vs_virtual_start e + sz,
                vs_size = vs_size e - sz\<rparr> # ys) hi"
  using assms by (auto simp: tiles_append dvd_diff_nat)

lemma tiles_aligned: "tiles lo es hi \<Longrightarrow> PAGE_4K dvd lo \<Longrightarrow> e \<in> set es \<Longrightarrow> PAGE_4K dvd vs_virtual_start e"
  by (induction es arbitrary: lo) auto

lemma live_append [simp]: "live (xs @ ys) = live xs \<union> live ys"
  by (auto simp: live_def)

lemma live_Cons [simp]:
  "live (e # es) = (if vs_physical_start e = None then live es else insert e (live es))"
  by (auto simp: live_def)

lemma live_Nil [simp]: "live [] = {}"
  by (simp add: live_def)

lemma take_first_fit_spec:
  assumes "take_first_fit es p sz = Ret (Some (v, es'))"
    and t: "tiles KERNEL_EXTRA_MEMORY_BASE es KERNEL_LAST_POSSIBLE_ADDR" and d: "PAGE_4K dvd sz"
  shows "vs_inv es' \<and> live es' = insert (claim p v sz) (live es) \<and> PAGE_4K dvd v
    \<and> {v..<v + sz} \<subseteq> {KERNEL_EXTRA_MEMORY_BASE..<KERNEL_LAST_POSSIBLE_ADDR}
    \<and> (\<forall>e \<in> live es. entry_range e \<inter> {v..<v + sz} = {})"
proof -
  obtain xs e ys where 1: "es = xs @ e # ys" "vs_physical_start e = None" "sz \<le> vs_size e"
      "v = vs_virtual_start e"
    and es': "es' = xs @ e\<lparr>vs_size := sz, vs_physical_start := Some p\<rparr>
             # \<lparr>vs_physical_start = None, vs_virtual_start = vs_virtual_start e + sz,
                vs_size = vs_size e - sz\<rparr> # ys"
    using take_first_fit_Some[OF assms(1)] by blast
  have inv: "vs_inv es'"
    unfolding vs_inv_def es' using split_entry_tiles[OF t[unfolded 1(1)] 1(3) d] by blast
  have e: "e\<lparr>vs_size := sz, vs_physical_start := Some p\<rparr> = claim p v sz"
    by (simp add: claim_def 1(4))
  have sub: "{v..<v + sz} \<subseteq> entry_range e" using 1(3,4) by (auto simp: entry_range_def)
  have "entry_range e \<inter> entry_range x = {}" if "x \<in> live es" for x
    using tiles_disjoint[OF t[unfolded 1(1)]] that 1(1,2) by (auto simp: live_def)
  moreover have "live es' = insert (claim p v sz) (live es)"
    by (simp add: es' e 1(1,2) claim_def)
  moreover have "PAGE_4K dvd v" using tiles_aligned[OF t vs_inv_bound(2)] 1(1,4) by simp
  moreover have "entry_range e \<subseteq> {KERNEL_EXTRA_MEMORY_BASE..<KERNEL_LAST_POSSIBLE_ADDR}"
    using tiles_range[OF t, of e] 1(1) by simp
  ultimately show ?thesis using inv sub by (intro conjI ballI) blast+
qed

lemma vs_allocate_nonempty:
  assumes "es \<noteq> []"
  shows "vs_allocate es p sz = Ret (Inr v, es') \<longleftrightarrow>
    0 < sz \<and> PAGE_4K dvd p \<and> PAGE_4K dvd sz \<and> find_containing es p sz = Ret None
    \<and> take_first_fit es p sz = Ret (Some (v, es'))"
  using assms
  by (auto simp: vs_allocate.simps[of es] get_entry_containing_def exec_simps split: if_splits option.splits prod.splits)

lemma vs_allocate_empty:
  "vs_allocate [] p sz = Ret r \<Longrightarrow> vs_allocate [initial_entry] p sz = Ret r"
  by (subst (asm) vs_allocate.simps) (simp add: get_entry_containing_def exec_simps)

text \<open>
  C22.  A successful allocation answers a page-aligned range that lies in the kernel's extra
  region and meets no range that is live, records exactly that range, and keeps the entries a
  partition of the region.
\<close>
theorem vs_allocate_disjoint:
  assumes "vs_inv es" "vs_allocate es p sz = Ret (Inr v, es')"
  shows "vs_inv es' \<and> live es' = insert (claim p v sz) (live es) \<and> PAGE_4K dvd v
    \<and> {v..<v + sz} \<subseteq> {KERNEL_EXTRA_MEMORY_BASE..<KERNEL_LAST_POSSIBLE_ADDR}
    \<and> (\<forall>e \<in> live es. entry_range e \<inter> {v..<v + sz} = {})"
proof (cases "es = []")
  case True
  have "vs_allocate [initial_entry] p sz = Ret (Inr v, es')" using vs_allocate_empty assms(2) True by simp
  then have r: "take_first_fit [initial_entry] p sz = Ret (Some (v, es'))" "PAGE_4K dvd sz"
    by (simp_all only: vs_allocate_nonempty list.simps not_False_eq_True)
  have t: "tiles KERNEL_EXTRA_MEMORY_BASE [initial_entry] KERNEL_LAST_POSSIBLE_ADDR"
    using vs_inv_initial by (simp only: vs_inv_def) simp
  have "live [initial_entry] = {}" by (simp add: initial_entry_def)
  with take_first_fit_spec[OF r(1) t r(2)] show ?thesis using True by simp
next
  case False
  then have "take_first_fit es p sz = Ret (Some (v, es'))" "PAGE_4K dvd sz"
    and "tiles KERNEL_EXTRA_MEMORY_BASE es KERNEL_LAST_POSSIBLE_ADDR"
    using assms by (simp_all add: vs_allocate_nonempty vs_inv_def)
  then show ?thesis using take_first_fit_spec by blast
qed

theorem vs_allocate_disjoint_witness:
  "vs_inv [] \<and> vs_allocate [] 0xFEC00000 0x1000 = Ret (Inr KERNEL_EXTRA_MEMORY_BASE,
     [claim 0xFEC00000 KERNEL_EXTRA_MEMORY_BASE 0x1000,
      \<lparr>vs_physical_start = None, vs_virtual_start = KERNEL_EXTRA_MEMORY_BASE + 0x1000,
       vs_size = KERNEL_EXTRA_MEMORY_SIZE - 0x1000\<rparr>])
   \<and> live [claim 0xFEC00000 KERNEL_EXTRA_MEMORY_BASE 0x1000,
      \<lparr>vs_physical_start = None, vs_virtual_start = KERNEL_EXTRA_MEMORY_BASE + 0x1000,
       vs_size = KERNEL_EXTRA_MEMORY_SIZE - 0x1000\<rparr>]
     = {claim 0xFEC00000 KERNEL_EXTRA_MEMORY_BASE 0x1000}"
proof -
  have i: "vs_inv []" by (simp add: vs_inv_def)
  have a: "vs_allocate [] 0xFEC00000 0x1000 = Ret (Inr KERNEL_EXTRA_MEMORY_BASE,
     [claim 0xFEC00000 KERNEL_EXTRA_MEMORY_BASE 0x1000,
      \<lparr>vs_physical_start = None, vs_virtual_start = KERNEL_EXTRA_MEMORY_BASE + 0x1000,
       vs_size = KERNEL_EXTRA_MEMORY_SIZE - 0x1000\<rparr>])"
    by (simp add: vs_allocate.simps vs_run_simps)
  show ?thesis using i a vs_allocate_disjoint[OF i a] by simp
qed

text \<open>Giving a range back, where the entry before it is in use.\<close>

definition used_before :: "VirtualSpaceEntry list \<Rightarrow> bool" where
  "used_before before \<longleftrightarrow> (before = [] \<or> vs_physical_start (hd before) \<noteq> None)"

lemma merge_and_insert_spec:
  assumes "tiles lo (rev before @ current # after) hi" "hi < usize_bound"
    and "vs_physical_start current = None" "used_before before"
  shows "\<exists>es'. merge_and_insert before current after = Ret es' \<and> tiles lo es' hi
    \<and> live es' = live (rev before) \<union> live after"
proof -
  obtain mid where m: "tiles lo (rev before) mid" "tiles mid (current # after) hi"
    using assms(1) tiles_append by blast
  have prev: "(case before of
         prev_entry # rest \<Rightarrow>
           if vs_physical_start prev_entry = None
           then bind_exec (usize_add (vs_size prev_entry) n) (\<lambda>n. Ret (prev_entry\<lparr>vs_size := n\<rparr> # rest))
           else Ret before
       | [] \<Rightarrow> Ret before) = Ret before" for n
    using assms(4) by (auto simp: used_before_def split: list.splits)
  show ?thesis
  proof (cases "after \<noteq> [] \<and> vs_physical_start (hd after) = None")
    case False
    then have "merge_and_insert before current after = Ret (rev before @ current # after)"
      by (cases after) (auto simp: merge_and_insert_def prev)
    then show ?thesis using assms by auto
  next
    case True
    then obtain n rest where a: "after = n # rest" "vs_physical_start n = None" by (cases after) auto
    have "mid + (vs_size current + vs_size n) \<le> hi"
      using m(2) a tiles_le[of "mid + vs_size current + vs_size n" rest hi] by (simp add: add.assoc)
    then have "merge_and_insert before current after
       = Ret (rev before @ current\<lparr>vs_size := vs_size current + vs_size n\<rparr> # rest)"
      using assms(2) by (simp add: merge_and_insert_def a prev usize_add_def)
    moreover have "tiles lo (rev before @ current\<lparr>vs_size := vs_size current + vs_size n\<rparr> # rest) hi"
      using m a by (auto simp: tiles_append add.assoc)
    ultimately show ?thesis using a assms(3) by auto
  qed
qed

lemma dealloc_walk_spec:
  assumes "tiles lo (rev before @ xs @ e # ys) hi" "hi < usize_bound" "vs_physical_start e \<noteq> None"
    and "0 < vs_size e" "used_before (rev xs @ before)"
  shows "\<exists>es'. dealloc_walk before (xs @ e # ys) (vs_virtual_start e) (vs_size e) = Ret (Inr (), es')
    \<and> tiles lo es' hi \<and> live es' = live (rev before) \<union> live xs \<union> live ys"
  using assms
proof (induction xs arbitrary: before)
  case Nil
  obtain mid where m: "tiles lo (rev before) mid" "tiles mid (e # ys) hi"
    using Nil.prems(1) tiles_append by auto
  then have "vs_virtual_start e + vs_size e < usize_bound"
    using tiles_le[of "mid + vs_size e" ys hi] Nil.prems(2) by simp
  moreover have "tiles lo (rev before @ e\<lparr>vs_physical_start := None\<rparr> # ys) hi"
    using m by (auto simp: tiles_append)
  ultimately show ?case
    using merge_and_insert_spec[of lo before "e\<lparr>vs_physical_start := None\<rparr>" ys hi] Nil.prems
    by (auto simp: usize_add_def assert_exec_def)
next
  case (Cons x xs)
  obtain mid where m: "tiles lo (rev before) mid" "tiles mid (x # xs @ e # ys) hi"
    using Cons.prems(1) tiles_append by auto
  then obtain mid2 where m2: "tiles (mid + vs_size x) xs mid2" "tiles mid2 (e # ys) hi"
    using tiles_append by auto
  have "mid + vs_size x \<le> vs_virtual_start e" using tiles_le[OF m2(1)] m2(2) by simp
  moreover have "vs_virtual_start e < usize_bound"
    using tiles_le[of "mid2 + vs_size e" ys hi] m2(2) Cons.prems(2) by simp
  ultimately have "dealloc_walk before ((x # xs) @ e # ys) (vs_virtual_start e) (vs_size e)
     = dealloc_walk (x # before) (xs @ e # ys) (vs_virtual_start e) (vs_size e)"
    using m(2) by (simp add: usize_add_def)
  then show ?case using Cons.IH[of "x # before"] Cons.prems by (auto split: if_splits)
qed

text \<open>
  C23.  Giving back a live range whose predecessor in the list is in use (or absent) succeeds:
  the entry leaves the live set, nothing else does, and the entries are a partition of the
  region again.
\<close>
theorem vs_deallocate_frees:
  assumes "vs_inv (xs @ e # ys)" "vs_physical_start e \<noteq> None" "0 < vs_size e" "used_before (rev xs)"
  shows "\<exists>es'. vs_deallocate (xs @ e # ys) (vs_virtual_start e) (vs_size e) = Ret (Inr (), es')
    \<and> vs_inv es' \<and> live es' = live xs \<union> live ys"
proof -
  have t: "tiles KERNEL_EXTRA_MEMORY_BASE (rev [] @ xs @ e # ys) KERNEL_LAST_POSSIBLE_ADDR"
    using assms(1) by (simp add: vs_inv_def)
  have "PAGE_4K dvd vs_virtual_start e" "PAGE_4K dvd vs_size e"
    using tiles_aligned[OF t vs_inv_bound(2)] t by (auto simp: tiles_append)
  with dealloc_walk_spec[OF t vs_inv_bound(1) assms(2,3)] assms(3,4) show ?thesis
    by (fastforce simp: vs_deallocate_def exec_simps vs_inv_def)
qed

theorem vs_deallocate_frees_witness:
  "vs_inv ([] @ claim 0xFEC00000 KERNEL_EXTRA_MEMORY_BASE 0x1000 # [\<lparr>vs_physical_start = None,
      vs_virtual_start = KERNEL_EXTRA_MEMORY_BASE + 0x1000, vs_size = KERNEL_EXTRA_MEMORY_SIZE - 0x1000\<rparr>])
   \<and> (\<exists>es'. vs_deallocate ([] @ claim 0xFEC00000 KERNEL_EXTRA_MEMORY_BASE 0x1000 # [\<lparr>vs_physical_start = None,
      vs_virtual_start = KERNEL_EXTRA_MEMORY_BASE + 0x1000, vs_size = KERNEL_EXTRA_MEMORY_SIZE - 0x1000\<rparr>])
      KERNEL_EXTRA_MEMORY_BASE 0x1000 = Ret (Inr (), es') \<and> live es' = {})"
proof -
  let ?e = "claim 0xFEC00000 KERNEL_EXTRA_MEMORY_BASE 0x1000"
  let ?ys = "[\<lparr>vs_physical_start = None, vs_virtual_start = KERNEL_EXTRA_MEMORY_BASE + 0x1000,
      vs_size = KERNEL_EXTRA_MEMORY_SIZE - 0x1000\<rparr>]"
  have i: "vs_inv ([] @ ?e # ?ys)" by (simp add: vs_inv_def claim_def kernel_layout_defs)
  have "vs_physical_start ?e \<noteq> None" "0 < vs_size ?e" "used_before (rev [])"
    "vs_virtual_start ?e = KERNEL_EXTRA_MEMORY_BASE" "vs_size ?e = 0x1000"
    by (simp_all add: claim_def used_before_def)
  with i vs_deallocate_frees[OF i] show ?thesis by auto
qed

definition overlap_run :: "((VirtualSpaceError + usize) \<times> (VirtualSpaceError + usize)) exec" where
  "overlap_run =
     bind_exec (vs_allocate [] 0xFEC00000 0x1000) (\<lambda>(a, es1).
     bind_exec (vs_allocate es1 0xFEE00000 0x1000) (\<lambda>(b, es2).
     bind_exec (vs_allocate es2 0xFED00000 0x1000) (\<lambda>(c, es3).
     bind_exec (vs_deallocate es3 (projr a) 0x1000) (\<lambda>(_, es4).
     bind_exec (vs_deallocate es4 (projr b) 0x1000) (\<lambda>(_, es5).
     bind_exec (vs_allocate es5 0xFD000000 0x2000) (\<lambda>(d, es6).
     bind_exec (vs_allocate es6 0xFE000000 0x1000) (\<lambda>(e, es7).
     Ret (d, e))))))))"


lemma take_first_fit_Some_free:
  "take_first_fit es p sz = Ret (Some (v, es')) \<Longrightarrow> \<exists>e \<in> set es. vs_physical_start e = None \<and> sz \<le> vs_size e"
  using take_first_fit_Some by fastforce



end
