(* ===== verification/Page_Tables_Proofs.thy ===== *)
theory Page_Tables_Proofs
  imports Page_Tables
begin

unbundle bit_operations_syntax

text \<open>
  Correctness of the page tables.  The invariant describes the tables of one address space as a
  tree without sharing: a ghost map from paths (the indices of the levels passed) to the
  physical addresses of the tables.  The abstract state of an address space is its \<open>leaf\<close>
  function, the level 1 entry that translates an address; \<open>map\<close> and \<open>unmap\<close> are shown to update
  it at the pages of the range only.
\<close>

section \<open>Bits of an entry\<close>

lemma present_bit: "present e \<longleftrightarrow> bit e 0"
  by (simp add: present_def PTE_PRESENT_def and_one_eq odd_iff_mod_2_eq_one bit_0)

lemma huge_bit: "e AND PTE_HUGE_PAGE \<noteq> 0 \<longleftrightarrow> bit e 7"
  unfolding PTE_HUGE_PAGE_def using and_exp_eq_0_iff_not_bit[of e 7]
  by (simp add: push_bit_of_1)

lemma ADDR_MASK_push: "ADDR_MASK = push_bit 12 (mask 20)"
  by (simp add: ADDR_MASK_def mask_eq_exp_minus_1)

lemma bit_ADDR_MASK: "bit ADDR_MASK n \<longleftrightarrow> 12 \<le> n \<and> n < 32"
  unfolding ADDR_MASK_push by (auto simp: bit_push_bit_iff bit_mask_iff)

lemma from_entry_or: "fl AND ADDR_MASK = 0 \<Longrightarrow> from_entry (e OR fl) = from_entry e"
  by (simp add: from_entry_def bit.conj_disj_distrib2)

lemma from_entry_and_not:
  assumes "fl AND ADDR_MASK = 0"
  shows "from_entry (e AND NOT fl) = from_entry e"
proof -
  have "(e AND NOT fl) AND ADDR_MASK = e AND ADDR_MASK"
  proof (rule bit_word_eqI)
    fix n
    have "\<not> bit (fl AND ADDR_MASK) n" using assms by simp
    then show "bit ((e AND NOT fl) AND ADDR_MASK) n = bit (e AND ADDR_MASK) n" if "n < LENGTH(64)"
      using that by (auto simp: bit_simps)
  qed
  then show ?thesis by (simp add: from_entry_def)
qed

lemma page_and_mask:
  assumes "p < 2 ^ 32" "PAGE_4K dvd p"
  shows "unat (of_nat p AND ADDR_MASK) = p"
proof -
  have "unat (of_nat p AND ADDR_MASK) = take_bit 64 p AND unat ADDR_MASK"
    by (simp add: unsigned_and_eq unat_of_nat take_bit_eq_mod)
  also have "take_bit 64 p = p" using assms(1) by (simp add: take_bit_nat_eq_self)
  also have "unat ADDR_MASK = push_bit 12 (mask 20)"
    by (simp add: ADDR_MASK_def mask_eq_exp_minus_1 push_bit_eq_mult)
  also have "p AND push_bit 12 (mask 20) = push_bit 12 (take_bit 20 (drop_bit 12 p))"
    by (rule bit_eqI) (auto simp: bit_simps)
  also have "take_bit 20 (drop_bit 12 p) = drop_bit 12 p"
    using assms(1) by (simp add: take_bit_nat_eq_self drop_bit_eq_div less_mult_imp_div_less)
  also have "push_bit 12 (drop_bit 12 p) = p"
    using assms(2) by (simp add: push_bit_eq_mult drop_bit_eq_div PAGE_4K_pow2)
  finally show ?thesis .
qed

lemma from_entry_new:
  assumes "p < KERNEL_MAPPED_SIZE" "PAGE_4K dvd p" "fl AND ADDR_MASK = 0"
  shows "from_entry (((of_nat p AND ADDR_MASK) OR PTE_PRESENT) OR fl) = p"
proof -
  have "PTE_PRESENT AND ADDR_MASK = 0" by (simp add: PTE_PRESENT_def ADDR_MASK_def)
  then have "from_entry (((of_nat p AND ADDR_MASK) OR PTE_PRESENT) OR fl) = unat (of_nat p AND ADDR_MASK)"
    using assms(3) by (simp add: from_entry_or) (simp add: from_entry_def)
  then show ?thesis
    using page_and_mask[of p] assms(1,2) by (simp add: KERNEL_MAPPED_SIZE_def)
qed

lemma index_bounds [simp]: "get_l4 a < 512" "get_l3 a < 512" "get_l2 a < 512" "get_l1 a < 512"
proof -
  have m: "(0x1FF :: nat) = mask 9" by (simp add: mask_eq_exp_minus_1)
  have "x AND 0x1FF < 512" for x :: nat
    unfolding m take_bit_eq_mask[symmetric] using take_bit_nat_less_exp[of 9 x] by simp
  then show "get_l4 a < 512" "get_l3 a < 512" "get_l2 a < 512" "get_l1 a < 512"
    by (simp_all add: get_l4_def get_l3_def get_l2_def get_l1_def)
qed

text \<open>The four indices of an address identify its page among the pages of a 48-bit space.\<close>

definition page_no :: "usize \<Rightarrow> nat" where
  "page_no a = a div PAGE_4K mod 2 ^ 36"

definition walk_path :: "usize \<Rightarrow> nat list" where
  "walk_path a = [get_l4 a, get_l3 a, get_l2 a]"

lemma index_digits:
  "get_l1 a = a div PAGE_4K mod 2 ^ 9" "get_l2 a = a div PAGE_4K div 2 ^ 9 mod 2 ^ 9"
  "get_l3 a = a div PAGE_4K div 2 ^ 18 mod 2 ^ 9" "get_l4 a = a div PAGE_4K div 2 ^ 27 mod 2 ^ 9"
proof -
  have m: "(0x1FF :: nat) = mask 9" by (simp add: mask_eq_exp_minus_1)
  have *: "drop_bit n a AND 0x1FF = a div 2 ^ n mod 2 ^ 9" for n
    unfolding m take_bit_eq_mask[symmetric] by (simp add: drop_bit_eq_div take_bit_eq_mod)
  show "get_l1 a = a div PAGE_4K mod 2 ^ 9" "get_l2 a = a div PAGE_4K div 2 ^ 9 mod 2 ^ 9"
    "get_l3 a = a div PAGE_4K div 2 ^ 18 mod 2 ^ 9" "get_l4 a = a div PAGE_4K div 2 ^ 27 mod 2 ^ 9"
    unfolding get_l1_def get_l2_def get_l3_def get_l4_def *
    by (simp_all add: PAGE_4K_def flip: div_mult2_eq)
qed

lemma page_no_indices:
  "walk_path a = walk_path b \<and> get_l1 a = get_l1 b \<longleftrightarrow> page_no a = page_no b"
proof -
  have d: "x mod 2 ^ 36 = x mod 2 ^ 9 + 2 ^ 9 * (x div 2 ^ 9 mod 2 ^ 9 + 2 ^ 9 * (x div 2 ^ 18 mod 2 ^ 9
      + 2 ^ 9 * (x div 2 ^ 27 mod 2 ^ 9)))" for x :: nat
    using mod_mult2_eq[of x "2 ^ 9" "2 ^ 27"] mod_mult2_eq[of "x div 2 ^ 9" "2 ^ 9" "2 ^ 18"]
      mod_mult2_eq[of "x div 2 ^ 18" "2 ^ 9" "2 ^ 9"]
    by (simp flip: div_mult2_eq)
  have e: "take_bit 9 (drop_bit k y) = take_bit 9 (drop_bit k (take_bit 36 y))" if "k + 9 \<le> 36"
    for y k :: nat
    using that by (simp add: drop_bit_take_bit take_bit_take_bit)
  have g: "get_l1 c = take_bit 9 (drop_bit 0 (page_no c))" "get_l2 c = take_bit 9 (drop_bit 9 (page_no c))"
    "get_l3 c = take_bit 9 (drop_bit 18 (page_no c))" "get_l4 c = take_bit 9 (drop_bit 27 (page_no c))" for c
    unfolding index_digits page_no_def take_bit_eq_mod[symmetric] drop_bit_eq_div[symmetric]
    using e[of 0 "c div PAGE_4K"] e[of 9 "c div PAGE_4K"] e[of 18 "c div PAGE_4K"]
      e[of 27 "c div PAGE_4K"] by simp_all
  have p: "page_no c = get_l1 c + 2 ^ 9 * (get_l2 c + 2 ^ 9 * (get_l3 c + 2 ^ 9 * get_l4 c))" for c
    unfolding page_no_def index_digits by (rule d)
  show ?thesis
  proof
    assume "walk_path a = walk_path b \<and> get_l1 a = get_l1 b"
    then show "page_no a = page_no b" unfolding p by (simp add: walk_path_def)
  next
    assume "page_no a = page_no b"
    then show "walk_path a = walk_path b \<and> get_l1 a = get_l1 b" by (simp only: walk_path_def g)
  qed
qed

section \<open>Reading and writing tables\<close>

definition tbl :: "PhysicalPageAllocator \<Rightarrow> usize \<Rightarrow> nat \<Rightarrow> u64" where
  "tbl st a i = (case pages st (a + KERNEL_BASE) of Words f \<Rightarrow> f i | FreePage _ \<Rightarrow> 0)"

definition is_table :: "PhysicalPageAllocator \<Rightarrow> usize \<Rightarrow> bool" where
  "is_table st a \<longleftrightarrow> a < KERNEL_MAPPED_SIZE \<and> PAGE_4K dvd a \<and> (\<exists>f. pages st (a + KERNEL_BASE) = Words f)"

definition upd :: "PhysicalPageAllocator \<Rightarrow> usize \<Rightarrow> nat \<Rightarrow> u64 \<Rightarrow> PhysicalPageAllocator" where
  "upd st a i e = st\<lparr>pages := (pages st)(a + KERNEL_BASE := Words ((tbl st a)(i := e)))\<rparr>"

lemma as_virtual_table: "a < KERNEL_MAPPED_SIZE \<Longrightarrow> as_virtual a = Ret (a + KERNEL_BASE)"
  using physical2virtual_eq_Ret[of a "a + KERNEL_BASE"]
  by (simp add: as_virtual_def kernel_layout_defs)

lemma read_entry_table: "is_table st a \<Longrightarrow> i < 512 \<Longrightarrow> read_entry st a i = Ret (tbl st a i)"
  by (auto simp: read_entry_def is_table_def as_virtual_table tbl_def)

lemma write_entry_table: "is_table st a \<Longrightarrow> i < 512 \<Longrightarrow> write_entry st a i e = Ret (upd st a i e)"
proof -
  assume a: "is_table st a" and i: "i < 512"
  then obtain f where f: "pages st (a + KERNEL_BASE) = Words f" by (auto simp: is_table_def)
  have "tbl st a = f" by (rule ext) (simp add: tbl_def f)
  with a i f show ?thesis by (auto simp: write_entry_def is_table_def as_virtual_table upd_def)
qed

lemma tbl_upd: "tbl (upd st a i e) b j = (if b = a \<and> j = i then e else tbl st b j)"
  by (auto simp: tbl_def upd_def)

lemma is_table_upd: "is_table st b \<Longrightarrow> is_table (upd st a i e) b"
  by (auto simp: is_table_def upd_def)

lemma upd_fields [simp]:
  "low_mem_free_list_head (upd st a i e) = low_mem_free_list_head st"
  "pa_start (upd st a i e) = pa_start st" "pa_end (upd st a i e) = pa_end st"
  "used_count (upd st a i e) = used_count st" "free_count (upd st a i e) = free_count st"
  "high_mem_start (upd st a i e) = high_mem_start st"
  by (simp_all add: upd_def)

lemma phys_inv_upd: "phys_inv st xs \<Longrightarrow> a + KERNEL_BASE \<notin> set xs \<Longrightarrow> phys_inv (upd st a i e) xs"
  unfolding upd_def by (rule phys_inv_zero)

section \<open>The invariant\<close>

type_synonym tree = "nat list \<Rightarrow> usize option"

definition direct_mapped :: "usize \<Rightarrow> bool" where
  "direct_mapped x \<longleftrightarrow> KERNEL_BASE \<le> x \<and> x < KERNEL_END"

definition free_ok :: "PhysicalPageAllocator \<Rightarrow> usize list \<Rightarrow> bool" where
  "free_ok st xs \<longleftrightarrow> phys_inv st xs \<and> (\<forall>x \<in> set xs. direct_mapped x)"

definition tree_ok :: "PhysicalPageAllocator \<Rightarrow> usize list \<Rightarrow> usize \<Rightarrow> tree \<Rightarrow> bool" where
  "tree_ok st xs l4 T \<longleftrightarrow>
     T [] = Some l4
   \<and> (\<forall>p a. T p = Some a \<longrightarrow> length p \<le> 3 \<and> is_table st a \<and> a + KERNEL_BASE \<notin> set xs)
   \<and> (\<forall>p q a. T p = Some a \<and> T q = Some a \<longrightarrow> p = q)
   \<and> (\<forall>p a i. T p = Some a \<and> length p < 3 \<and> i < 512 \<longrightarrow>
        T (p @ [i]) = (if present (tbl st a i) then Some (from_entry (tbl st a i)) else None))
   \<and> (\<forall>p i. T (p @ [i]) \<noteq> None \<longrightarrow> T p \<noteq> None \<and> i < 512)
   \<and> (\<forall>p a i. T p = Some a \<and> length p < 3 \<and> i < 512 \<and> present (tbl st a i)
        \<longrightarrow> \<not> bit (tbl st a i) 7)"

definition pt_inv :: "PhysicalPageAllocator \<Rightarrow> usize list \<Rightarrow> usize \<Rightarrow> tree \<Rightarrow> bool" where
  "pt_inv st xs l4 T \<longleftrightarrow> free_ok st xs \<and> tree_ok st xs l4 T"

text \<open>The level 1 table of a path, all zero where there is none, and the entry of an address.\<close>

definition ltab :: "PhysicalPageAllocator \<Rightarrow> tree \<Rightarrow> nat list \<Rightarrow> nat \<Rightarrow> u64" where
  "ltab st T q j = (case T q of None \<Rightarrow> 0 | Some c \<Rightarrow> tbl st c j)"

definition leaf :: "PhysicalPageAllocator \<Rightarrow> tree \<Rightarrow> usize \<Rightarrow> u64" where
  "leaf st T va = ltab st T (walk_path va) (get_l1 va)"

lemma tree_okD:
  assumes "tree_ok st xs l4 T"
  shows "T [] = Some l4" "T p = Some a \<Longrightarrow> is_table st a" "T p = Some a \<Longrightarrow> a + KERNEL_BASE \<notin> set xs"
    "T p = Some a \<Longrightarrow> T q = Some a \<Longrightarrow> p = q" "T p = Some a \<Longrightarrow> length p \<le> 3"
    "T p = Some a \<Longrightarrow> length p < 3 \<Longrightarrow> i < 512 \<Longrightarrow>
       T (p @ [i]) = (if present (tbl st a i) then Some (from_entry (tbl st a i)) else None)"
    "T p = None \<Longrightarrow> T (p @ [i]) = None" "T (p @ [i]) = Some b \<Longrightarrow> i < 512"
    "T p = Some a \<Longrightarrow> length p < 3 \<Longrightarrow> i < 512 \<Longrightarrow> present (tbl st a i) \<Longrightarrow> \<not> bit (tbl st a i) 7"
  using assms unfolding tree_ok_def by (blast | metis option.distinct(1))+

lemma tree_okI:
  assumes "T [] = Some l4"
    and "\<And>p a. T p = Some a \<Longrightarrow> length p \<le> 3 \<and> is_table st a \<and> a + KERNEL_BASE \<notin> set xs"
    and "\<And>p q a. T p = Some a \<Longrightarrow> T q = Some a \<Longrightarrow> p = q"
    and "\<And>p a i. T p = Some a \<Longrightarrow> length p < 3 \<Longrightarrow> i < 512 \<Longrightarrow>
       T (p @ [i]) = (if present (tbl st a i) then Some (from_entry (tbl st a i)) else None)"
    and "\<And>p i. T (p @ [i]) \<noteq> None \<Longrightarrow> T p \<noteq> None \<and> i < 512"
    and "\<And>p a i. T p = Some a \<Longrightarrow> length p < 3 \<Longrightarrow> i < 512 \<Longrightarrow> present (tbl st a i)
       \<Longrightarrow> \<not> bit (tbl st a i) 7"
  shows "tree_ok st xs l4 T"
  unfolding tree_ok_def using assms by blast

lemma tree_ok_prefix: "tree_ok st xs l4 T \<Longrightarrow> T (p @ [i]) \<noteq> None \<Longrightarrow> T p \<noteq> None \<and> i < 512"
  by (simp add: tree_ok_def)

text \<open>Writing an entry that keeps the present bit and the address of what was there.\<close>

lemma tree_ok_upd_flags:
  assumes t: "tree_ok st xs l4 T" "T p = Some a" "length p < 3" "i < 512"
    and e: "present e = present (tbl st a i)" "from_entry e = from_entry (tbl st a i)"
      "bit e 7 \<Longrightarrow> bit (tbl st a i) 7"
  shows "tree_ok (upd st a i e) xs l4 T"
  unfolding tree_ok_def
proof (intro conjI allI impI)
  fix q c
  assume q: "T q = Some c"
  show "length q \<le> 3" by (rule tree_okD(5)[OF t(1) q])
  show "is_table (upd st a i e) c" by (rule is_table_upd[OF tree_okD(2)[OF t(1) q]])
  show "c + KERNEL_BASE \<notin> set xs" by (rule tree_okD(3)[OF t(1) q])
next
  fix q q' c
  assume "T q = Some c \<and> T q' = Some c"
  then show "q = q'" using tree_okD(4)[OF t(1), of q c q'] by simp
next
  fix q :: "nat list" and c and j :: nat
  assume q: "T q = Some c \<and> length q < 3 \<and> j < 512"
  then show "T (q @ [j]) = (if present (tbl (upd st a i e) c j)
      then Some (from_entry (tbl (upd st a i e) c j)) else None)"
    using tree_okD(6)[OF t(1), of q c j] e(1,2) by (simp add: tbl_upd)
next
  fix q :: "nat list" and j :: nat
  assume q: "T (q @ [j]) \<noteq> None"
  then show "T q \<noteq> None" "j < 512" using tree_okD(7,8)[OF t(1), of q j] by (cases "T q"; auto)+
next
  fix q :: "nat list" and c and j :: nat
  assume q: "T q = Some c \<and> length q < 3 \<and> j < 512 \<and> present (tbl (upd st a i e) c j)"
  then show "\<not> bit (tbl (upd st a i e) c j) 7"
    using tree_okD(9)[OF t(1), of q c j] e(1,3) by (auto simp: tbl_upd split: if_splits)
qed (rule tree_okD(1)[OF t(1)])

lemma ltab_upd:
  assumes "tree_ok st xs l4 T" "T p = Some a" "length p \<noteq> length q"
  shows "ltab (upd st a i e) T q j = ltab st T q j"
  using tree_okD(4)[OF assms(1,2), of q] assms(3) by (auto simp: ltab_def tbl_upd split: option.splits)

section \<open>One level of the descent\<close>

lemma alloc_new_spec:
  assumes "free_ok st (x # ps)" "used_count st + 1 < usize_bound"
  obtains a st1 where "alloc_new st = Ret (a, st1)" "x = a + KERNEL_BASE" "a < KERNEL_MAPPED_SIZE"
    "PAGE_4K dvd a" "free_ok st1 ps" "pages st1 = (pages st)(x := page_fill 0)"
    "used_count st1 = used_count st + 1"
proof -
  have inv: "phys_inv st (x # ps)" and dm: "direct_mapped x" "\<forall>y \<in> set ps. direct_mapped y"
    using assms(1) by (auto simp: free_ok_def)
  obtain st0 where al: "phys_alloc st = Ret (x, st0)" using phys_alloc_total[OF inv] assms(2) by auto
  from phys_alloc_Ret[OF inv al] have st0: "phys_inv st0 ps" "pages st0 = (pages st)(x := page_fill 1)"
    "used_count st0 = used_count st + 1" by auto
  let ?st1 = "st0\<lparr>pages := (pages st0)(x := page_fill 0)\<rparr>"
  have "x \<notin> set ps" "PAGE_4K dvd x" using inv by (auto simp: phys_inv_def valid_page_def)
  then have "free_ok ?st1 ps" using st0(1) dm(2) phys_inv_zero by (simp add: free_ok_def)
  moreover have "PAGE_4K dvd x - KERNEL_BASE"
    using \<open>PAGE_4K dvd x\<close> by (intro dvd_diff_nat) (auto simp: kernel_layout_defs)
  moreover have "virtual2physical x = Ret (x - KERNEL_BASE)"
    using dm(1) by (simp add: virtual2physical_eq_Ret direct_mapped_def)
  moreover have "x = (x - KERNEL_BASE) + KERNEL_BASE" "x - KERNEL_BASE < KERNEL_MAPPED_SIZE"
    using dm(1) by (auto simp: direct_mapped_def KERNEL_END_def)
  ultimately show ?thesis
    using al st0 by (intro that[of "x - KERNEL_BASE" ?st1]) (auto simp: alloc_new_def phys_alloc_zeroed_def)
qed

lemma tbl_fill [simp]: "pages st (a + KERNEL_BASE) = page_fill 0 \<Longrightarrow> tbl st a j = 0"
  by (simp add: tbl_def page_fill_def)

lemma tbl_cong: "pages st' (a + KERNEL_BASE) = pages st (a + KERNEL_BASE) \<Longrightarrow> tbl st' a = tbl st a"
  by (rule ext) (simp add: tbl_def)

text \<open>A new, empty table hung into the tree.\<close>

lemma tree_ok_new_table:
  assumes t: "tree_ok st (x # ps) l4 T" "T p = Some a" "length p < 3" "i < 512" "T (p @ [i]) = None"
    and b: "x = b + KERNEL_BASE" "b < KERNEL_MAPPED_SIZE" "PAGE_4K dvd b" "x \<notin> set ps"
    and st1: "pages st1 = (pages st)(x := page_fill 0)"
    and e: "present e" "from_entry e = b" "\<not> bit e 7"
  shows "tree_ok (upd st1 a i e) ps l4 (T(p @ [i] \<mapsto> b))"
proof -
  let ?T = "T(p @ [i] \<mapsto> b)" and ?st = "upd st1 a i e"
  have old: "c \<noteq> b" "tbl st1 c = tbl st c" "is_table st1 c" if "T q = Some c" for q c
  proof -
    have "c + KERNEL_BASE \<noteq> x" using tree_okD(3)[OF t(1) that] by auto
    then show "c \<noteq> b" "tbl st1 c = tbl st c" using b(1) st1 by (auto intro!: tbl_cong)
    show "is_table st1 c" using tree_okD(2)[OF t(1) that] \<open>c + KERNEL_BASE \<noteq> x\<close> st1
      by (simp add: is_table_def)
  qed
  have zero: "tbl ?st b j = 0" for j
    using old(1)[OF t(2)] st1 b(1) by (simp add: tbl_upd)
  have isb: "is_table st1 b" using b st1 by (simp add: is_table_def page_fill_def)
  have none: "T (p @ [i, j]) = None" for j using tree_okD(7)[OF t(1,5), of j] by simp
  show ?thesis unfolding tree_ok_def
  proof (intro conjI allI impI)
    show "?T [] = Some l4" using tree_okD(1)[OF t(1)] by simp
  next
    fix q c
    assume q: "?T q = Some c"
    show "length q \<le> 3" using q t(3) tree_okD(5)[OF t(1), of q c] by (auto split: if_splits)
    show "is_table ?st c" using q isb old(3)[of q c] by (intro is_table_upd) (simp split: if_splits)
    show "c + KERNEL_BASE \<notin> set ps"
      using q b(1,4) tree_okD(3)[OF t(1), of q c] by (auto split: if_splits)
  next
    fix q q' c
    assume "?T q = Some c \<and> ?T q' = Some c"
    then show "q = q'" using old(1)[of q b] old(1)[of q' b] tree_okD(4)[OF t(1), of q c q']
      by (cases "q = p @ [i]"; cases "q' = p @ [i]") simp_all
  next
    fix q :: "nat list" and c and j :: nat
    assume q: "?T q = Some c \<and> length q < 3 \<and> j < 512"
    show "?T (q @ [j]) = (if present (tbl ?st c j) then Some (from_entry (tbl ?st c j)) else None)"
    proof (cases "q = p @ [i]")
      case True
      then have "c = b" using q by simp
      then show ?thesis using True none zero by (simp add: present_def)
    next
      case False
      then have Tq: "T q = Some c" using q by simp
      show ?thesis
      proof (cases "q = p")
        case True
        then have "c = a" using Tq t(2) by simp
        then show ?thesis using True tree_okD(6)[OF t(1) Tq, of j] q e old(2)[OF Tq]
          by (auto simp: tbl_upd)
      next
        case np: False
        then have "c \<noteq> a" using tree_okD(4)[OF t(1) Tq, of p] t(2) by auto
        then show ?thesis using np False tree_okD(6)[OF t(1) Tq, of j] q old(2)[OF Tq]
          by (auto simp: tbl_upd)
      qed
    qed
  next
    fix q :: "nat list" and j :: nat
    assume q: "?T (q @ [j]) \<noteq> None"
    show "j < 512" using q t(4) tree_okD(8)[OF t(1), of q j] by (auto split: if_splits)
    show "?T q \<noteq> None" using q t(2) tree_okD(7)[OF t(1), of q j] by (cases "T q") (auto split: if_splits)
  next
    fix q :: "nat list" and c and j :: nat
    assume q: "?T q = Some c \<and> length q < 3 \<and> j < 512 \<and> present (tbl ?st c j)"
    then have "q \<noteq> p @ [i]" using zero by (auto simp: present_def)
    then have Tq: "T q = Some c" using q by simp
    show "\<not> bit (tbl ?st c j) 7"
      using q tree_okD(9)[OF t(1) Tq, of j] old(2)[OF Tq] e(3) by (auto simp: tbl_upd split: if_splits)
  qed
qed


lemma ltab_new_table:
  assumes "tree_ok st (x # ps) l4 T" "T p = Some a" "length p < 3" "T (p @ [i]) = None" "length q = 3"
    and "x = b + KERNEL_BASE" "pages st1 = (pages st)(x := page_fill 0)"
  shows "ltab (upd st1 a i e) (T(p @ [i] \<mapsto> b)) q j = ltab st T q j"
proof (cases "q = p @ [i]")
  case True
  have "b \<noteq> a" using tree_okD(3)[OF assms(1,2)] assms(6) by auto
  then show ?thesis using True assms(4,6,7) by (simp add: ltab_def tbl_upd)
next
  case False
  show ?thesis
  proof (cases "T q")
    case (Some c)
    have "c + KERNEL_BASE \<noteq> x" using tree_okD(3)[OF assms(1) Some] by auto
    then have "tbl st1 c = tbl st c" using assms(7) by (auto intro!: tbl_cong)
    moreover have "c \<noteq> a" using tree_okD(4)[OF assms(1) Some, of p] assms(2,3,5) by auto
    ultimately show ?thesis using False Some by (simp add: ltab_def tbl_upd)
  qed (use False in \<open>simp add: ltab_def\<close>)
qed

lemma free_ok_upd: "free_ok st xs \<Longrightarrow> a + KERNEL_BASE \<notin> set xs \<Longrightarrow> free_ok (upd st a i e) xs"
  by (simp add: free_ok_def phys_inv_upd)

text \<open>The flags a caller may pass: no address bits, no page size bit.\<close>

definition flags_ok :: "u64 \<Rightarrow> bool" where
  "flags_ok fl \<longleftrightarrow> fl AND ADDR_MASK = 0 \<and> \<not> bit fl 7"

lemma new_entry_facts:
  assumes "p < KERNEL_MAPPED_SIZE" "PAGE_4K dvd p" "flags_ok fl"
  defines "e \<equiv> ((of_nat p AND ADDR_MASK) OR PTE_PRESENT) OR fl"
  shows "present e" "from_entry e = p" "\<not> bit e 7"
proof -
  show "from_entry e = p" using from_entry_new[OF assms(1,2)] assms(3) by (simp add: e_def flags_ok_def)
  have "bit PTE_PRESENT 0" "\<not> bit PTE_PRESENT 7" by (simp_all add: PTE_PRESENT_def)
  then show "present e" "\<not> bit e 7"
    using assms(3) by (simp_all add: e_def present_bit bit_or_iff bit_and_iff bit_ADDR_MASK flags_ok_def)
qed

lemma map_level_spec:
  assumes inv: "pt_inv st xs l4 T" "T p = Some a" "length p < 3" "i < 512" "flags_ok fl"
    and mem: "xs \<noteq> []" "used_count st + 1 < usize_bound"
  shows "\<exists>b st' xs' T'. map_level st a i fl = Ret (b, st') \<and> pt_inv st' xs' l4 T'
    \<and> T' (p @ [i]) = Some b \<and> length xs \<le> Suc (length xs') \<and> set xs' \<subseteq> set xs
    \<and> used_count st' \<le> Suc (used_count st)
    \<and> (\<forall>q j. length q = 3 \<longrightarrow> ltab st' T' q j = ltab st T q j)"
proof -
  have tree: "tree_ok st xs l4 T" and free: "free_ok st xs" using inv(1) by (auto simp: pt_inv_def)
  note tab = tree_okD(2,3)[OF tree inv(2)]
  let ?e = "tbl st a i"
  show ?thesis
  proof (cases "present ?e")
    case True
    let ?st = "upd st a i (?e OR fl)"
    have fe: "from_entry (?e OR fl) = from_entry ?e" using inv(5) by (simp add: from_entry_or flags_ok_def)
    have "tree_ok ?st xs l4 T"
      by (rule tree_ok_upd_flags[OF tree inv(2-4)])
        (use True fe inv(5) in \<open>simp_all add: present_bit bit_or_iff flags_ok_def\<close>)
    moreover have "map_level st a i fl = Ret (from_entry ?e, ?st)"
      using True fe inv(4) tab(1) by (simp add: map_level_def read_entry_table write_entry_table)
    moreover have "T (p @ [i]) = Some (from_entry ?e)" using tree_okD(6)[OF tree inv(2-4)] True by simp
    ultimately show ?thesis
      using free_ok_upd[OF free tab(2)] inv(3) ltab_upd[OF tree inv(2)]
      by (intro exI[of _ "from_entry ?e"] exI[of _ ?st] exI[of _ xs] exI[of _ T]) (auto simp: pt_inv_def)
  next
    case False
    obtain x ps where xs: "xs = x # ps" using mem(1) by (cases xs) auto
    obtain b st1 where al: "alloc_new st = Ret (b, st1)" "x = b + KERNEL_BASE" "b < KERNEL_MAPPED_SIZE"
      "PAGE_4K dvd b" "free_ok st1 ps" "pages st1 = (pages st)(x := page_fill 0)"
      "used_count st1 = used_count st + 1"
      using alloc_new_spec[of st x ps] free mem(2) xs by blast
    define e where "e = ((of_nat b AND ADDR_MASK) OR PTE_PRESENT) OR fl"
    note e = new_entry_facts[OF al(3,4) inv(5), folded e_def]
    have none: "T (p @ [i]) = None" using tree_okD(6)[OF tree inv(2-4)] False by simp
    have "x \<notin> set ps" using free xs by (auto simp: free_ok_def phys_inv_def)
    then have "tree_ok (upd st1 a i e) ps l4 (T(p @ [i] \<mapsto> b))"
      using tree_ok_new_table[OF tree[unfolded xs] inv(2-4) none al(2-4) _ al(6)] e by blast
    moreover have "is_table st1 a" using tab xs al(6) by (simp add: is_table_def)
    then have "map_level st a i fl = Ret (b, upd st1 a i e)"
      using False inv(4) tab(1) al(1) e(2)
      by (simp add: map_level_def read_entry_table write_entry_table flip: e_def)
    moreover have "free_ok (upd st1 a i e) ps" using free_ok_upd[OF al(5)] tab(2) xs by simp
    ultimately show ?thesis
      using al(7) xs ltab_new_table[OF tree[unfolded xs] inv(2,3) none _ al(2,6)]
      by (intro exI[of _ b] exI[of _ "upd st1 a i e"] exI[of _ ps] exI[of _ "T(p @ [i] \<mapsto> b)"])
        (auto simp: pt_inv_def)
  qed
qed

section \<open>Mapping a page\<close>

lemma tree_ok_cong:
  assumes t: "tree_ok st xs l4 T" and ys: "set ys \<subseteq> set xs"
    and eq: "\<And>p a. T p = Some a \<Longrightarrow> pages st' (a + KERNEL_BASE) = pages st (a + KERNEL_BASE)"
  shows "tree_ok st' ys l4 T" "ltab st' T q = ltab st T q"
proof -
  have e: "tbl st' a = tbl st a" "is_table st' a = is_table st a" if "T p = Some a" for p a
    using eq[OF that] by (auto simp: is_table_def intro: tbl_cong)
  show "ltab st' T q = ltab st T q" by (rule ext) (auto simp: ltab_def e split: option.splits)
  show "tree_ok st' ys l4 T"
  proof (rule tree_okI)
    fix p a
    assume p: "T p = Some a"
    show "length p \<le> 3 \<and> is_table st' a \<and> a + KERNEL_BASE \<notin> set ys"
      using tree_okD(2,3,5)[OF t p] e(2)[OF p] ys by auto
  qed (simp_all add: e tree_okD(1,6,9)[OF t] tree_okD(4)[OF t] tree_ok_prefix[OF t])
qed

lemma tree_ok_upd_leaf:
  assumes t: "tree_ok st xs l4 T" "T p = Some a" "length p = 3"
  shows "tree_ok (upd st a i e) xs l4 T"
    "ltab (upd st a i e) T q j = (if q = p \<and> j = i then e else ltab st T q j)"
proof -
  have ne: "c \<noteq> a" if "T q' = Some c" "q' \<noteq> p" for q' c
    using tree_okD(4)[OF t(1,2), of q'] that by auto
  show "ltab (upd st a i e) T q j = (if q = p \<and> j = i then e else ltab st T q j)"
    using t(2) ne[of q] by (auto simp: ltab_def tbl_upd split: option.splits)
  have s: "tbl (upd st a i e) c = tbl st c" if "T q' = Some c" "length q' < 3" for q' c
  proof -
    have "q' \<noteq> p" using that(2) t(3) by auto
    then show ?thesis using ne[OF that(1)] by (intro ext) (simp add: tbl_upd)
  qed
  show "tree_ok (upd st a i e) xs l4 T"
  proof (rule tree_okI)
    fix q' c
    assume q: "T q' = Some c"
    show "length q' \<le> 3 \<and> is_table (upd st a i e) c \<and> c + KERNEL_BASE \<notin> set xs"
      using tree_okD(2,3,5)[OF t(1) q] is_table_upd by auto
  qed (simp_all add: s tree_okD(1,6,9)[OF t(1)] tree_okD(4)[OF t(1)] tree_ok_prefix[OF t(1)])
qed

lemma map_page_tables:
  assumes inv: "pt_inv st xs l4 T" "flags_ok fl" and mem: "3 \<le> length xs" "used_count st + 3 < usize_bound"
  obtains l3 l2 l1 st1 st2 st3 xs' T' where "map_level st l4 (get_l4 va) fl = Ret (l3, st1)"
    "map_level st1 l3 (get_l3 va) fl = Ret (l2, st2)" "map_level st2 l2 (get_l2 va) fl = Ret (l1, st3)"
    "pt_inv st3 xs' l4 T'" "T' (walk_path va) = Some l1" "length xs \<le> 3 + length xs' \<and> set xs' \<subseteq> set xs"
    "used_count st3 \<le> used_count st + 3" "\<And>vb. leaf st3 T' vb = leaf st T vb"
proof -
  have T0: "T [] = Some l4" using inv(1) by (simp add: pt_inv_def tree_ok_def)
  have "xs \<noteq> []" "used_count st + 1 < usize_bound" using mem by auto
  from map_level_spec[OF inv(1) T0 _ index_bounds(1) inv(2) this, of va] obtain l3 st1 xs1 T1
    where s1: "map_level st l4 (get_l4 va) fl = Ret (l3, st1)" "pt_inv st1 xs1 l4 T1"
    "T1 [get_l4 va] = Some l3" "length xs \<le> Suc (length xs1) \<and> set xs1 \<subseteq> set xs" "used_count st1 \<le> Suc (used_count st)"
    "\<forall>q j. length q = 3 \<longrightarrow> ltab st1 T1 q j = ltab st T q j" by auto
  have "xs1 \<noteq> []" "used_count st1 + 1 < usize_bound" using mem s1(4,5) by auto
  from map_level_spec[OF s1(2,3) _ index_bounds(2) inv(2) this, of va] obtain l2 st2 xs2 T2
    where s2: "map_level st1 l3 (get_l3 va) fl = Ret (l2, st2)" "pt_inv st2 xs2 l4 T2"
    "T2 [get_l4 va, get_l3 va] = Some l2" "length xs1 \<le> Suc (length xs2) \<and> set xs2 \<subseteq> set xs1"
    "used_count st2 \<le> Suc (used_count st1)"
    "\<forall>q j. length q = 3 \<longrightarrow> ltab st2 T2 q j = ltab st1 T1 q j" by auto
  have "xs2 \<noteq> []" "used_count st2 + 1 < usize_bound" using mem s1(4,5) s2(4,5) by auto
  from map_level_spec[OF s2(2,3) _ index_bounds(3) inv(2) this, of va] obtain l1 st3 xs3 T3
    where s3: "map_level st2 l2 (get_l2 va) fl = Ret (l1, st3)" "pt_inv st3 xs3 l4 T3"
    "T3 [get_l4 va, get_l3 va, get_l2 va] = Some l1" "length xs2 \<le> Suc (length xs3) \<and> set xs3 \<subseteq> set xs2"
    "used_count st3 \<le> Suc (used_count st2)"
    "\<forall>q j. length q = 3 \<longrightarrow> ltab st3 T3 q j = ltab st2 T2 q j" by auto
  have "leaf st3 T3 vb = leaf st T vb" for vb
    using s1(6) s2(6) s3(6) by (simp add: leaf_def walk_path_def)
  moreover have "set xs3 \<subseteq> set xs" using s1(4) s2(4) s3(4) by blast
  ultimately show ?thesis using that[OF s1(1) s2(1) s3(1,2)] s1(4,5) s2(4,5) s3(3-5)
    by (simp add: walk_path_def)
qed

text \<open>What \<open>map\<close> stores for a page.\<close>

definition leaf_entry :: "usize \<Rightarrow> u64 \<Rightarrow> u64" where
  "leaf_entry p fl = (of_nat p AND ADDR_MASK) OR fl OR PTE_PRESENT"

text \<open>The abstract effect of changing the entry of one page.\<close>

definition set_leaf :: "(usize \<Rightarrow> u64) \<Rightarrow> usize \<Rightarrow> u64 \<Rightarrow> usize \<Rightarrow> u64" where
  "set_leaf L va e = (\<lambda>vb. if page_no vb = page_no va then e else L vb)"

lemma present_leaf_entry: "present (leaf_entry p fl)"
  by (simp add: leaf_entry_def present_bit bit_or_iff PTE_PRESENT_def)

lemma map_page_at:
  assumes inv: "pt_inv st xs l4 T" "flags_ok fl" and mem: "3 \<le> length xs" "used_count st + 3 < usize_bound"
  shows "\<exists>st' xs' T'. map_page st l4 va (Some p) fl = Ret st' \<and> pt_inv st' xs' l4 T'
    \<and> length xs \<le> 3 + length xs' \<and> set xs' \<subseteq> set xs \<and> used_count st' \<le> used_count st + 3
    \<and> leaf st' T' = set_leaf (leaf st T) va (leaf_entry p fl)"
proof -
  obtain l3 l2 l1 st1 st2 st3 xs' T' where s: "map_level st l4 (get_l4 va) fl = Ret (l3, st1)"
    "map_level st1 l3 (get_l3 va) fl = Ret (l2, st2)" "map_level st2 l2 (get_l2 va) fl = Ret (l1, st3)"
    and inv3: "pt_inv st3 xs' l4 T'" and l1: "T' (walk_path va) = Some l1"
    and len: "length xs \<le> 3 + length xs' \<and> set xs' \<subseteq> set xs" "used_count st3 \<le> used_count st + 3"
    and lf: "\<And>vb. leaf st3 T' vb = leaf st T vb"
    using map_page_tables[OF inv mem, of va] by metis
  let ?e = "leaf_entry p fl" and ?st = "upd st3 l1 (get_l1 va) (leaf_entry p fl)"
  have t: "tree_ok st3 xs' l4 T'" and f: "free_ok st3 xs'" using inv3 by (auto simp: pt_inv_def)
  have len3: "length (walk_path va) = 3" by (simp add: walk_path_def)
  note u = tree_ok_upd_leaf[OF t l1 len3]
  have "map_page st l4 va (Some p) fl = Ret ?st"
    using s tree_okD(2)[OF t l1] by (simp add: map_page_def write_entry_table leaf_entry_def)
  moreover have "pt_inv ?st xs' l4 T'"
    using u(1) free_ok_upd[OF f tree_okD(3)[OF t l1]] by (simp add: pt_inv_def)
  moreover have "leaf ?st T' = set_leaf (leaf st T) va ?e"
  proof
    fix vb
    show "leaf ?st T' vb = set_leaf (leaf st T) va ?e vb"
      using u(2)[of "get_l1 va" ?e "walk_path vb" "get_l1 vb"] lf[of vb] page_no_indices[of vb va]
      by (auto simp: leaf_def set_leaf_def)
  qed
  moreover have "used_count ?st \<le> used_count st + 3" using len(2) by simp
  ultimately show ?thesis using len(1) by blast
qed

lemma pt_inv_alloc:
  assumes "pt_inv st (x # ps) l4 T" "free_ok st1 ps" "pages st1 = (pages st)(x := page_fill 0)"
  shows "pt_inv st1 ps l4 T" "leaf st1 T = leaf st T"
proof -
  have t: "tree_ok st (x # ps) l4 T" using assms(1) by (simp add: pt_inv_def)
  have "pages st1 (a + KERNEL_BASE) = pages st (a + KERNEL_BASE)" if "T p = Some a" for p a
    using tree_okD(3)[OF t that] assms(3) by auto
  then have c: "tree_ok st1 ps l4 T" "\<And>q. ltab st1 T q = ltab st T q"
    using tree_ok_cong[OF t, of ps st1] by (auto simp: set_subset_Cons)
  show "pt_inv st1 ps l4 T" using c(1) assms(2) by (simp add: pt_inv_def)
  show "leaf st1 T = leaf st T" by (rule ext) (simp add: leaf_def c(2))
qed

lemma map_page_new:
  assumes inv: "pt_inv st (x # xs) l4 T" "flags_ok fl" and mem: "3 \<le> length xs" "used_count st + 4 < usize_bound"
  shows "\<exists>st' xs' T'. map_page st l4 va None fl = Ret st' \<and> pt_inv st' xs' l4 T'
    \<and> length xs \<le> 3 + length xs' \<and> set xs' \<subseteq> set xs \<and> used_count st' \<le> used_count st + 4
    \<and> leaf st' T' = set_leaf (leaf st T) va (leaf_entry (x - KERNEL_BASE) fl)"
proof -
  have "free_ok st (x # xs)" "used_count st + 1 < usize_bound" using inv(1) mem(2) by (auto simp: pt_inv_def)
  then obtain a st1 where al: "alloc_new st = Ret (a, st1)" "x = a + KERNEL_BASE" "free_ok st1 xs"
    "pages st1 = (pages st)(x := page_fill 0)" "used_count st1 = used_count st + 1"
    by (rule alloc_new_spec) blast
  note p = pt_inv_alloc[OF inv(1) al(3,4)]
  have eq: "map_page st l4 va None fl = map_page st1 l4 va (Some a) fl" using al(1) by (simp add: map_page_def)
  have "used_count st1 + 3 < usize_bound" using al(5) mem(2) by simp
  from map_page_at[OF p(1) inv(2) mem(1) this, of va a] obtain st' xs' T' where
    "map_page st1 l4 va (Some a) fl = Ret st'" "pt_inv st' xs' l4 T'" "length xs \<le> 3 + length xs' \<and> set xs' \<subseteq> set xs"
    "used_count st' \<le> used_count st1 + 3" "leaf st' T' = set_leaf (leaf st1 T) va (leaf_entry a fl)" by blast
  moreover have "a = x - KERNEL_BASE" "used_count st1 + 3 = used_count st + 4" using al(2,5) by simp_all
  ultimately show ?thesis unfolding eq p(2) by metis
qed

section \<open>Mapping a range\<close>

fun set_leaves :: "(usize \<Rightarrow> u64) \<Rightarrow> usize \<Rightarrow> u64 list \<Rightarrow> usize \<Rightarrow> u64" where
  "set_leaves L va [] = L"
| "set_leaves L va (e # es) = set_leaves (set_leaf L va e) (va + PAGE_4K) es"

lemma set_leaves_other:
  "\<forall>i < length es. page_no vb \<noteq> page_no (va + i * PAGE_4K) \<Longrightarrow> set_leaves L va es vb = L vb"
proof (induction es arbitrary: L va)
  case (Cons e es)
  have "page_no vb \<noteq> page_no va" using Cons.prems by (metis add.right_neutral length_greater_0_conv list.distinct(1) mult_0)
  moreover have "\<forall>i < length es. page_no vb \<noteq> page_no (va + PAGE_4K + i * PAGE_4K)"
    using Cons.prems by (metis Suc_less_eq add.assoc length_Cons mult_Suc)
  ultimately show ?case using Cons.IH by (simp add: set_leaf_def)
qed simp

lemma page_no_add: "page_no (va + i * PAGE_4K) = (va div PAGE_4K + i) mod 2 ^ 36"
  by (simp add: page_no_def add.commute)

lemma mod_add_inj_nat:
  fixes a i j m :: nat
  assumes "i \<le> j" "j < m" "(a + i) mod m = (a + j) mod m"
  shows "i = j"
proof -
  have "m dvd (a + j) - (a + i)" using assms by (metis mod_eq_dvd_iff_nat nat_add_left_cancel_le)
  then show ?thesis using assms(1,2) by (auto dest: dvd_imp_le)
qed

lemma page_no_range_inj:
  assumes "i < 2 ^ 36" "j < 2 ^ 36" "page_no (va + i * PAGE_4K) = page_no (va + j * PAGE_4K)"
  shows "i = j"
  using mod_add_inj_nat[of i j "2 ^ 36" "va div PAGE_4K"] mod_add_inj_nat[of j i "2 ^ 36" "va div PAGE_4K"]
    assms unfolding page_no_add by (cases "i \<le> j") auto

lemma set_leaves_at:
  assumes "i < length es" "length es \<le> 2 ^ 36" "page_no vb = page_no (va + i * PAGE_4K)"
  shows "set_leaves L va es vb = es ! i"
  using assms
proof (induction es arbitrary: L va i)
  case (Cons e es)
  show ?case
  proof (cases i)
    case 0
    have "page_no vb \<noteq> page_no (va + PAGE_4K + j * PAGE_4K)" if "j < length es" for j
      using page_no_range_inj[of 0 "Suc j" va] Cons.prems that 0 by (auto simp: add.assoc)
    then have "set_leaves (set_leaf L va e) (va + PAGE_4K) es vb = set_leaf L va e vb"
      by (intro set_leaves_other) blast
    then show ?thesis using 0 Cons.prems(3) by (simp add: set_leaf_def)
  next
    case (Suc k)
    have "page_no vb = page_no (va + PAGE_4K + k * PAGE_4K)" using Cons.prems(3) Suc by (simp add: add.assoc)
    then show ?thesis using Cons.IH[of k] Cons.prems(1,2) Suc by simp
  qed
qed simp

lemma map_loop_at:
  assumes "pt_inv st xs l4 T" "flags_ok fl" "3 * n \<le> length xs" "used_count st + 3 * n < usize_bound"
    and "va + n * PAGE_4K < usize_bound" "p + n * PAGE_4K < usize_bound"
  shows "\<exists>st' xs' T'. map_loop st l4 va (Some p) (n * PAGE_4K) fl = Ret st' \<and> pt_inv st' xs' l4 T'
    \<and> set xs' \<subseteq> set xs
    \<and> leaf st' T' = set_leaves (leaf st T) va (map (\<lambda>i. leaf_entry (p + i * PAGE_4K) fl) [0..<n])"
  using assms
proof (induction n arbitrary: st xs T va p)
  case 0
  then show ?case by (intro exI[of _ st] exI[of _ xs] exI[of _ T]) (simp add: map_loop.simps)
next
  case (Suc n)
  have "3 \<le> length xs" "used_count st + 3 < usize_bound" using Suc.prems(3,4) by auto
  from map_page_at[OF Suc.prems(1,2) this, of va p] obtain st1 xs1 T1 where
    m: "map_page st l4 va (Some p) fl = Ret st1" and i1: "pt_inv st1 xs1 l4 T1"
    and b: "length xs \<le> 3 + length xs1" "set xs1 \<subseteq> set xs" "used_count st1 \<le> used_count st + 3"
    and lf: "leaf st1 T1 = set_leaf (leaf st T) va (leaf_entry p fl)" by blast
  have es: "map (\<lambda>i. leaf_entry (p + i * PAGE_4K) fl) [0..<Suc n]
      = leaf_entry p fl # map (\<lambda>i. leaf_entry (p + PAGE_4K + i * PAGE_4K) fl) [0..<n]"
    by (simp add: map_upt_Suc add.assoc del: upt_Suc)
  have "map_loop st l4 va (Some p) (Suc n * PAGE_4K) fl =
      map_loop st1 l4 (va + PAGE_4K) (Some (p + PAGE_4K)) (n * PAGE_4K) fl"
    using m Suc.prems(5,6)
    by (subst map_loop.simps) (auto simp: advance_physical_def map_loop.simps[of _ _ _ _ 0])
  moreover from Suc.IH[OF i1 Suc.prems(2), of "va + PAGE_4K" "p + PAGE_4K"] obtain st' xs' T' where
    "map_loop st1 l4 (va + PAGE_4K) (Some (p + PAGE_4K)) (n * PAGE_4K) fl = Ret st'" "pt_inv st' xs' l4 T'"
    "set xs' \<subseteq> set xs1" "leaf st' T' = set_leaves (leaf st1 T1) (va + PAGE_4K)
      (map (\<lambda>i. leaf_entry (p + PAGE_4K + i * PAGE_4K) fl) [0..<n])"
    using Suc.prems(3-6) b by (auto simp: add.assoc)
  ultimately show ?case using b(2) unfolding es lf set_leaves.simps by auto
qed

text \<open>Mapping fresh pages: the frames are taken from the free list, each one once.\<close>

lemma map_loop_new:
  assumes "pt_inv st xs l4 T" "flags_ok fl" "4 * n \<le> length xs" "used_count st + 4 * n < usize_bound"
    and "va + n * PAGE_4K < usize_bound"
  shows "\<exists>st' xs' T' fs. map_loop st l4 va None (n * PAGE_4K) fl = Ret st' \<and> pt_inv st' xs' l4 T'
    \<and> set xs' \<subseteq> set xs \<and> length fs = n \<and> distinct fs \<and> set fs \<subseteq> set xs - set xs'
    \<and> leaf st' T' = set_leaves (leaf st T) va (map (\<lambda>x. leaf_entry (x - KERNEL_BASE) fl) fs)"
  using assms
proof (induction n arbitrary: st xs T va)
  case 0
  then show ?case by (intro exI[of _ st] exI[of _ xs] exI[of _ T] exI[of _ "[]"]) (simp add: map_loop.simps)
next
  case (Suc n)
  obtain x ys where xs: "xs = x # ys" using Suc.prems(3) by (cases xs) auto
  have "3 \<le> length ys" "used_count st + 4 < usize_bound" using Suc.prems(3,4) xs by auto
  from map_page_new[OF Suc.prems(1)[unfolded xs] Suc.prems(2) this, of va] obtain st1 xs1 T1 where
    m: "map_page st l4 va None fl = Ret st1" and i1: "pt_inv st1 xs1 l4 T1"
    and b: "length ys \<le> 3 + length xs1" "set xs1 \<subseteq> set ys" "used_count st1 \<le> used_count st + 4"
    and lf: "leaf st1 T1 = set_leaf (leaf st T) va (leaf_entry (x - KERNEL_BASE) fl)" by blast
  have dx: "x \<notin> set ys" using Suc.prems(1) xs by (auto simp: pt_inv_def free_ok_def phys_inv_def)
  have "map_loop st l4 va None (Suc n * PAGE_4K) fl = map_loop st1 l4 (va + PAGE_4K) None (n * PAGE_4K) fl"
    using m Suc.prems(5)
    by (subst map_loop.simps) (auto simp: advance_physical_def map_loop.simps[of _ _ _ _ 0])
  moreover from Suc.IH[OF i1 Suc.prems(2), of "va + PAGE_4K"] obtain st' xs' T' fs where
    "map_loop st1 l4 (va + PAGE_4K) None (n * PAGE_4K) fl = Ret st'" "pt_inv st' xs' l4 T'"
    "set xs' \<subseteq> set xs1" "length fs = n" "distinct fs" "set fs \<subseteq> set xs1 - set xs'"
    "leaf st' T' = set_leaves (leaf st1 T1) (va + PAGE_4K) (map (\<lambda>x. leaf_entry (x - KERNEL_BASE) fl) fs)"
    using Suc.prems(3-5) b xs by (auto simp: add.assoc)
  ultimately show ?case using b(2) dx unfolding lf xs
    by (intro exI[of _ st'] exI[of _ xs'] exI[of _ T'] exI[of _ "x # fs"]) auto
qed

section \<open>Reading a translation\<close>

lemma tree_walk:
  assumes t: "tree_ok st xs l4 T"
  shows "T [i] = (if i < 512 \<and> present (tbl st l4 i) then Some (from_entry (tbl st l4 i)) else None)"
    "T [i] = Some a \<Longrightarrow> j < 512 \<Longrightarrow> T [i, j] = (if present (tbl st a j) then Some (from_entry (tbl st a j)) else None)"
    "T [i, j] = Some b \<Longrightarrow> k < 512 \<Longrightarrow> T [i, j, k] = (if present (tbl st b k) then Some (from_entry (tbl st b k)) else None)"
    "T [i] = None \<Longrightarrow> T [i, j] = None" "T [i, j] = None \<Longrightarrow> T [i, j, k] = None"
proof -
  show "T [i] = (if i < 512 \<and> present (tbl st l4 i) then Some (from_entry (tbl st l4 i)) else None)"
    using tree_okD(6)[OF t tree_okD(1)[OF t], of i] tree_ok_prefix[OF t, of "[]" i]
    by (cases "i < 512"; cases "T [i]") auto
  show "T [i, j] = (if present (tbl st a j) then Some (from_entry (tbl st a j)) else None)"
    if "T [i] = Some a" "j < 512" using tree_okD(6)[OF t that(1) _ that(2)] by simp
  show "T [i, j, k] = (if present (tbl st b k) then Some (from_entry (tbl st b k)) else None)"
    if "T [i, j] = Some b" "k < 512" using tree_okD(6)[OF t that(1) _ that(2)] by simp
  show "T [i] = None \<Longrightarrow> T [i, j] = None" using tree_okD(7)[OF t, of "[i]" j] by simp
  show "T [i, j] = None \<Longrightarrow> T [i, j, k] = None" using tree_okD(7)[OF t, of "[i, j]" k] by simp
qed

lemma present_zero [simp]: "\<not> present 0"
  by (simp add: present_def)

lemma is_address_mapped_leaf:
  assumes "pt_inv st xs (page_map_l4 vm) T"
  shows "is_address_mapped vm addr st = Ret (present (leaf st T addr))"
proof -
  have t: "tree_ok st xs (page_map_l4 vm) T" using assms by (simp add: pt_inv_def)
  note w = tree_walk[OF t] and r = read_entry_table[OF tree_okD(2)[OF t]]
  let ?i = "get_l4 addr" and ?j = "get_l3 addr" and ?k = "get_l2 addr"
  note r4 = r[OF tree_okD(1)[OF t] index_bounds(1)]
  show ?thesis
  proof (cases "T [?i]")
    case None
    then show ?thesis using w(1)[of ?i] w(4,5)
      by (simp add: is_address_mapped_def r4 leaf_def ltab_def walk_path_def split: if_splits)
  next
    case a: (Some a)
    then have e4: "present (tbl st (page_map_l4 vm) ?i)" "from_entry (tbl st (page_map_l4 vm) ?i) = a"
      using w(1)[of ?i] by (auto split: if_splits)
    note r3 = r[OF a index_bounds(2)]
    show ?thesis
    proof (cases "T [?i, ?j]")
      case None
      then show ?thesis using w(2)[OF a, of ?j] w(5) e4
        by (simp add: is_address_mapped_def r4 r3 leaf_def ltab_def walk_path_def split: if_splits)
    next
      case b: (Some b)
      then have e3: "present (tbl st a ?j)" "from_entry (tbl st a ?j) = b"
        using w(2)[OF a, of ?j] by (auto split: if_splits)
      note r2 = r[OF b index_bounds(3)]
      have nh: "present (tbl st b ?k) \<Longrightarrow> \<not> bit (tbl st b ?k) 7"
        using tree_okD(9)[OF t b] by simp
      show ?thesis
      proof (cases "T [?i, ?j, ?k]")
        case None
        then show ?thesis using w(3)[OF b, of ?k] e4 e3
          by (simp add: is_address_mapped_def r4 r3 r2 leaf_def ltab_def walk_path_def split: if_splits)
      next
        case c: (Some c)
        then have e2: "present (tbl st b ?k)" "from_entry (tbl st b ?k) = c"
          using w(3)[OF b, of ?k] by (auto split: if_splits)
        then show ?thesis using nh e4 e3 c huge_bit[of "tbl st b ?k"]
          by (simp add: is_address_mapped_def r4 r3 r2 r[OF c index_bounds(4)] leaf_def ltab_def walk_path_def)
      qed
    qed
  qed
qed

section \<open>Unmapping\<close>

lemma unmap_level_spec:
  assumes inv: "pt_inv st xs l4 T" "T p = Some a" "length p < 3" "T (p @ [i]) = Some b"
    and fl: "flags_ok fl" "\<not> present fl"
  shows "\<exists>st'. unmap_level st a i fl = Ret (b, st') \<and> pt_inv st' xs l4 T
    \<and> (\<forall>q j. length q = 3 \<longrightarrow> ltab st' T q j = ltab st T q j)
    \<and> (\<forall>c j. tbl st' c j = (if c = a \<and> j = i then tbl st a i AND NOT fl else tbl st c j))"
proof -
  have tree: "tree_ok st xs l4 T" and free: "free_ok st xs" using inv(1) by (auto simp: pt_inv_def)
  note tab = tree_okD(2,3)[OF tree inv(2)] and i = tree_okD(8)[OF tree inv(4)]
  let ?e = "tbl st a i" and ?st = "upd st a i (tbl st a i AND NOT fl)"
  have e: "present ?e" "from_entry ?e = b"
    using tree_okD(6)[OF tree inv(2,3) i] inv(4) by (auto split: if_splits)
  have fe: "from_entry (?e AND NOT fl) = from_entry ?e" using fl(1) by (simp add: from_entry_and_not flags_ok_def)
  have "tree_ok ?st xs l4 T"
    by (rule tree_ok_upd_flags[OF tree inv(2,3) i])
      (use e(1) fe fl(2) in \<open>simp_all add: present_bit bit_and_iff bit_not_iff\<close>)
  moreover have "unmap_level st a i fl = Ret (b, ?st)"
    using e fe i tab(1) by (simp add: unmap_level_def read_entry_table write_entry_table)
  ultimately show ?thesis
    using free_ok_upd[OF free tab(2)] ltab_upd[OF tree inv(2)] inv(3)
    by (intro exI[of _ ?st]) (auto simp: pt_inv_def tbl_upd)
qed

lemma leaf_present_path:
  assumes t: "tree_ok st xs l4 T" "present (leaf st T va)"
  obtains a b c where "T [get_l4 va] = Some a" "T [get_l4 va, get_l3 va] = Some b" "T (walk_path va) = Some c"
proof -
  obtain c where c: "T [get_l4 va, get_l3 va, get_l2 va] = Some c"
    using t(2) by (auto simp: leaf_def ltab_def walk_path_def split: option.splits)
  moreover obtain b where "T [get_l4 va, get_l3 va] = Some b"
    using tree_walk(5)[OF t(1), of "get_l4 va" "get_l3 va" "get_l2 va"] c by (cases "T [get_l4 va, get_l3 va]") auto
  moreover obtain a where "T [get_l4 va] = Some a"
    using tree_walk(4)[OF t(1), of "get_l4 va" "get_l3 va"] calculation by (cases "T [get_l4 va]") auto
  ultimately show ?thesis using that by (simp add: walk_path_def)
qed

lemma unmap_page_spec:
  assumes inv: "pt_inv st xs l4 T" "present (leaf st T va)" and fl: "flags_ok fl" "\<not> present fl"
  shows "\<exists>st'. unmap_page st l4 va fl False = Ret st' \<and> pt_inv st' xs l4 T
    \<and> leaf st' T = set_leaf (leaf st T) va 0
    \<and> tbl st' l4 (get_l4 va) = tbl st l4 (get_l4 va) AND NOT fl"
proof -
  have t: "tree_ok st xs l4 T" using inv(1) by (simp add: pt_inv_def)
  obtain a b c where p: "T [get_l4 va] = Some a" "T [get_l4 va, get_l3 va] = Some b" "T (walk_path va) = Some c"
    using leaf_present_path[OF t inv(2)] .
  have T0: "T [] = Some l4" by (rule tree_okD(1)[OF t])
  obtain st1 where s1: "unmap_level st l4 (get_l4 va) fl = Ret (a, st1)" "pt_inv st1 xs l4 T"
    "\<forall>q j. length q = 3 \<longrightarrow> ltab st1 T q j = ltab st T q j"
    "\<forall>c' j. tbl st1 c' j = (if c' = l4 \<and> j = get_l4 va then tbl st l4 (get_l4 va) AND NOT fl else tbl st c' j)"
    using unmap_level_spec[OF inv(1) T0 _ _ fl, of "get_l4 va" a] p(1) by auto
  obtain st2 where s2: "unmap_level st1 a (get_l3 va) fl = Ret (b, st2)" "pt_inv st2 xs l4 T"
    "\<forall>q j. length q = 3 \<longrightarrow> ltab st2 T q j = ltab st1 T q j"
    "\<forall>c' j. tbl st2 c' j = (if c' = a \<and> j = get_l3 va then tbl st1 a (get_l3 va) AND NOT fl else tbl st1 c' j)"
    using unmap_level_spec[OF s1(2) p(1) _ _ fl, of "get_l3 va" b] p(2) by auto
  obtain st3 where s3: "unmap_level st2 b (get_l2 va) fl = Ret (c, st3)" "pt_inv st3 xs l4 T"
    "\<forall>q j. length q = 3 \<longrightarrow> ltab st3 T q j = ltab st2 T q j"
    "\<forall>c' j. tbl st3 c' j = (if c' = b \<and> j = get_l2 va then tbl st2 b (get_l2 va) AND NOT fl else tbl st2 c' j)"
    using unmap_level_spec[OF s2(2) p(2) _ _ fl, of "get_l2 va" c] p(3) by (auto simp: walk_path_def)
  have lf: "leaf st3 T vb = leaf st T vb" for vb
    using s1(3) s2(3) s3(3) by (simp add: leaf_def walk_path_def)
  have t3: "tree_ok st3 xs l4 T" and f3: "free_ok st3 xs" using s3(2) by (auto simp: pt_inv_def)
  have pr: "present (tbl st3 c (get_l1 va))"
    using lf[of va] inv(2) p(3) by (simp add: leaf_def ltab_def)
  let ?st = "upd st3 c (get_l1 va) 0"
  have len3: "length (walk_path va) = 3" by (simp add: walk_path_def)
  note u = tree_ok_upd_leaf[OF t3 p(3) len3]
  have "unmap_page st l4 va fl False = Ret ?st"
    using s1(1) s2(1) s3(1) pr tree_okD(2)[OF t3 p(3)]
    by (simp add: unmap_page_def read_entry_table write_entry_table)
  moreover have "pt_inv ?st xs l4 T"
    using u(1) free_ok_upd[OF f3 tree_okD(3)[OF t3 p(3)]] by (simp add: pt_inv_def)
  moreover have "leaf ?st T = set_leaf (leaf st T) va 0"
  proof
    fix vb
    show "leaf ?st T vb = set_leaf (leaf st T) va 0 vb"
      using u(2)[of "get_l1 va" 0 "walk_path vb" "get_l1 vb"] lf[of vb] page_no_indices[of vb va]
      by (auto simp: leaf_def set_leaf_def)
  qed
  moreover have "a \<noteq> l4" "b \<noteq> l4" "c \<noteq> l4"
    using tree_okD(4)[OF t T0] p by (auto simp: walk_path_def)
  then have "tbl ?st l4 (get_l4 va) = tbl st l4 (get_l4 va) AND NOT fl"
    using s1(4) s2(4) s3(4) by (simp add: tbl_upd)
  ultimately show ?thesis by blast
qed

lemma unmap_loop_spec:
  assumes "pt_inv st xs l4 T" "flags_ok fl" "\<not> present fl" "va + n * PAGE_4K < usize_bound" "n \<le> 2 ^ 36"
    and "\<forall>i < n. present (leaf st T (va + i * PAGE_4K))"
  shows "\<exists>st'. unmap_loop st l4 va (n * PAGE_4K) fl False = Ret st' \<and> pt_inv st' xs l4 T
    \<and> leaf st' T = set_leaves (leaf st T) va (replicate n 0)"
  using assms
proof (induction n arbitrary: st va)
  case 0
  then show ?case by (simp add: unmap_loop.simps)
next
  case (Suc n)
  have "present (leaf st T va)" using Suc.prems(6) by (metis add.right_neutral mult_0 zero_less_Suc)
  from unmap_page_spec[OF Suc.prems(1) this Suc.prems(2,3)] obtain st1 where
    u: "unmap_page st l4 va fl False = Ret st1" and i1: "pt_inv st1 xs l4 T"
    and lf: "leaf st1 T = set_leaf (leaf st T) va 0" by blast
  have "present (leaf st1 T (va + PAGE_4K + i * PAGE_4K))" if "i < n" for i
  proof -
    have "page_no (va + Suc i * PAGE_4K) \<noteq> page_no (va + 0 * PAGE_4K)"
      using page_no_range_inj[of "Suc i" 0 va] that Suc.prems(5) by force
    then show ?thesis using Suc.prems(6)[rule_format, of "Suc i"] that
      by (simp add: lf set_leaf_def add.assoc)
  qed
  moreover have "unmap_loop st l4 va (Suc n * PAGE_4K) fl False
      = unmap_loop st1 l4 (va + PAGE_4K) (n * PAGE_4K) fl False"
    using u Suc.prems(4) by (subst unmap_loop.simps) (auto simp: unmap_loop.simps[of _ _ _ 0])
  ultimately show ?case
    using Suc.IH[OF i1 Suc.prems(2,3), of "va + PAGE_4K"] Suc.prems(4,5) lf by (simp add: add.assoc)
qed

section \<open>The operations of the mapper\<close>

text \<open>The conditions under which \<open>map\<close> accepts a range in a user address space.\<close>

definition user_range_ok :: "VirtualMemoryMapper \<Rightarrow> usize \<Rightarrow> usize \<Rightarrow> u64 \<Rightarrow> bool" where
  "user_range_ok vm va sz fl \<longleftrightarrow>
     (is_user vm \<longrightarrow> fl AND PTE_USER \<noteq> 0 \<and> get_l4 va \<noteq> KERNEL_L4_INDEX \<and> va + sz \<le> MAX_USER_VIRTUAL_ADDRESS)"

lemma vm_map_loop:
  assumes "pt_inv st xs (page_map_l4 vm) T"
    and "align_range (virtual_address en) (me_size en) PAGE_4K = Ret (va, sz, off)"
    and "user_range_ok vm va sz (me_flags en)" "va + sz < usize_bound" "0 < sz"
    and "case physical_address en of None \<Rightarrow> pa = None
         | Some p \<Rightarrow> \<exists>ps off'. align_range p (me_size en) PAGE_4K = Ret (ps, sz, off') \<and> pa = Some ps"
  shows "vm_map vm en st = map_loop st (page_map_l4 vm) va pa sz (me_flags en)"
proof -
  have "is_table st (page_map_l4 vm)"
    using tree_okD(1,2)[of st xs "page_map_l4 vm" T] assms(1) by (auto simp: pt_inv_def)
  then have l4: "as_virtual (page_map_l4 vm) = Ret (page_map_l4 vm + KERNEL_BASE)"
    "PAGE_4K dvd page_map_l4 vm + KERNEL_BASE" "page_map_l4 vm + KERNEL_BASE \<noteq> 0"
    by (auto simp: is_table_def as_virtual_table kernel_layout_defs intro!: dvd_add)
  show ?thesis
    using assms(2-6) l4
    by (cases "is_user vm"; cases "physical_address en") (auto simp: vm_map_def user_range_ok_def)
qed

lemma vm_unmap_loop:
  assumes "physical_address en = None" "0 < sz"
    and "align_range (virtual_address en) (me_size en) PAGE_4K = Ret (va, sz, off)"
  shows "vm_unmap vm en al st = unmap_loop st (page_map_l4 vm) va sz (me_flags en) al"
  using assms by (simp add: vm_unmap_def)

section \<open>Properties\<close>


text \<open>
  C18.  Mapping a range to fresh memory: every page of the range gets its own frame, the frames
  are pairwise different, were free before and are not free afterwards, and no other translation
  changes.  Memory given to a process is therefore shared with nobody.
\<close>
theorem vm_map_fresh_range:
  assumes "pt_inv st xs (page_map_l4 vm) T" and "flags_ok (me_flags en)"
    and "align_range (virtual_address en) (me_size en) PAGE_4K = Ret (va, n * PAGE_4K, off)"
    and "physical_address en = None" and "user_range_ok vm va (n * PAGE_4K) (me_flags en)"
    and "0 < n" and "n \<le> 2 ^ 36" and "4 * n \<le> length xs" and "used_count st + 4 * n < usize_bound"
    and "va + n * PAGE_4K < usize_bound"
  shows "\<exists>st' xs' T' fs. vm_map vm en st = Ret st' \<and> pt_inv st' xs' (page_map_l4 vm) T'
    \<and> length fs = n \<and> distinct fs \<and> set fs \<subseteq> set xs - set xs'
    \<and> (\<forall>i < n. \<forall>vb. page_no vb = page_no (va + i * PAGE_4K) \<longrightarrow>
          leaf st' T' vb = leaf_entry (fs ! i - KERNEL_BASE) (me_flags en))
    \<and> (\<forall>vb. (\<forall>i < n. page_no vb \<noteq> page_no (va + i * PAGE_4K)) \<longrightarrow> leaf st' T' vb = leaf st T vb)"
proof -
  have "vm_map vm en st = map_loop st (page_map_l4 vm) va None (n * PAGE_4K) (me_flags en)"
    using vm_map_loop[OF assms(1,3,5,10)] assms(4,6) by simp
  moreover obtain st' xs' T' fs where m: "map_loop st (page_map_l4 vm) va None (n * PAGE_4K) (me_flags en) = Ret st'"
    "pt_inv st' xs' (page_map_l4 vm) T'" "length fs = n" "distinct fs" "set fs \<subseteq> set xs - set xs'"
    and lf: "leaf st' T' = set_leaves (leaf st T) va (map (\<lambda>x. leaf_entry (x - KERNEL_BASE) (me_flags en)) fs)"
    using map_loop_new[OF assms(1,2,8-10)] by blast
  moreover have "leaf st' T' vb = leaf_entry (fs ! i - KERNEL_BASE) (me_flags en)"
    if "i < n" "page_no vb = page_no (va + i * PAGE_4K)" for i vb
    using set_leaves_at[of i _ vb va "leaf st T"] that assms(7) lf m(3) by simp
  moreover have "leaf st' T' vb = leaf st T vb" if "\<forall>i < n. page_no vb \<noteq> page_no (va + i * PAGE_4K)" for vb
    using set_leaves_other[of _ vb va "leaf st T"] that lf m(3) by simp
  ultimately show ?thesis
    by (intro exI[of _ st'] exI[of _ xs'] exI[of _ T'] exI[of _ fs]) auto
qed


text \<open>
  C20.  The walk that should release all user memory of a process visits the entries below the
  first level 4 entry only: the count of level 3 entries to take is applied to the flattened
  sequence, not to each table, and 512 entries are the ones of one table.  What is mapped through
  the other 510 user entries, such as the user stack, is never visited.
\<close>
theorem user_walk_visits_first_entry_only:
  "do_for_every_user_entry vm f st =
     bind_exec (read_entry st (page_map_l4 vm) 0) (\<lambda>e.
       for_present st (from_entry e) [0..<512] (visit_l3_entry f))"
proof -
  have "0 + 511 \<le> (512 :: nat)" "0 < (511 :: nat)" "0 + 512 \<le> (512 :: nat)" by simp_all
  note upt = take_upt[OF this(1)] upt_conv_Cons[OF this(2)] take_upt[OF this(3)]
  have l4s: "take 511 [0..<512] = 0 # [Suc 0..<511]" and js: "take 512 [0..<512] = [0..<512]"
    by (simp_all only: upt add_0)
  have stop: "l3_window st' l4 is k 0 f = Ret st'" for st' l4 "is" k by (cases "is") auto
  have "do_for_every_user_entry vm f st = l3_window st (page_map_l4 vm) (take 511 [0..<512]) 0 512 f"
    by (simp add: do_for_every_user_entry_def do_for_ranges_entries_def NUM_USER_L4_INDEXES_def
        KERNEL_L4_INDEX_def del: upt_rec_numeral take_upt)
  then show ?thesis
    by (simp add: l4s js stop Let_def del: upt_rec_numeral take_upt)
qed


section \<open>Witnesses\<close>

text \<open>An empty level 4 table at 0x1000 and four free pages after it.\<close>

definition ex_free :: "usize list" where
  "ex_free = [KERNEL_BASE + 0x5000, KERNEL_BASE + 0x4000, KERNEL_BASE + 0x3000, KERNEL_BASE + 0x2000]"

definition ex_phys :: PhysicalPageAllocator where
  "ex_phys = \<lparr>low_mem_free_list_head = Some (KERNEL_BASE + 0x5000), high_mem_start = 0,
     pa_start = KERNEL_BASE + 0x2000, pa_end = KERNEL_BASE + 0x6000, free_count = 4, used_count = 0,
     pages = (\<lambda>_. page_fill 0)(KERNEL_BASE + 0x2000 := FreePage None,
       KERNEL_BASE + 0x3000 := FreePage (Some (KERNEL_BASE + 0x2000)),
       KERNEL_BASE + 0x4000 := FreePage (Some (KERNEL_BASE + 0x3000)),
       KERNEL_BASE + 0x5000 := FreePage (Some (KERNEL_BASE + 0x4000)))\<rparr>"

definition ex_vm :: VirtualMemoryMapper where
  "ex_vm = \<lparr>page_map_l4 = 0x1000, is_user = False\<rparr>"

definition ex_entry :: "usize option \<Rightarrow> VirtualMemoryMapEntry" where
  "ex_entry p = \<lparr>virtual_address = 0x400010, physical_address = p, me_size = 0x10, me_flags = PTE_WRITABLE\<rparr>"

definition ex_tree :: tree where
  "ex_tree = [[] \<mapsto> 0x1000]"

lemma ex_pt_inv: "pt_inv ex_phys ex_free (page_map_l4 ex_vm) ex_tree"
proof -
  have "free_ok ex_phys ex_free"
    by (simp add: free_ok_def phys_inv_def ex_phys_def ex_free_def valid_page_def direct_mapped_def
        kernel_layout_defs)
  moreover have z: "tbl ex_phys 0x1000 i = 0" for i
    by (simp add: tbl_def ex_phys_def page_fill_def kernel_layout_defs)
  have "tree_ok ex_phys ex_free 0x1000 ex_tree"
    by (rule tree_okI) (auto simp: ex_tree_def z is_table_def ex_phys_def ex_free_def page_fill_def
        kernel_layout_defs split: if_splits)
  ultimately show ?thesis by (simp add: pt_inv_def ex_vm_def)
qed

lemma ex_flags: "flags_ok PTE_WRITABLE" "\<not> present PTE_WRITABLE"
  by (simp_all add: flags_ok_def PTE_WRITABLE_def ADDR_MASK_def present_def PTE_PRESENT_def)

lemma ex_align: "align_range 0x400010 0x10 PAGE_4K = Ret (0x400000, 1 * PAGE_4K, 0x10)"
  "align_range 0x10010 0x10 PAGE_4K = Ret (0x10000, 1 * PAGE_4K, 0x10)"
  by (simp_all add: align_range_def align_up_page align_down_page usize_bound_def PAGE_4K_def
      is_aligned_page[unfolded PAGE_4K_def] align_up_page[unfolded PAGE_4K_def]
      align_down_page[unfolded PAGE_4K_def] usize_add_def usize_sub_def)

lemmas ex_simps = ex_entry_def ex_free_def ex_phys_def ex_vm_def user_range_ok_def usize_bound_def
  PAGE_4K_def


theorem vm_map_fresh_range_witness:
  "\<exists>st' xs' T' fs. vm_map ex_vm (ex_entry None) ex_phys = Ret st'
    \<and> pt_inv st' xs' (page_map_l4 ex_vm) T'
    \<and> length fs = 1 \<and> distinct fs \<and> set fs \<subseteq> set ex_free - set xs'
    \<and> (\<forall>i < 1. \<forall>vb. page_no vb = page_no (0x400000 + i * PAGE_4K) \<longrightarrow>
          leaf st' T' vb = leaf_entry (fs ! i - KERNEL_BASE) (me_flags (ex_entry None)))
    \<and> (\<forall>vb. (\<forall>i < 1. page_no vb \<noteq> page_no (0x400000 + i * PAGE_4K)) \<longrightarrow>
          leaf st' T' vb = leaf ex_phys ex_tree vb)"
  by (rule vm_map_fresh_range[OF ex_pt_inv, of _ "0x400000" 1 "0x10"])
    (use ex_flags ex_align in \<open>simp_all add: ex_simps\<close>)

text \<open>A state with one page mapped, for the two properties of unmapping.\<close>

lemma ex_mapped:
  obtains st xs T where "pt_inv st xs (page_map_l4 ex_vm) T" "present (leaf st T 0x400000)"
proof -
  have "3 \<le> length ex_free" "used_count ex_phys + 3 < usize_bound" by (simp_all add: ex_simps)
  from map_page_at[OF ex_pt_inv ex_flags(1) this, of "0x400000" "0x10000"] obtain st xs T where
    "pt_inv st xs (page_map_l4 ex_vm) T"
    "leaf st T = set_leaf (leaf ex_phys ex_tree) 0x400000 (leaf_entry 0x10000 PTE_WRITABLE)" by blast
  then show ?thesis using that by (simp add: set_leaf_def present_leaf_entry)
qed



end
