(* ===== verification/Spin_Locks.thy ===== *)
theory Spin_Locks
  imports Prelude "HOL-Library.Word"
begin

text \<open>
  Model of kernel/src/sync/spin (lock.rs, mutex.rs, rwlock.rs, remutex.rs) and of the interrupt
  nesting of kernel/src/cpu/mod.rs.  Every operation is cut at its accesses to the shared atomics:
  between two of them a CPU is at a program point \<open>pc\<close>, and any other CPU may take its own step.
  What a CPU does on its own registers happens together with the access it follows or precedes.
  \<open>compare_exchange_weak\<close> may fail spuriously; the failure is an argument of the step.
\<close>

section \<open>Interrupt nesting of a CPU\<close>

datatype pc = Idle | Acquiring bool | Spinning | Acquired | Disowning | Unlocking
  | ReadAcquiring bool | ReadSpinning | ReadAcquired

record cpu =
  cpu_id :: usize
  n_cli :: usize
  old_interrupt_enable :: bool
  interrupt_flag :: bool
  pc :: pc
  guards :: nat
  read_guards :: nat

definition push_cli :: "'a cpu_scheme \<Rightarrow> 'a cpu_scheme exec" where
  "push_cli c =
     (let c1 = (if n_cli c = 0
                then c\<lparr>interrupt_flag := False, old_interrupt_enable := interrupt_flag c\<rparr> else c) in
      assert_exec (n_cli c1 < usize_bound - 1)
     (assert_exec (\<not> interrupt_flag c1)
        (Ret (c1\<lparr>n_cli := n_cli c1 + 1\<rparr>))))"

definition pop_cli :: "'a cpu_scheme \<Rightarrow> 'a cpu_scheme exec" where
  "pop_cli c =
     assert_exec (n_cli c > 0)
    (assert_exec (\<not> interrupt_flag c)
       (let c1 = c\<lparr>n_cli := n_cli c - 1\<rparr> in
        Ret (if n_cli c1 = 0 \<and> old_interrupt_enable c1 then c1\<lparr>interrupt_flag := True\<rparr> else c1)))"

definition interrupts_disabled :: "'a cpu_scheme \<Rightarrow> bool" where
  "interrupts_disabled c = (\<not> interrupt_flag c)"

section \<open>The lock word\<close>

definition UNLOCKED :: u64 where "UNLOCKED = 0"
definition READ_LOCKED :: u64 where "READ_LOCKED = 1"
definition MASK :: u64 where "MASK = push_bit 30 1 - 1"
definition WRITE_LOCKED :: u64 where "WRITE_LOCKED = MASK"
definition MAX_READERS :: u64 where "MAX_READERS = MASK - 1"

definition is_read_lockable :: "u64 \<Rightarrow> bool" where
  "is_read_lockable state = (and state MASK < MAX_READERS)"

definition try_read_lock :: "u64 \<Rightarrow> bool \<times> u64" where
  "try_read_lock s = (if is_read_lockable s then (True, s + READ_LOCKED) else (False, s))"

definition read_unlock :: "u64 \<Rightarrow> u64" where
  "read_unlock s = s - READ_LOCKED"

definition try_write_lock :: "bool \<Rightarrow> u64 \<Rightarrow> bool \<times> u64" where
  "try_write_lock spurious s =
     (if s = UNLOCKED \<and> \<not> spurious then (True, WRITE_LOCKED) else (False, s))"

definition write_unlock :: "u64 \<Rightarrow> u64 exec" where
  "write_unlock s =
     (if s < WRITE_LOCKED then Panic Overflow
      else assert_exec (s - WRITE_LOCKED = UNLOCKED) (Ret (s - WRITE_LOCKED)))"

section \<open>The operations, cut at their shared accesses\<close>

datatype lock_kind = Mutex | RwLock | ReMutex

record shared_lock =
  state :: u64
  owner_cpu :: int
  lock_count :: usize

definition new_lock :: shared_lock where
  "new_lock = \<lparr>state = UNLOCKED, owner_cpu = - 1, lock_count = 0\<rparr>"

type_synonym 'a lock_step = "(shared_lock \<times> 'a cpu_scheme) exec"

definition mutex_lock :: "shared_lock \<Rightarrow> 'a cpu_scheme \<Rightarrow> 'a lock_step" where
  "mutex_lock l c =
     bind_exec (push_cli c) (\<lambda>c1.
     if owner_cpu l = int (cpu_id c1) then Panic (Explicit ''Mutex already locked by this CPU'')
     else Ret (l, c1\<lparr>pc := Acquiring True\<rparr>))"

definition mutex_try_lock :: "shared_lock \<Rightarrow> 'a cpu_scheme \<Rightarrow> 'a lock_step" where
  "mutex_try_lock l c =
     bind_exec (push_cli c) (\<lambda>c1.
     if owner_cpu l = int (cpu_id c1) then bind_exec (pop_cli c1) (\<lambda>c2. Ret (l, c2))
     else Ret (l, c1\<lparr>pc := Acquiring False\<rparr>))"

definition rwlock_write :: "shared_lock \<Rightarrow> 'a cpu_scheme \<Rightarrow> 'a lock_step" where
  "rwlock_write l c =
     bind_exec (push_cli c) (\<lambda>c1.
     if owner_cpu l = int (cpu_id c1) then Panic (Explicit ''Mutex already locked by this CPU'')
     else Ret (l, c1\<lparr>pc := Acquiring True\<rparr>))"

definition rwlock_try_write :: "shared_lock \<Rightarrow> 'a cpu_scheme \<Rightarrow> 'a lock_step" where
  "rwlock_try_write l c =
     bind_exec (push_cli c) (\<lambda>c1.
     if owner_cpu l = int (cpu_id c1) then bind_exec (pop_cli c1) (\<lambda>c2. Ret (l, c2))
     else Ret (l, c1\<lparr>pc := Acquiring False\<rparr>))"

definition reenter :: "shared_lock \<Rightarrow> 'a cpu_scheme \<Rightarrow> 'a lock_step" where
  "reenter l c =
     (if lock_count l + 1 < usize_bound
      then Ret (l\<lparr>lock_count := lock_count l + 1\<rparr>, c\<lparr>guards := guards c + 1\<rparr>)
      else Panic (Explicit ''ReMutex lock count overflow''))"

definition remutex_lock :: "shared_lock \<Rightarrow> 'a cpu_scheme \<Rightarrow> 'a lock_step" where
  "remutex_lock l c =
     bind_exec (push_cli c) (\<lambda>c1.
     if owner_cpu l = int (cpu_id c1)
     then assert_exec (lock_count l > 0)
         (assert_exec (n_cli c1 > 0 \<and> interrupts_disabled c1) (reenter l c1))
     else Ret (l, c1\<lparr>pc := Acquiring True\<rparr>))"

definition remutex_try_lock :: "shared_lock \<Rightarrow> 'a cpu_scheme \<Rightarrow> 'a lock_step" where
  "remutex_try_lock l c =
     bind_exec (push_cli c) (\<lambda>c1.
     if owner_cpu l = int (cpu_id c1) then assert_exec (lock_count l > 0) (reenter l c1)
     else Ret (l, c1\<lparr>pc := Acquiring False\<rparr>))"

text \<open>
  The compare-and-exchange of \<open>lock\<close> (blocking) and \<open>try_lock\<close>.  A failed \<open>try_lock\<close> of a
  \<open>Mutex\<close> or \<open>RwLock\<close> undoes its \<open>push_cli\<close>; the one of a \<open>ReMutex\<close> returns at once.
\<close>

definition acquire :: "lock_kind \<Rightarrow> bool \<Rightarrow> bool \<Rightarrow> shared_lock \<Rightarrow> 'a cpu_scheme \<Rightarrow> 'a lock_step" where
  "acquire k blocking spurious l c =
     (case try_write_lock spurious (state l) of
        (True, s) \<Rightarrow> Ret (l\<lparr>state := s\<rparr>, c\<lparr>pc := Acquired\<rparr>)
      | (False, _) \<Rightarrow>
          if blocking then Ret (l, c\<lparr>pc := Spinning\<rparr>)
          else if k = ReMutex then Ret (l, c\<lparr>pc := Idle\<rparr>)
          else bind_exec (pop_cli c) (\<lambda>c1. Ret (l, c1\<lparr>pc := Idle\<rparr>)))"

definition spin_write :: "shared_lock \<Rightarrow> 'a cpu_scheme \<Rightarrow> 'a lock_step" where
  "spin_write l c = Ret (l, if state l \<noteq> UNLOCKED then c else c\<lparr>pc := Acquiring True\<rparr>)"

definition take_ownership :: "lock_kind \<Rightarrow> shared_lock \<Rightarrow> 'a cpu_scheme \<Rightarrow> 'a lock_step" where
  "take_ownership k l c =
     Ret (l\<lparr>owner_cpu := int (cpu_id c), lock_count := (if k = ReMutex then 1 else lock_count l)\<rparr>,
          c\<lparr>pc := Idle, guards := guards c + 1\<rparr>)"

definition mutex_drop :: "shared_lock \<Rightarrow> 'a cpu_scheme \<Rightarrow> 'a lock_step" where
  "mutex_drop l c = Ret (l\<lparr>owner_cpu := - 1\<rparr>, c\<lparr>pc := Unlocking, guards := guards c - 1\<rparr>)"

definition rwlock_drop_write :: "shared_lock \<Rightarrow> 'a cpu_scheme \<Rightarrow> 'a lock_step" where
  "rwlock_drop_write l c =
     assert_exec (owner_cpu l \<noteq> - 1) (Ret (l, c\<lparr>pc := Disowning, guards := guards c - 1\<rparr>))"

definition disown :: "shared_lock \<Rightarrow> 'a cpu_scheme \<Rightarrow> 'a lock_step" where
  "disown l c = Ret (l\<lparr>owner_cpu := - 1\<rparr>, c\<lparr>pc := Unlocking\<rparr>)"

definition remutex_drop :: "shared_lock \<Rightarrow> 'a cpu_scheme \<Rightarrow> 'a lock_step" where
  "remutex_drop l c =
     (if lock_count l = 0 then Panic (Explicit ''ReMutex lock count underflow'')
      else let l1 = l\<lparr>lock_count := lock_count l - 1\<rparr>; c1 = c\<lparr>guards := guards c - 1\<rparr> in
        if lock_count l1 = 0 then Ret (l1\<lparr>owner_cpu := - 1\<rparr>, c1\<lparr>pc := Unlocking\<rparr>)
        else bind_exec (pop_cli c1) (\<lambda>c2. Ret (l1, c2)))"

definition unlock_and_leave :: "shared_lock \<Rightarrow> 'a cpu_scheme \<Rightarrow> 'a lock_step" where
  "unlock_and_leave l c =
     bind_exec (write_unlock (state l)) (\<lambda>s.
     bind_exec (pop_cli c) (\<lambda>c1. Ret (l\<lparr>state := s\<rparr>, c1\<lparr>pc := Idle\<rparr>)))"

text \<open>Readers: \<open>read\<close> and \<open>try_read\<close> acquire, store \<open>-1\<close> as the owner and return a guard.\<close>

definition read_acquire :: "bool \<Rightarrow> shared_lock \<Rightarrow> 'a cpu_scheme \<Rightarrow> 'a lock_step" where
  "read_acquire blocking l c =
     (case try_read_lock (state l) of
        (True, s) \<Rightarrow> Ret (l\<lparr>state := s\<rparr>, c\<lparr>pc := ReadAcquired\<rparr>)
      | (False, _) \<Rightarrow> Ret (l, c\<lparr>pc := (if blocking then ReadSpinning else Idle)\<rparr>))"

definition spin_read :: "shared_lock \<Rightarrow> 'a cpu_scheme \<Rightarrow> 'a lock_step" where
  "spin_read l c = Ret (l, if is_read_lockable (state l) then c\<lparr>pc := ReadAcquiring True\<rparr> else c)"

definition read_return :: "shared_lock \<Rightarrow> 'a cpu_scheme \<Rightarrow> 'a lock_step" where
  "read_return l c =
     Ret (l\<lparr>owner_cpu := - 1\<rparr>, c\<lparr>pc := Idle, read_guards := read_guards c + 1\<rparr>)"

definition drop_read :: "shared_lock \<Rightarrow> 'a cpu_scheme \<Rightarrow> 'a lock_step" where
  "drop_read l c =
     Ret (l\<lparr>state := read_unlock (state l)\<rparr>, c\<lparr>read_guards := read_guards c - 1\<rparr>)"

section \<open>All CPUs together\<close>

text \<open>
  What a CPU may do next.  Between operations it calls one, or drops a guard it holds (a guard is
  dropped at most once, by its scope); inside an operation it goes on.
\<close>

datatype action = CallLock | CallTryLock | CallRead | CallTryRead | DropGuard | DropReadGuard | Go bool

fun lock_action :: "lock_kind \<Rightarrow> action \<Rightarrow> shared_lock \<Rightarrow> 'a cpu_scheme \<Rightarrow> 'a lock_step option" where
  "lock_action k CallLock l c =
     (if pc c \<noteq> Idle then None
      else Some (case k of Mutex \<Rightarrow> mutex_lock l c | RwLock \<Rightarrow> rwlock_write l c
                         | ReMutex \<Rightarrow> remutex_lock l c))"
| "lock_action k CallTryLock l c =
     (if pc c \<noteq> Idle then None
      else Some (case k of Mutex \<Rightarrow> mutex_try_lock l c | RwLock \<Rightarrow> rwlock_try_write l c
                         | ReMutex \<Rightarrow> remutex_try_lock l c))"
| "lock_action k CallRead l c =
     (if pc c \<noteq> Idle \<or> k \<noteq> RwLock then None else Some (Ret (l, c\<lparr>pc := ReadAcquiring True\<rparr>)))"
| "lock_action k CallTryRead l c =
     (if pc c \<noteq> Idle \<or> k \<noteq> RwLock then None else Some (Ret (l, c\<lparr>pc := ReadAcquiring False\<rparr>)))"
| "lock_action k DropGuard l c =
     (if pc c \<noteq> Idle \<or> guards c = 0 then None
      else Some (case k of Mutex \<Rightarrow> mutex_drop l c | RwLock \<Rightarrow> rwlock_drop_write l c
                         | ReMutex \<Rightarrow> remutex_drop l c))"
| "lock_action k DropReadGuard l c =
     (if pc c \<noteq> Idle \<or> read_guards c = 0 then None else Some (drop_read l c))"
| "lock_action k (Go spurious) l c =
     (case pc c of
        Idle \<Rightarrow> None
      | Acquiring blocking \<Rightarrow> Some (acquire k blocking spurious l c)
      | Spinning \<Rightarrow> Some (spin_write l c)
      | Acquired \<Rightarrow> Some (take_ownership k l c)
      | Disowning \<Rightarrow> Some (disown l c)
      | Unlocking \<Rightarrow> Some (unlock_and_leave l c)
      | ReadAcquiring blocking \<Rightarrow> Some (read_acquire blocking l c)
      | ReadSpinning \<Rightarrow> Some (spin_read l c)
      | ReadAcquired \<Rightarrow> Some (read_return l c))"

type_synonym lock_sys = "shared_lock \<times> cpu list"

definition start_cpu :: "usize \<Rightarrow> cpu" where
  "start_cpu i = \<lparr>cpu_id = i, n_cli = 0, old_interrupt_enable = False, interrupt_flag = True,
     pc = Idle, guards = 0, read_guards = 0\<rparr>"

inductive lock_reach :: "lock_kind \<Rightarrow> nat \<Rightarrow> lock_sys \<Rightarrow> bool" for k n where
  lock_start: "lock_reach k n (new_lock, map start_cpu [0..<n])"
| lock_step: "lock_reach k n (l, cs) \<Longrightarrow> i < length cs
    \<Longrightarrow> lock_action k a l (cs ! i) = Some (Ret (l', c')) \<Longrightarrow> lock_reach k n (l', cs[i := c'])"

section \<open>The invariant\<close>

definition holds :: "cpu \<Rightarrow> bool" where
  "holds c \<longleftrightarrow> 0 < guards c \<or> pc c = Acquired \<or> pc c = Disowning \<or> pc c = Unlocking"

definition owns :: "cpu \<Rightarrow> bool" where
  "owns c \<longleftrightarrow> 0 < guards c \<or> pc c = Disowning"

definition read_holds :: "cpu \<Rightarrow> nat" where
  "read_holds c = read_guards c + (if pc c = ReadAcquired then 1 else 0)"

definition readers :: "cpu list \<Rightarrow> nat" where
  "readers cs = sum_list (map read_holds cs)"

definition cli_need :: "cpu \<Rightarrow> nat" where
  "cli_need c = guards c
     + (case pc c of Acquiring _ \<Rightarrow> 1 | Spinning \<Rightarrow> 1 | Acquired \<Rightarrow> 1 | Disowning \<Rightarrow> 1 | Unlocking \<Rightarrow> 1 | _ \<Rightarrow> 0)"

definition cpu_ok :: "lock_kind \<Rightarrow> cpu \<Rightarrow> bool" where
  "cpu_ok k c \<longleftrightarrow>
     (0 < guards c \<longrightarrow> (case pc c of Idle \<Rightarrow> True | ReadAcquiring _ \<Rightarrow> True | ReadSpinning \<Rightarrow> True | _ \<Rightarrow> False))
   \<and> (0 < n_cli c \<longrightarrow> \<not> interrupt_flag c) \<and> cli_need c \<le> n_cli c
   \<and> (k \<noteq> ReMutex \<longrightarrow> guards c \<le> 1 \<and> n_cli c = cli_need c
        \<and> interrupt_flag c = (n_cli c = 0) \<and> (0 < n_cli c \<longrightarrow> old_interrupt_enable c))"

definition free_inv :: "shared_lock \<Rightarrow> cpu list \<Rightarrow> bool" where
  "free_inv l cs \<longleftrightarrow> unat (state l) = readers cs \<and> readers cs \<le> unat MAX_READERS \<and> owner_cpu l = - 1
     \<and> (\<forall>j < length cs. \<not> holds (cs ! j))"

definition held_inv :: "lock_kind \<Rightarrow> nat \<Rightarrow> shared_lock \<Rightarrow> cpu list \<Rightarrow> bool" where
  "held_inv k i l cs \<longleftrightarrow> i < length cs \<and> state l = WRITE_LOCKED \<and> readers cs = 0 \<and> holds (cs ! i)
     \<and> (\<forall>j < length cs. j \<noteq> i \<longrightarrow> \<not> holds (cs ! j))
     \<and> owner_cpu l = (if owns (cs ! i) then int i else - 1)
     \<and> (k = ReMutex \<longrightarrow> 0 < guards (cs ! i) \<longrightarrow> lock_count l = guards (cs ! i))"

definition lock_inv :: "lock_kind \<Rightarrow> shared_lock \<Rightarrow> cpu list \<Rightarrow> bool" where
  "lock_inv k l cs \<longleftrightarrow> (\<forall>j < length cs. cpu_id (cs ! j) = j \<and> cpu_ok k (cs ! j))
     \<and> (free_inv l cs \<or> (\<exists>i. held_inv k i l cs))"

section \<open>Lemmas on the lock word\<close>

lemma lock_words [simp]: "UNLOCKED = 0" "READ_LOCKED = 1" "WRITE_LOCKED = 0x3FFFFFFF" "MAX_READERS = 0x3FFFFFFE"
    "MASK = 0x3FFFFFFF"
  by (simp_all add: UNLOCKED_def READ_LOCKED_def MASK_def WRITE_LOCKED_def MAX_READERS_def)

lemma MASK_mask: "(0x3FFFFFFF :: u64) = mask 30"
  by (simp add: mask_eq_exp_minus_1)

lemma is_read_lockable_iff:
  assumes "unat s \<le> 0x3FFFFFFF"
  shows "is_read_lockable s \<longleftrightarrow> unat s < 0x3FFFFFFE"
proof -
  have "and s 0x3FFFFFFF = take_bit 30 s" by (simp add: MASK_mask take_bit_eq_mask ac_simps)
  also have "\<dots> = s"
    using assms by (simp add: word_unat_eq_iff unsigned_take_bit_eq take_bit_nat_eq_self)
  finally show ?thesis by (simp add: is_read_lockable_def word_less_nat_alt)
qed

lemma not_lockable_write: "\<not> is_read_lockable 0x3FFFFFFF"
  by (simp add: is_read_lockable_def)

section \<open>Lemmas on the readers\<close>

lemma readers_update:
  assumes "i < length cs"
  shows "readers (cs[i := c]) + read_holds (cs ! i) = readers cs + read_holds c"
  using assms unfolding readers_def
  by (induction cs arbitrary: i) (auto split: nat.splits)

lemma readers_same: "i < length cs \<Longrightarrow> read_holds c = read_holds (cs ! i) \<Longrightarrow> readers (cs[i := c]) = readers cs"
  using readers_update[of i cs c] by simp

lemma readers_pos: "i < length cs \<Longrightarrow> read_holds (cs ! i) \<le> readers cs"
  unfolding readers_def by (simp add: member_le_sum_list)

section \<open>Kinds of steps\<close>

text \<open>A step that changes nothing another CPU can see.\<close>

lemma lock_inv_local:
  assumes "lock_inv k l cs" "i < length cs" "cpu_id c' = cpu_id (cs ! i)" "cpu_ok k c'"
    and "holds c' = holds (cs ! i)" "owns c' = owns (cs ! i)" "read_holds c' = read_holds (cs ! i)"
    and "guards c' = guards (cs ! i)"
  shows "lock_inv k l (cs[i := c'])"
proof -
  have r: "readers (cs[i := c']) = readers cs" by (rule readers_same[OF assms(2,7)])
  have "free_inv l cs \<Longrightarrow> free_inv l (cs[i := c'])"
    using assms(2,5) by (auto simp: free_inv_def r nth_list_update)
  moreover have "held_inv k h l cs \<Longrightarrow> held_inv k h l (cs[i := c'])" for h
    using assms(2,5,6,8) by (auto simp: held_inv_def r nth_list_update)
  ultimately show ?thesis using assms(1-4) by (auto simp: lock_inv_def nth_list_update)
qed

lemma lock_inv_acquire:
  assumes "lock_inv k l cs" "i < length cs" "cpu_id c' = cpu_id (cs ! i)" "cpu_ok k c'"
    and "state l = 0" "holds c'" "\<not> owns c'" "read_holds c' = read_holds (cs ! i)" "guards c' = 0"
  shows "lock_inv k (l\<lparr>state := WRITE_LOCKED\<rparr>) (cs[i := c'])"
proof -
  have r: "readers (cs[i := c']) = readers cs" by (rule readers_same[OF assms(2,8)])
  have "free_inv l cs" using assms(1,5) by (auto simp: lock_inv_def held_inv_def)
  then have "held_inv k i (l\<lparr>state := WRITE_LOCKED\<rparr>) (cs[i := c'])"
    using assms(2,5-9) by (auto simp: held_inv_def free_inv_def r nth_list_update)
  then show ?thesis using assms(1-4) by (auto simp: lock_inv_def nth_list_update)
qed

lemma lock_inv_holds:
  assumes "lock_inv k l cs" "i < length cs" "holds (cs ! i)"
  shows "held_inv k i l cs"
proof -
  have "\<not> free_inv l cs" using assms by (auto simp: free_inv_def)
  then obtain h where h: "held_inv k h l cs" using assms(1) by (auto simp: lock_inv_def)
  then have "h = i" using assms(2,3) by (auto simp: held_inv_def)
  with h show ?thesis by simp
qed

lemma lock_inv_hold:
  assumes "lock_inv k l cs" "i < length cs" "cpu_id c' = cpu_id (cs ! i)" "cpu_ok k c'"
    and "holds (cs ! i)" "holds c'" "read_holds c' = read_holds (cs ! i)" "state l' = state l"
    and "owner_cpu l' = (if owns c' then int i else - 1)"
    and "k = ReMutex \<Longrightarrow> 0 < guards c' \<Longrightarrow> lock_count l' = guards c'"
  shows "lock_inv k l' (cs[i := c'])"
proof -
  have r: "readers (cs[i := c']) = readers cs" by (rule readers_same[OF assms(2,7)])
  have "held_inv k i l cs" by (rule lock_inv_holds[OF assms(1,2,5)])
  then have "held_inv k i l' (cs[i := c'])"
    using assms(2,6-10) by (auto simp: held_inv_def r nth_list_update)
  then show ?thesis using assms(1-4) by (auto simp: lock_inv_def nth_list_update)
qed

lemma lock_inv_release:
  assumes "lock_inv k l cs" "i < length cs" "cpu_id c' = cpu_id (cs ! i)" "cpu_ok k c'"
    and "holds (cs ! i)" "\<not> owns (cs ! i)" "\<not> holds c'" "read_holds c' = read_holds (cs ! i)"
  shows "lock_inv k (l\<lparr>state := 0\<rparr>) (cs[i := c'])"
proof -
  have r: "readers (cs[i := c']) = readers cs" by (rule readers_same[OF assms(2,8)])
  have "held_inv k i l cs" by (rule lock_inv_holds[OF assms(1,2,5)])
  then have "free_inv (l\<lparr>state := 0\<rparr>) (cs[i := c'])"
    using assms(2,6-8) by (auto simp: held_inv_def free_inv_def r nth_list_update)
  then show ?thesis using assms(1-4) by (auto simp: lock_inv_def nth_list_update)
qed

text \<open>A reader comes or goes: no CPU can hold the lock for writing.\<close>

lemma lock_inv_no_writer:
  assumes "lock_inv k l cs" "i < length cs" "0 < read_holds (cs ! i) \<or> is_read_lockable (state l)"
  shows "free_inv l cs"
proof -
  have "0 < readers cs \<or> is_read_lockable (state l)" using assms(2,3) readers_pos[of i cs] by linarith
  then show ?thesis using assms(1) not_lockable_write by (auto simp: lock_inv_def held_inv_def)
qed

lemma lock_inv_reader:
  assumes "lock_inv k l cs" "i < length cs" "cpu_id c' = cpu_id (cs ! i)" "cpu_ok k c'"
    and "free_inv l cs" "\<not> holds c'" "owner_cpu l' = - 1"
    and "unat (state l') + read_holds (cs ! i) = unat (state l) + read_holds c'"
    and "unat (state l') \<le> unat MAX_READERS"
  shows "lock_inv k l' (cs[i := c'])"
proof -
  have "unat (state l') = readers (cs[i := c'])"
    using readers_update[OF assms(2), of c'] assms(5,8) by (simp add: free_inv_def)
  then have "free_inv l' (cs[i := c'])"
    using assms(2,5-9) by (auto simp: free_inv_def nth_list_update)
  then show ?thesis using assms(1-4) by (auto simp: lock_inv_def nth_list_update)
qed

section \<open>Every step keeps the invariant\<close>

lemma lock_inv_cpu:
  "lock_inv k l cs \<Longrightarrow> i < length cs \<Longrightarrow> cpu_ok k (cs ! i) \<and> cpu_id (cs ! i) = i"
  by (auto simp: lock_inv_def)

lemma owner_iff:
  assumes "lock_inv k l cs" "i < length cs"
  shows "owner_cpu l = int (cpu_id (cs ! i)) \<longleftrightarrow> owns (cs ! i)"
proof -
  have oh: "owns c \<Longrightarrow> holds c" for c by (auto simp: owns_def holds_def)
  have "cpu_id (cs ! i) = i" using lock_inv_cpu[OF assms] by simp
  then show ?thesis
    using assms oh by (auto simp: lock_inv_def free_inv_def held_inv_def split: if_splits)
qed

lemma push_cli_Ret:
  "push_cli c = Ret c' \<longleftrightarrow> n_cli c < usize_bound - 1 \<and> (0 < n_cli c \<longrightarrow> \<not> interrupt_flag c)
     \<and> c' = c\<lparr>n_cli := n_cli c + 1, interrupt_flag := False,
              old_interrupt_enable := (if n_cli c = 0 then interrupt_flag c else old_interrupt_enable c)\<rparr>"
  by (auto simp: push_cli_def Let_def exec_simps)

lemma pop_cli_Ret:
  "pop_cli c = Ret c' \<longleftrightarrow> 0 < n_cli c \<and> \<not> interrupt_flag c
     \<and> c' = c\<lparr>n_cli := n_cli c - 1, interrupt_flag := (n_cli c = 1 \<and> old_interrupt_enable c)\<rparr>"
  by (auto simp: pop_cli_def Let_def exec_simps)

lemmas cpu_facts = cpu_ok_def cli_need_def holds_def owns_def read_holds_def

lemma mutex_lock_inv:
  assumes "lock_inv k l cs" "i < length cs" "pc (cs ! i) = Idle" "mutex_lock l (cs ! i) = Ret (l', c')"
  shows "lock_inv k l' (cs[i := c'])"
proof -
  have no: "\<not> owns (cs ! i)" and l': "l' = l"
    using assms(4) owner_iff[OF assms(1,2)]
    by (auto simp: mutex_lock_def exec_simps push_cli_Ret split: if_splits)
  show ?thesis unfolding l'
    by (rule lock_inv_local[OF assms(1,2)])
      (use assms(3,4) no lock_inv_cpu[OF assms(1,2)] in
        \<open>auto simp: mutex_lock_def exec_simps push_cli_Ret cpu_facts split: if_splits\<close>)
qed

lemma mutex_try_lock_inv:
  assumes "lock_inv k l cs" "i < length cs" "pc (cs ! i) = Idle" "k \<noteq> ReMutex"
    and "mutex_try_lock l (cs ! i) = Ret (l', c')"
  shows "lock_inv k l' (cs[i := c'])"
proof -
  have l': "l' = l"
    using assms(5) by (auto simp: mutex_try_lock_def exec_simps split: if_splits)
  show ?thesis unfolding l'
    by (rule lock_inv_local[OF assms(1,2)])
      (use assms(3-5) owner_iff[OF assms(1,2)] lock_inv_cpu[OF assms(1,2)] in
        \<open>auto simp: mutex_try_lock_def exec_simps push_cli_Ret pop_cli_Ret cpu_facts split: if_splits\<close>)
qed

lemma rwlock_write_eq: "rwlock_write l c = mutex_lock l c"
  by (simp add: rwlock_write_def mutex_lock_def)

lemma rwlock_try_write_eq: "rwlock_try_write l c = mutex_try_lock l c"
  by (simp add: rwlock_try_write_def mutex_try_lock_def)

lemma reenter_inv:
  assumes "lock_inv ReMutex l cs" "i < length cs" "pc (cs ! i) = Idle" "owns (cs ! i)"
    and "push_cli (cs ! i) = Ret c1" "reenter l c1 = Ret (l', c')"
  shows "lock_inv ReMutex l' (cs[i := c'])"
proof -
  have h: "holds (cs ! i)" using assms(4) by (auto simp: owns_def holds_def)
  note hi = lock_inv_holds[OF assms(1,2) h]
  show ?thesis
    by (rule lock_inv_hold[OF assms(1,2) _ _ h])
      (use assms(3-6) hi lock_inv_cpu[OF assms(1,2)] in
        \<open>auto simp: reenter_def exec_simps push_cli_Ret cpu_facts held_inv_def split: if_splits\<close>)
qed

lemma remutex_enter_inv:
  assumes "lock_inv ReMutex l cs" "i < length cs" "pc (cs ! i) = Idle" "\<not> owns (cs ! i)"
    and "push_cli (cs ! i) = Ret c1"
  shows "lock_inv ReMutex l (cs[i := c1\<lparr>pc := Acquiring b\<rparr>])"
  by (rule lock_inv_local[OF assms(1,2)])
    (use assms(3-5) lock_inv_cpu[OF assms(1,2)] in \<open>auto simp: push_cli_Ret cpu_facts\<close>)

lemma remutex_lock_inv:
  assumes "lock_inv ReMutex l cs" "i < length cs" "pc (cs ! i) = Idle"
    and "remutex_lock l (cs ! i) = Ret (l', c') \<or> remutex_try_lock l (cs ! i) = Ret (l', c')"
  shows "lock_inv ReMutex l' (cs[i := c'])"
proof -
  obtain c1 where c1: "push_cli (cs ! i) = Ret c1"
    using assms(4) by (auto simp: remutex_lock_def remutex_try_lock_def exec_simps)
  then have "cpu_id c1 = cpu_id (cs ! i)" by (simp add: push_cli_Ret)
  with assms(4) c1 owner_iff[OF assms(1,2)] have
    "owns (cs ! i) \<and> reenter l c1 = Ret (l', c')
     \<or> \<not> owns (cs ! i) \<and> l' = l \<and> (\<exists>b. c' = c1\<lparr>pc := Acquiring b\<rparr>)"
    by (auto simp: remutex_lock_def remutex_try_lock_def exec_simps split: if_splits)
  then show ?thesis using reenter_inv[OF assms(1-3) _ c1] remutex_enter_inv[OF assms(1-3) _ c1] by auto
qed

lemma acquire_inv:
  assumes "lock_inv k l cs" "i < length cs" "pc (cs ! i) = Acquiring b"
    and "acquire k b sp l (cs ! i) = Ret (l', c')"
  shows "lock_inv k l' (cs[i := c'])"
proof (cases "state l = 0 \<and> \<not> sp")
  case True
  then have eq: "l' = l\<lparr>state := WRITE_LOCKED\<rparr>" "c' = (cs ! i)\<lparr>pc := Acquired\<rparr>"
    using assms(4) by (auto simp: acquire_def try_write_lock_def)
  show ?thesis unfolding eq(1)
    by (rule lock_inv_acquire[OF assms(1,2)])
      (use True eq assms(3) lock_inv_cpu[OF assms(1,2)] in \<open>auto simp: cpu_facts\<close>)
next
  case False
  then have l': "l' = l"
    using assms(4) by (auto simp: acquire_def try_write_lock_def exec_simps split: if_splits)
  show ?thesis unfolding l'
    by (rule lock_inv_local[OF assms(1,2)])
      (use False assms(3,4) lock_inv_cpu[OF assms(1,2)] in
        \<open>auto simp: acquire_def try_write_lock_def exec_simps pop_cli_Ret cpu_facts split: if_splits\<close>)
qed

lemma spin_write_inv:
  assumes "lock_inv k l cs" "i < length cs" "pc (cs ! i) = Spinning" "spin_write l (cs ! i) = Ret (l', c')"
  shows "lock_inv k l' (cs[i := c'])"
proof -
  have l': "l' = l" using assms(4) by (simp add: spin_write_def)
  show ?thesis unfolding l'
    by (rule lock_inv_local[OF assms(1,2)])
      (use assms(3,4) lock_inv_cpu[OF assms(1,2)] in \<open>auto simp: spin_write_def cpu_facts split: if_splits\<close>)
qed

lemma take_ownership_inv:
  assumes "lock_inv k l cs" "i < length cs" "pc (cs ! i) = Acquired"
    and "take_ownership k l (cs ! i) = Ret (l', c')"
  shows "lock_inv k l' (cs[i := c'])"
proof -
  have h: "holds (cs ! i)" using assms(3) by (simp add: holds_def)
  show ?thesis
    by (rule lock_inv_hold[OF assms(1,2) _ _ h])
      (use assms(3,4) lock_inv_cpu[OF assms(1,2)] in \<open>auto simp: take_ownership_def cpu_facts\<close>)
qed

lemma drop_inv:
  assumes "lock_inv k l cs" "i < length cs" "pc (cs ! i) = Idle" "0 < guards (cs ! i)"
    and "k = Mutex \<and> mutex_drop l (cs ! i) = Ret (l', c')
       \<or> k = RwLock \<and> rwlock_drop_write l (cs ! i) = Ret (l', c')
       \<or> k = ReMutex \<and> remutex_drop l (cs ! i) = Ret (l', c')"
  shows "lock_inv k l' (cs[i := c'])"
proof -
  have h: "holds (cs ! i)" using assms(4) by (simp add: holds_def)
  note hi = lock_inv_holds[OF assms(1,2) h]
  show ?thesis
    by (rule lock_inv_hold[OF assms(1,2) _ _ h])
      (use assms(3-5) hi lock_inv_cpu[OF assms(1,2)] in
        \<open>auto simp: mutex_drop_def rwlock_drop_write_def remutex_drop_def Let_def exec_simps pop_cli_Ret
           cpu_facts held_inv_def split: if_splits\<close>)
qed

lemma disown_inv:
  assumes "lock_inv k l cs" "i < length cs" "pc (cs ! i) = Disowning" "disown l (cs ! i) = Ret (l', c')"
  shows "lock_inv k l' (cs[i := c'])"
proof -
  have h: "holds (cs ! i)" using assms(3) by (simp add: holds_def)
  show ?thesis
    by (rule lock_inv_hold[OF assms(1,2) _ _ h])
      (use assms(3,4) lock_inv_cpu[OF assms(1,2)] in \<open>auto simp: disown_def cpu_facts\<close>)
qed

lemma unlock_and_leave_inv:
  assumes "lock_inv k l cs" "i < length cs" "pc (cs ! i) = Unlocking"
    and "unlock_and_leave l (cs ! i) = Ret (l', c')"
  shows "lock_inv k l' (cs[i := c'])"
proof -
  have l': "l' = l\<lparr>state := 0\<rparr>"
    using assms(4) by (auto simp: unlock_and_leave_def write_unlock_def exec_simps split: if_splits)
  show ?thesis unfolding l'
    by (rule lock_inv_release[OF assms(1,2)])
      (use assms(3,4) lock_inv_cpu[OF assms(1,2)] in
        \<open>auto simp: unlock_and_leave_def exec_simps pop_cli_Ret cpu_facts\<close>)
qed

lemma unat_inc: "unat (s :: u64) < 0x3FFFFFFE \<Longrightarrow> unat (s + 1) = unat s + 1"
  by (simp add: unat_word_ariths)

lemma read_acquire_inv:
  assumes "lock_inv k l cs" "i < length cs" "pc (cs ! i) = ReadAcquiring b"
    and "read_acquire b l (cs ! i) = Ret (l', c')"
  shows "lock_inv k l' (cs[i := c'])"
proof (cases "is_read_lockable (state l)")
  case True
  then have eq: "l' = l\<lparr>state := state l + 1\<rparr>" "c' = (cs ! i)\<lparr>pc := ReadAcquired\<rparr>"
    using assms(4) by (auto simp: read_acquire_def try_read_lock_def)
  have f: "free_inv l cs" using lock_inv_no_writer[OF assms(1,2)] True by simp
  then have "unat (state l) < 0x3FFFFFFE" using True is_read_lockable_iff by (simp add: free_inv_def)
  note inc = unat_inc[OF this] this
  have "\<not> holds (cs ! i)" using f assms(2) by (simp add: free_inv_def)
  then show ?thesis
    by (intro lock_inv_reader[OF assms(1,2) _ _ f])
      (use eq f inc assms(3) lock_inv_cpu[OF assms(1,2)] in \<open>auto simp: cpu_facts free_inv_def\<close>)
next
  case False
  then have l': "l' = l" using assms(4) by (auto simp: read_acquire_def try_read_lock_def)
  show ?thesis unfolding l'
    by (rule lock_inv_local[OF assms(1,2)])
      (use False assms(3,4) lock_inv_cpu[OF assms(1,2)] in
        \<open>auto simp: read_acquire_def try_read_lock_def cpu_facts split: if_splits\<close>)
qed

lemma spin_read_inv:
  assumes "lock_inv k l cs" "i < length cs" "pc (cs ! i) = ReadSpinning" "spin_read l (cs ! i) = Ret (l', c')"
  shows "lock_inv k l' (cs[i := c'])"
proof -
  have l': "l' = l" using assms(4) by (simp add: spin_read_def)
  show ?thesis unfolding l'
    by (rule lock_inv_local[OF assms(1,2)])
      (use assms(3,4) lock_inv_cpu[OF assms(1,2)] in \<open>auto simp: spin_read_def cpu_facts split: if_splits\<close>)
qed

lemma start_read_inv:
  assumes "lock_inv k l cs" "i < length cs" "pc (cs ! i) = Idle"
  shows "lock_inv k l (cs[i := (cs ! i)\<lparr>pc := ReadAcquiring b\<rparr>])"
  by (rule lock_inv_local[OF assms(1,2)])
    (use assms(3) lock_inv_cpu[OF assms(1,2)] in \<open>auto simp: cpu_facts\<close>)

lemma read_return_inv:
  assumes "lock_inv k l cs" "i < length cs" "pc (cs ! i) = ReadAcquired" "read_return l (cs ! i) = Ret (l', c')"
  shows "lock_inv k l' (cs[i := c'])"
proof -
  have f: "free_inv l cs" using lock_inv_no_writer[OF assms(1,2)] assms(3) by (simp add: read_holds_def)
  then have "\<not> holds (cs ! i)" using assms(2) by (simp add: free_inv_def)
  then show ?thesis
    by (intro lock_inv_reader[OF assms(1,2) _ _ f])
      (use f assms(3,4) lock_inv_cpu[OF assms(1,2)] in
        \<open>auto simp: cpu_facts free_inv_def read_return_def\<close>)
qed

lemma drop_read_inv:
  assumes "lock_inv k l cs" "i < length cs" "pc (cs ! i) = Idle" "0 < read_guards (cs ! i)"
    and "drop_read l (cs ! i) = Ret (l', c')"
  shows "lock_inv k l' (cs[i := c'])"
proof -
  have f: "free_inv l cs" using lock_inv_no_writer[OF assms(1,2)] assms(4) by (simp add: read_holds_def)
  then have nh: "\<not> holds (cs ! i)" using assms(2) by (simp add: free_inv_def)
  have "0 < unat (state l)"
    using f readers_pos[OF assms(2)] assms(4) by (simp add: free_inv_def read_holds_def)
  then have "(1 :: u64) \<le> state l" by (simp add: word_le_nat_alt)
  then have "unat (state l - 1) = unat (state l) - 1" by (simp add: unat_sub)
  with nh show ?thesis
    by (intro lock_inv_reader[OF assms(1,2) _ _ f])
      (use f assms(3-5) \<open>0 < unat (state l)\<close> lock_inv_cpu[OF assms(1,2)] in
        \<open>auto simp: cpu_facts free_inv_def drop_read_def read_unlock_def\<close>)
qed

lemma lock_action_inv:
  assumes "lock_inv k l cs" "i < length cs" "lock_action k a l (cs ! i) = Some (Ret (l', c'))"
  shows "lock_inv k l' (cs[i := c'])"
  using assms
  by (cases a; cases k; cases "pc (cs ! i)")
    (auto simp: rwlock_write_eq rwlock_try_write_eq split: if_splits
      intro: mutex_lock_inv mutex_try_lock_inv remutex_lock_inv acquire_inv spin_write_inv
        take_ownership_inv drop_inv disown_inv unlock_and_leave_inv read_acquire_inv spin_read_inv
        start_read_inv read_return_inv drop_read_inv)

lemma lock_inv_start: "lock_inv k new_lock (map start_cpu [0..<n])"
proof -
  have "readers (map start_cpu [0..<n]) = 0"
    by (simp add: readers_def start_cpu_def read_holds_def comp_def)
  then show ?thesis
    by (simp add: lock_inv_def free_inv_def new_lock_def start_cpu_def cpu_facts)
qed

lemma lock_reach_inv: "lock_reach k n (l, cs) \<Longrightarrow> lock_inv k l cs \<and> length cs = n"
  by (induction "(l, cs)" arbitrary: l cs rule: lock_reach.induct)
    (auto simp: lock_inv_start intro: lock_action_inv)

lemma free_lock_state:
  assumes "lock_inv k l cs" "\<forall>j < length cs. \<not> holds (cs ! j) \<and> read_holds (cs ! j) = 0"
  shows "state l = 0"
proof -
  have "readers cs = 0"
    using assms(2) by (auto simp: readers_def in_set_conv_nth)
  moreover have "free_inv l cs" using assms by (auto simp: lock_inv_def held_inv_def)
  ultimately show ?thesis by (simp add: free_inv_def unat_eq_0)
qed

lemma push_cli_ok: "cpu_ok k c \<Longrightarrow> n_cli c < usize_bound - 1 \<Longrightarrow> \<exists>c1. push_cli c = Ret c1 \<and> cpu_id c1 = cpu_id c
    \<and> guards c1 = guards c \<and> 0 < n_cli c1 \<and> \<not> interrupt_flag c1"
  by (auto simp: push_cli_Ret cpu_ok_def)

lemma pop_cli_ok: "0 < n_cli c \<Longrightarrow> \<not> interrupt_flag c \<Longrightarrow> \<exists>c1. pop_cli c = Ret c1"
  by (simp add: pop_cli_Ret)

section \<open>Properties\<close>


lemma remutex_count:
  assumes "lock_inv ReMutex l cs" "i < length cs" "0 < guards (cs ! i)"
  shows "0 < lock_count l \<and> lock_count l \<le> n_cli (cs ! i)"
proof -
  have "held_inv ReMutex i l cs" using lock_inv_holds[OF assms(1,2)] assms(3) by (simp add: holds_def)
  then have "lock_count l = guards (cs ! i)" using assms(3) by (simp add: held_inv_def)
  moreover have "guards (cs ! i) \<le> n_cli (cs ! i)"
    using lock_inv_cpu[OF assms(1,2)] by (simp add: cpu_ok_def cli_need_def split: pc.splits)
  ultimately show ?thesis using assms(3) by simp
qed

lemma owner_idle:
  "lock_inv k l cs \<Longrightarrow> i < length cs \<Longrightarrow> pc (cs ! i) = Idle \<Longrightarrow> owner_cpu l = int i \<longleftrightarrow> 0 < guards (cs ! i)"
  using owner_iff[of k l cs i] lock_inv_cpu[of k l cs i] by (simp add: owns_def)

lemma call_safe:
  assumes inv: "lock_inv k l cs" "i < length cs" "pc (cs ! i) = Idle" and n: "n_cli (cs ! i) < usize_bound - 1"
    and "k \<noteq> ReMutex \<Longrightarrow> a = CallLock \<Longrightarrow> owner_cpu l \<noteq> int i" "a = CallLock \<or> a = CallTryLock"
  shows "lock_action k a l (cs ! i) \<noteq> Some (Panic r)"
proof -
  have id: "cpu_id (cs ! i) = i" and ok: "cpu_ok k (cs ! i)" using lock_inv_cpu[OF inv(1,2)] by auto
  obtain c1 where c1: "push_cli (cs ! i) = Ret c1" "cpu_id c1 = i" "0 < n_cli c1" "\<not> interrupt_flag c1"
    using push_cli_ok[OF ok n] id by auto
  obtain c2 where c2: "pop_cli c1 = Ret c2" using pop_cli_ok[OF c1(3,4)] by blast
  have cnt: "k = ReMutex \<Longrightarrow> owner_cpu l = int i \<Longrightarrow> 0 < lock_count l \<and> lock_count l + 1 < usize_bound"
    using owner_idle[OF inv] remutex_count[of l cs i] inv n by fastforce
  show ?thesis
    using assms(5,6) c1 c2 inv(3) cnt
    by (cases k; cases "owner_cpu l = int i")
      (auto simp: mutex_lock_def rwlock_write_eq remutex_lock_def mutex_try_lock_def rwlock_try_write_eq
        remutex_try_lock_def reenter_def interrupts_disabled_def)
qed

lemma drop_safe:
  assumes inv: "lock_inv k l cs" "i < length cs" "pc (cs ! i) = Idle" "0 < guards (cs ! i)"
  shows "lock_action k DropGuard l (cs ! i) \<noteq> Some (Panic r)"
proof -
  have "owner_cpu l = int i" using owner_idle[OF inv(1-3)] inv(4) by simp
  moreover have "0 < n_cli (cs ! i)" "\<not> interrupt_flag (cs ! i)"
    using lock_inv_cpu[OF inv(1,2)] inv(3,4) by (auto simp: cpu_ok_def cli_need_def)
  moreover have "k = ReMutex \<Longrightarrow> 0 < lock_count l" using remutex_count[OF _ inv(2,4)] inv(1) by simp
  ultimately show ?thesis using inv(3,4)
    by (cases k) (auto simp: mutex_drop_def rwlock_drop_write_def remutex_drop_def pop_cli_def Let_def)
qed

lemma go_safe:
  assumes inv: "lock_inv k l cs" "i < length cs"
  shows "lock_action k (Go sp) l (cs ! i) \<noteq> Some (Panic r)"
proof (cases "pc (cs ! i)")
  case (Acquiring b)
  then have "0 < n_cli (cs ! i)" "\<not> interrupt_flag (cs ! i)"
    using lock_inv_cpu[OF inv] by (auto simp: cpu_ok_def cli_need_def)
  then show ?thesis using Acquiring by (simp add: acquire_def try_write_lock_def pop_cli_def Let_def)
next
  case Unlocking
  then have "0 < n_cli (cs ! i)" "\<not> interrupt_flag (cs ! i)"
    using lock_inv_cpu[OF inv] by (auto simp: cpu_ok_def cli_need_def)
  moreover have "state l = WRITE_LOCKED"
    using lock_inv_holds[OF inv] Unlocking by (simp add: holds_def held_inv_def)
  ultimately show ?thesis using Unlocking
    by (simp add: unlock_and_leave_def write_unlock_def pop_cli_def Let_def)
qed (auto simp: spin_write_def take_ownership_def disown_def read_acquire_def try_read_lock_def
    spin_read_def read_return_def)



text \<open>
  A \<open>ReMutex\<close> is not balanced: a \<open>try_lock\<close> that fails because another CPU holds the lock
  returns without a guard but leaves the nesting count one higher and interrupts off.
\<close>
theorem remutex_try_lock_leaks_cli:
  assumes "lock_reach ReMutex n (l, cs)" "i < n" "pc (cs ! i) = Idle" "guards (cs ! i) = 0"
    and "state l \<noteq> UNLOCKED" "n_cli (cs ! i) < usize_bound - 1"
  shows "\<exists>c1 c2. lock_action ReMutex CallTryLock l (cs ! i) = Some (Ret (l, c1))
    \<and> lock_action ReMutex (Go spurious) l c1 = Some (Ret (l, c2))
    \<and> pc c2 = Idle \<and> guards c2 = 0 \<and> n_cli c2 = n_cli (cs ! i) + 1 \<and> \<not> interrupt_flag c2"
proof -
  have inv: "lock_inv ReMutex l cs" and i: "i < length cs" using lock_reach_inv[OF assms(1)] assms(2) by auto
  have ok: "cpu_ok ReMutex (cs ! i)" using lock_inv_cpu[OF inv i] by simp
  have "owner_cpu l \<noteq> int (cpu_id (cs ! i))"
    using owner_iff[OF inv i] assms(3,4) by (simp add: owns_def)
  moreover obtain c1 where c1: "push_cli (cs ! i) = Ret c1" using push_cli_ok[OF ok assms(6)] by blast
  moreover have "cpu_id c1 = cpu_id (cs ! i)" "guards c1 = 0" "n_cli c1 = n_cli (cs ! i) + 1" "\<not> interrupt_flag c1"
    using c1 assms(4) by (simp_all add: push_cli_Ret)
  ultimately show ?thesis using assms(3-5)
    by (simp add: remutex_try_lock_def acquire_def try_write_lock_def)
qed

text \<open>
  A lock nobody holds is available: a CPU that spins on it takes it with its next two steps
  (unless the processor fails the exchange spuriously), whatever happened before.
\<close>
theorem free_lock_is_taken:
  assumes "lock_reach k n (l, cs)" "i < n" "pc (cs ! i) = Spinning"
    and "\<forall>j < n. \<not> holds (cs ! j) \<and> read_holds (cs ! j) = 0"
  shows "\<exists>c1 l2 c2. lock_action k (Go False) l (cs ! i) = Some (Ret (l, c1))
    \<and> lock_action k (Go False) l c1 = Some (Ret (l2, c2)) \<and> pc c2 = Acquired \<and> state l2 = WRITE_LOCKED"
proof -
  have "state l = 0" using free_lock_state lock_reach_inv[OF assms(1)] assms(4) by auto
  then show ?thesis using assms(3) by (auto simp: spin_write_def acquire_def try_write_lock_def)
qed

section \<open>Runs\<close>

definition locked_cpu :: cpu where
  "locked_cpu = \<lparr>cpu_id = 0, n_cli = 1, old_interrupt_enable = True, interrupt_flag = False, pc = Idle,
     guards = 1, read_guards = 0\<rparr>"

definition locked_state :: "nat \<Rightarrow> shared_lock" where
  "locked_state n = \<lparr>state = WRITE_LOCKED, owner_cpu = 0, lock_count = n\<rparr>"

lemma locked_run:
  "lock_reach k 2 (locked_state (if k = ReMutex then 1 else 0), [locked_cpu, start_cpu 1])"
proof -
  have 0: "lock_reach k 2 (new_lock, [start_cpu 0, start_cpu 1])"
    using lock_start[of k 2] by (simp add: upt_rec)
  let ?c1 = "(start_cpu 0)\<lparr>n_cli := 1, interrupt_flag := False, old_interrupt_enable := True, pc := Acquiring True\<rparr>"
  have 1: "lock_reach k 2 (new_lock, [start_cpu 0, start_cpu 1][0 := ?c1])"
    by (rule lock_step[OF 0, of 0 CallLock]; cases k)
      (simp_all add: start_cpu_def new_lock_def mutex_lock_def rwlock_write_def remutex_lock_def push_cli_def
        usize_bound_def)
  have 2: "lock_reach k 2 (new_lock\<lparr>state := WRITE_LOCKED\<rparr>, [?c1, start_cpu 1][0 := ?c1\<lparr>pc := Acquired\<rparr>])"
    by (rule lock_step[of k 2 new_lock "[?c1, start_cpu 1]" 0 "Go False"])
      (use 1 in \<open>simp_all add: acquire_def try_write_lock_def new_lock_def\<close>)
  have "lock_reach k 2 (locked_state (if k = ReMutex then 1 else 0),
      [?c1\<lparr>pc := Acquired\<rparr>, start_cpu 1][0 := locked_cpu])"
    by (rule lock_step[of k 2 "new_lock\<lparr>state := WRITE_LOCKED\<rparr>" "[?c1\<lparr>pc := Acquired\<rparr>, start_cpu 1]" 0 "Go False"])
      (use 2 in \<open>simp_all add: take_ownership_def new_lock_def locked_state_def locked_cpu_def start_cpu_def\<close>)
  then show ?thesis by simp
qed




theorem remutex_try_lock_leaks_cli_witness:
  "\<exists>c1 c2. lock_action ReMutex CallTryLock (locked_state 1) (start_cpu 1) = Some (Ret (locked_state 1, c1))
    \<and> lock_action ReMutex (Go False) (locked_state 1) c1 = Some (Ret (locked_state 1, c2))
    \<and> pc c2 = Idle \<and> guards c2 = 0 \<and> n_cli c2 = 1 \<and> \<not> interrupt_flag c2"
  using remutex_try_lock_leaks_cli[OF locked_run[of ReMutex], of 1 False]
  by (simp add: start_cpu_def locked_state_def usize_bound_def)

definition spinning_cpu :: cpu where
  "spinning_cpu = \<lparr>cpu_id = 0, n_cli = 1, old_interrupt_enable = True, interrupt_flag = False, pc = Spinning,
     guards = 0, read_guards = 0\<rparr>"

lemma spinning_run: "lock_reach Mutex 1 (new_lock, [spinning_cpu])"
proof -
  have 0: "lock_reach Mutex 1 (new_lock, [start_cpu 0])" using lock_start[of Mutex 1] by simp
  have 1: "lock_reach Mutex 1 (new_lock, [start_cpu 0][0 := spinning_cpu\<lparr>pc := Acquiring True\<rparr>])"
    by (rule lock_step[OF 0, of 0 CallLock])
      (simp_all add: start_cpu_def new_lock_def mutex_lock_def push_cli_def usize_bound_def spinning_cpu_def)
  have "lock_reach Mutex 1 (new_lock, [spinning_cpu\<lparr>pc := Acquiring True\<rparr>][0 := spinning_cpu])"
    by (rule lock_step[of Mutex 1 new_lock "[spinning_cpu\<lparr>pc := Acquiring True\<rparr>]" 0 "Go True"])
      (use 1 in \<open>simp_all add: acquire_def try_write_lock_def spinning_cpu_def\<close>)
  then show ?thesis by simp
qed

theorem free_lock_is_taken_witness:
  "\<exists>c1 l2 c2. lock_action Mutex (Go False) new_lock spinning_cpu = Some (Ret (new_lock, c1))
    \<and> lock_action Mutex (Go False) new_lock c1 = Some (Ret (l2, c2)) \<and> pc c2 = Acquired \<and> state l2 = WRITE_LOCKED"
  using free_lock_is_taken[OF spinning_run, of 0] by (simp add: spinning_cpu_def holds_def read_holds_def)

end
