(* ===== verification/Once_Lock.thy ===== *)
theory Once_Lock
  imports Prelude
begin

text \<open>
  Model of kernel/src/sync/once.rs: a cell that is written once.  The slot is an optional value,
  \<open>None\<close> where the memory is uninitialised, so that reading it before it is written is a panic of
  the model.  The initialising closure may itself use the cell; it is a function on the cell.
  \<open>compare_exchange_weak\<close> may fail spuriously: every operation that uses it takes the number of
  such failures.
\<close>

section \<open>Once\<close>

definition ONCE_STATE_INIT :: usize where "ONCE_STATE_INIT = 0"
definition ONCE_STATE_RUNNING :: usize where "ONCE_STATE_RUNNING = 1"
definition ONCE_STATE_DONE :: usize where "ONCE_STATE_DONE = 2"

record 'a OnceLock =
  once :: usize
  slot :: "'a option"

definition OnceLock_new :: "'a OnceLock" where
  "OnceLock_new = \<lparr>once = ONCE_STATE_INIT, slot = None\<rparr>"

definition is_completed :: "'a OnceLock \<Rightarrow> bool" where
  "is_completed c = (once c = ONCE_STATE_DONE)"

text \<open>\<open>Once::call\<close> answers what the closure left behind, if it ran.\<close>

fun once_call ::
  "nat \<Rightarrow> ('a OnceLock \<Rightarrow> ('r \<times> 'a OnceLock) exec) \<Rightarrow> 'a OnceLock \<Rightarrow> ('r option \<times> 'a OnceLock) exec" where
  "once_call spurious f c =
     (if once c = ONCE_STATE_INIT
      then (case spurious of
              0 \<Rightarrow> bind_exec (f (c\<lparr>once := ONCE_STATE_RUNNING\<rparr>)) (\<lambda>(r, c1).
                   Ret (Some r, c1\<lparr>once := ONCE_STATE_DONE\<rparr>))
            | Suc n \<Rightarrow> once_call n f c)
      else if once c = ONCE_STATE_RUNNING then Panic (Explicit ''Once::call already running'')
      else if once c = ONCE_STATE_DONE then Ret (None, c)
      else Panic (Explicit ''state is never set to invalid values''))"

section \<open>OnceLock\<close>

definition once_init ::
  "nat \<Rightarrow> ('a OnceLock \<Rightarrow> (('e + 'a) \<times> 'a OnceLock) exec) \<Rightarrow> 'a OnceLock \<Rightarrow> (('e + unit) \<times> 'a OnceLock) exec" where
  "once_init spurious f c =
     bind_exec (once_call spurious (\<lambda>c1.
        bind_exec (f c1) (\<lambda>(r, c2).
        case r of Inr value \<Rightarrow> Ret (Inr (), c2\<lparr>slot := Some value\<rparr>) | Inl e \<Rightarrow> Ret (Inl e, c2))) c) (\<lambda>(r, c3).
     Ret (case r of Some res \<Rightarrow> res | None \<Rightarrow> Inr (), c3))"

definition get_unchecked :: "'a OnceLock \<Rightarrow> 'a exec" where
  "get_unchecked c =
     assert_exec (is_completed c) (case slot c of Some v \<Rightarrow> Ret v | None \<Rightarrow> Panic Uninit)"

definition once_set :: "nat \<Rightarrow> 'a \<Rightarrow> 'a OnceLock \<Rightarrow> (('a + unit) \<times> 'a OnceLock) exec" where
  "once_set spurious value c =
     (if is_completed c then Ret (Inl value, c) else once_init spurious (\<lambda>c1. Ret (Inr value, c1)) c)"

definition once_get :: "'a OnceLock \<Rightarrow> 'a exec" where
  "once_get c =
     (if is_completed c then get_unchecked c
      else Panic (Explicit ''OnceLock::get called before OnceLock::set''))"

definition once_try_get :: "'a OnceLock \<Rightarrow> 'a option exec" where
  "once_try_get c =
     (if is_completed c then bind_exec (get_unchecked c) (\<lambda>v. Ret (Some v)) else Ret None)"

definition get_or_try_init ::
  "nat \<Rightarrow> ('a OnceLock \<Rightarrow> (('e + 'a) \<times> 'a OnceLock) exec) \<Rightarrow> 'a OnceLock \<Rightarrow> (('e + 'a) \<times> 'a OnceLock) exec" where
  "get_or_try_init spurious f c =
     bind_exec (once_try_get c) (\<lambda>g.
     case g of
       Some value \<Rightarrow> Ret (Inr value, c)
     | None \<Rightarrow>
         bind_exec (once_init spurious f c) (\<lambda>(r, c1).
         case r of
           Inl e \<Rightarrow> Ret (Inl e, c1)
         | Inr _ \<Rightarrow> assert_exec (is_completed c1) (bind_exec (get_unchecked c1) (\<lambda>v. Ret (Inr v, c1)))))"

definition get_or_init ::
  "nat \<Rightarrow> ('a OnceLock \<Rightarrow> ('a \<times> 'a OnceLock) exec) \<Rightarrow> 'a OnceLock \<Rightarrow> ('a \<times> 'a OnceLock) exec" where
  "get_or_init spurious f c =
     bind_exec (get_or_try_init spurious (\<lambda>c1. bind_exec (f c1) (\<lambda>(v, c2). Ret (Inr v :: unit + 'a, c2))) c)
       (\<lambda>(r, c1). case r of Inr val \<Rightarrow> Ret (val, c1) | Inl _ \<Rightarrow> Panic (Explicit ''explicit panic''))"

definition once_clone :: "nat \<Rightarrow> 'a OnceLock \<Rightarrow> 'a OnceLock exec" where
  "once_clone spurious c =
     bind_exec (once_try_get c) (\<lambda>g.
     case g of
       None \<Rightarrow> Ret OnceLock_new
     | Some value \<Rightarrow>
         bind_exec (once_set spurious value OnceLock_new) (\<lambda>(r, cell).
         case r of Inr _ \<Rightarrow> Ret cell | Inl _ \<Rightarrow> Panic (Explicit ''unreachable'')))"

section \<open>What clients see\<close>

text \<open>
  The operations of clients whose closures do not touch the cell, what each returns, and the
  specification: an optional value that is fixed by the first operation that offers one.
\<close>

datatype 'a once_op = SetOp nat 'a | GetOp | TryGetOp | GetOrInitOp nat 'a | CloneOp nat

datatype 'a once_answer = SetOk | SetRefused 'a | Got 'a | GotOpt "'a option" | Cloned "'a option"

fun once_step :: "'a once_op \<Rightarrow> 'a OnceLock \<Rightarrow> ('a once_answer \<times> 'a OnceLock) exec" where
  "once_step (SetOp sp v) c =
     bind_exec (once_set sp v c) (\<lambda>(r, c1). Ret (case r of Inl w \<Rightarrow> SetRefused w | Inr _ \<Rightarrow> SetOk, c1))"
| "once_step GetOp c = bind_exec (once_get c) (\<lambda>v. Ret (Got v, c))"
| "once_step TryGetOp c = bind_exec (once_try_get c) (\<lambda>v. Ret (GotOpt v, c))"
| "once_step (GetOrInitOp sp v) c =
     bind_exec (get_or_init sp (\<lambda>c1. Ret (v, c1)) c) (\<lambda>(r, c1). Ret (Got r, c1))"
| "once_step (CloneOp sp) c =
     bind_exec (once_clone sp c) (\<lambda>c1. bind_exec (once_try_get c1) (\<lambda>v. Ret (Cloned v, c)))"

fun once_spec :: "'a once_op \<Rightarrow> 'a option \<Rightarrow> ('a once_answer \<times> 'a option) exec" where
  "once_spec (SetOp _ v) None = Ret (SetOk, Some v)"
| "once_spec (SetOp _ v) (Some w) = Ret (SetRefused v, Some w)"
| "once_spec GetOp None = Panic (Explicit ''OnceLock::get called before OnceLock::set'')"
| "once_spec GetOp (Some w) = Ret (Got w, Some w)"
| "once_spec TryGetOp m = Ret (GotOpt m, m)"
| "once_spec (GetOrInitOp _ v) None = Ret (Got v, Some v)"
| "once_spec (GetOrInitOp _ v) (Some w) = Ret (Got w, Some w)"
| "once_spec (CloneOp _) m = Ret (Cloned m, m)"

fun run_ops :: "('o \<Rightarrow> 's \<Rightarrow> ('r \<times> 's) exec) \<Rightarrow> 'o list \<Rightarrow> 's \<Rightarrow> 'r list exec" where
  "run_ops step [] s = Ret []"
| "run_ops step (x # xs) s =
     bind_exec (step x s) (\<lambda>(r, s1). bind_exec (run_ops step xs s1) (\<lambda>rs. Ret (r # rs)))"

definition once_abs :: "'a OnceLock \<Rightarrow> 'a option \<Rightarrow> bool" where
  "once_abs c m \<longleftrightarrow> (case m of None \<Rightarrow> once c = ONCE_STATE_INIT \<and> slot c = None
     | Some v \<Rightarrow> once c = ONCE_STATE_DONE \<and> slot c = Some v)"

section \<open>Lemmas\<close>

lemmas once_states [simp] = ONCE_STATE_INIT_def ONCE_STATE_RUNNING_def ONCE_STATE_DONE_def

declare once_call.simps [simp del]

lemma once_call_done: "once c = 2 \<Longrightarrow> once_call sp f c = Ret (None, c)"
  by (simp add: once_call.simps)

lemma once_call_init:
  "once c = 0 \<Longrightarrow> once_call sp f c =
     bind_exec (f (c\<lparr>once := 1\<rparr>)) (\<lambda>(r, c1). Ret (Some r, c1\<lparr>once := 2\<rparr>))"
  by (induction sp) (simp_all add: once_call.simps[of _ f c])

lemma once_call_running:
  "once c = Suc 0 \<Longrightarrow> once_call sp f c = Panic (Explicit ''Once::call already running'')"
  by (simp add: once_call.simps)

lemma once_abs_simps [simp]:
  "once_abs c None \<longleftrightarrow> once c = 0 \<and> slot c = None"
  "once_abs c (Some v) \<longleftrightarrow> once c = 2 \<and> slot c = Some v"
  by (simp_all add: once_abs_def)

lemmas once_ops = once_set_def once_init_def once_get_def once_try_get_def get_or_init_def
  get_or_try_init_def once_clone_def get_unchecked_def is_completed_def OnceLock_new_def

lemma once_step_refines:
  assumes "once_abs c m"
  shows "case once_spec x m of
      Ret (r, m') \<Rightarrow> \<exists>c'. once_step x c = Ret (r, c') \<and> once_abs c' m'
    | Panic e \<Rightarrow> once_step x c = Panic e"
  using assms
  by (cases x; cases m) (simp_all add: once_ops once_call_init once_call_done)


text \<open>
  An initialiser that fails still completes the cell: its error is returned, but afterwards
  \<open>set\<close> refuses every value and \<open>get\<close> reads the slot that was never written.  An initialiser that
  uses its own cell panics.
\<close>
theorem once_failed_init:
  "(\<exists>c. get_or_try_init sp (\<lambda>c1. Ret (Inl e :: 'e + 'a, c1)) OnceLock_new = Ret (Inl e, c)
      \<and> once_set sp' v c = Ret (Inl v, c) \<and> once_get c = Panic Uninit)
   \<and> get_or_init sp (\<lambda>c1. get_or_init sp' (\<lambda>c2. Ret (v, c2)) c1) OnceLock_new
      = Panic (Explicit ''Once::call already running'')"
  by (simp add: once_ops once_call_init once_call_running)

end
