(* ===== verification/Heap_Alloc.thy ===== *)
theory Heap_Alloc
  imports Page_Tables
begin

text \<open>
  Model of libraries/increasing_heap_allocator (the allocator behind every kernel and user heap)
  and of its page provider in kernel/src/memory_management/kernel_heap_allocator.rs.  The headers
  the allocator keeps inside the heap are two stores indexed by address: the free blocks with
  their links, and the infos in front of allocated blocks; an address that holds no header is read
  as \<open>Uninit\<close>.  The null pointer is 0.  Walks over the list of free blocks get as many steps as
  the heap has bytes, and one more.
\<close>

section \<open>Layouts of core::alloc\<close>

record Layout =
  l_size :: usize
  l_align :: usize

definition ISIZE_MAX :: nat where "ISIZE_MAX = 2 ^ 63 - 1"

definition layout_round_up :: "usize \<Rightarrow> usize \<Rightarrow> usize" where
  "layout_round_up n a = (n + a - 1) div a * a"

definition from_size_align :: "usize \<Rightarrow> usize \<Rightarrow> Layout exec" where
  "from_size_align sz al =
     (if sz + (al - 1) \<le> ISIZE_MAX then Ret \<lparr>l_size = sz, l_align = al\<rparr> else Panic UnwrapErr)"

definition align_to :: "Layout \<Rightarrow> usize \<Rightarrow> Layout exec" where
  "align_to l al = from_size_align (l_size l) (max (l_align l) al)"

definition layout_extend :: "Layout \<Rightarrow> Layout \<Rightarrow> (Layout \<times> usize) exec" where
  "layout_extend l nxt =
     (let offset = layout_round_up (l_size l) (l_align nxt) in
      bind_exec (from_size_align (offset + l_size nxt) (max (l_align l) (l_align nxt))) (\<lambda>r. Ret (r, offset)))"

definition pad_to_align :: "Layout \<Rightarrow> Layout" where
  "pad_to_align l = l\<lparr>l_size := layout_round_up (l_size l) (l_align l)\<rparr>"

section \<open>The state of the allocator\<close>

definition HEAP_MAGIC :: u32 where "HEAP_MAGIC = 0xF0B0CAFE"

record AllocatedHeapBlockInfo =
  magic :: u32
  bi_size :: usize
  pre_padding :: usize

definition KERNEL_HEAP_BLOCK_INFO_SIZE :: usize where "KERNEL_HEAP_BLOCK_INFO_SIZE = 32"

definition block_info_layout :: Layout where
  "block_info_layout = \<lparr>l_size = KERNEL_HEAP_BLOCK_INFO_SIZE, l_align = 16\<rparr>"

record HeapFreeBlock =
  fb_prev :: usize
  fb_next :: usize
  fb_size :: usize

definition SIZE_OF_FREE_BLOCK :: usize where "SIZE_OF_FREE_BLOCK = 24"

record 'p HeapAllocator =
  heap_start :: usize
  total_heap_size :: usize
  free_list_addr :: usize
  free_size :: usize
  used_size :: usize
  page_allocator :: 'p
  free_blocks :: "usize \<rightharpoonup> HeapFreeBlock"
  block_infos :: "usize \<rightharpoonup> AllocatedHeapBlockInfo"

type_synonym 'p page_op = "usize \<Rightarrow> 'p \<Rightarrow> (usize option \<times> 'p) exec"

definition heap_new :: "'p \<Rightarrow> 'p HeapAllocator" where
  "heap_new p = \<lparr>heap_start = 0, total_heap_size = 0, free_list_addr = 0, free_size = 0, used_size = 0,
     page_allocator = p, free_blocks = (\<lambda>_. None), block_infos = (\<lambda>_. None)\<rparr>"

definition heap_stats :: "'p HeapAllocator \<Rightarrow> usize \<times> usize \<times> usize" where
  "heap_stats h = (used_size h, free_size h, total_heap_size h)"

definition block_at :: "'p HeapAllocator \<Rightarrow> usize \<Rightarrow> HeapFreeBlock exec" where
  "block_at h p = (case free_blocks h p of Some b \<Rightarrow> Ret b | None \<Rightarrow> Panic Uninit)"

definition set_block :: "'p HeapAllocator \<Rightarrow> usize \<Rightarrow> HeapFreeBlock \<Rightarrow> 'p HeapAllocator" where
  "set_block h p b = h\<lparr>free_blocks := (free_blocks h)(p \<mapsto> b)\<rparr>"

section \<open>Walks over the free list\<close>

fun iter_blocks :: "nat \<Rightarrow> 'p HeapAllocator \<Rightarrow> usize \<Rightarrow> (usize \<times> HeapFreeBlock) list exec" where
  "iter_blocks fuel h current =
     (if current = 0 then Ret []
      else case fuel of
        0 \<Rightarrow> Panic OutOfFuel
      | Suc n \<Rightarrow>
          bind_exec (block_at h current) (\<lambda>b.
          bind_exec (iter_blocks n h (fb_next b)) (\<lambda>rest. Ret ((current, b) # rest))))"

definition heap_fuel :: "'p HeapAllocator \<Rightarrow> nat" where
  "heap_fuel h = total_heap_size h + 1"

definition iter_free_blocks :: "'p HeapAllocator \<Rightarrow> (usize \<times> HeapFreeBlock) list exec" where
  "iter_free_blocks h = iter_blocks (heap_fuel h) h (free_list_addr h)"

definition next_of :: "'p HeapAllocator \<Rightarrow> usize \<Rightarrow> usize exec" where
  "next_of h p = bind_exec (block_at h p) (\<lambda>b. Ret (fb_next b))"

text \<open>Floyd's search for a cycle: \<open>fast\<close> takes two steps where \<open>slow\<close> takes one.\<close>

fun floyd :: "nat \<Rightarrow> 'p HeapAllocator \<Rightarrow> usize \<Rightarrow> usize \<Rightarrow> bool exec" where
  "floyd fuel h slow fast =
     (if fast = slow then Ret True
      else case fuel of
        0 \<Rightarrow> Panic OutOfFuel
      | Suc n \<Rightarrow>
          if fast = 0 then Ret False
          else bind_exec (next_of h fast) (\<lambda>fast1.
          if fast1 = 0 then Ret False
          else bind_exec (next_of h fast1) (\<lambda>fast2.
          if slow = 0 then Ret False
          else bind_exec (next_of h slow) (\<lambda>slow1. floyd n h slow1 fast2))))"

definition is_free_blocks_in_cycle :: "'p HeapAllocator \<Rightarrow> bool exec" where
  "is_free_blocks_in_cycle h =
     (let start = free_list_addr h in
      if start = 0 then Ret False
      else bind_exec (next_of h start) (\<lambda>fast. floyd (heap_fuel h) h start fast))"

fun count_back :: "nat \<Rightarrow> 'p HeapAllocator \<Rightarrow> usize \<Rightarrow> nat exec" where
  "count_back fuel h last_block =
     (if last_block = 0 then Ret 0
      else case fuel of
        0 \<Rightarrow> Panic OutOfFuel
      | Suc n \<Rightarrow>
          bind_exec (block_at h last_block) (\<lambda>b.
          bind_exec (count_back n h (fb_prev b)) (\<lambda>k. Ret (k + 1))))"

definition check_free_blocks :: "'p HeapAllocator \<Rightarrow> bool exec" where
  "check_free_blocks h =
     bind_exec (iter_free_blocks h) (\<lambda>bs.
     bind_exec (count_back (heap_fuel h) h (if bs = [] then 0 else fst (last bs))) (\<lambda>backward_count.
     Ret (length bs \<noteq> backward_count)))"

definition check_issues :: "'p HeapAllocator \<Rightarrow> bool exec" where
  "check_issues h =
     bind_exec (is_free_blocks_in_cycle h) (\<lambda>c. if c then Ret True else check_free_blocks h)"

section \<open>Freeing a block\<close>

text \<open>\<open>link_prev\<close>: let the block before point to \<open>q\<close>, or the list start with it.\<close>

definition link_prev :: "'p HeapAllocator \<Rightarrow> usize \<Rightarrow> usize \<Rightarrow> 'p HeapAllocator exec" where
  "link_prev h p q =
     (if p \<noteq> 0 then bind_exec (block_at h p) (\<lambda>b. Ret (set_block h p (b\<lparr>fb_next := q\<rparr>)))
      else Ret (h\<lparr>free_list_addr := q\<rparr>))"

definition link_next :: "'p HeapAllocator \<Rightarrow> usize \<Rightarrow> usize \<Rightarrow> 'p HeapAllocator exec" where
  "link_next h n q =
     (if n \<noteq> 0 then bind_exec (block_at h n) (\<lambda>b. Ret (set_block h n (b\<lparr>fb_prev := q\<rparr>))) else Ret h)"

fun free_scan ::
  "(usize \<times> HeapFreeBlock) list \<Rightarrow> usize \<Rightarrow> usize \<Rightarrow> usize \<times> usize \<times> usize \<Rightarrow> (usize \<times> usize \<times> usize) exec" where
  "free_scan [] freeing_start freeing_end acc = Ret acc"
| "free_scan ((block_addr, b) # rest) freeing_start freeing_end (prev_block, next_block, closest_prev) =
     bind_exec (usize_add block_addr (fb_size b)) (\<lambda>block_end.
     if block_addr = freeing_start then Panic (Explicit ''double free'')
     else assert_exec (freeing_end \<le> block_addr \<or> block_end \<le> freeing_start)
       (free_scan rest freeing_start freeing_end
          (if block_end = freeing_start then block_addr else prev_block,
           if block_end \<noteq> freeing_start \<and> freeing_end = block_addr then block_addr else next_block,
           if block_addr < freeing_start \<and> (closest_prev = 0 \<or> block_addr > closest_prev)
           then block_addr else closest_prev)))"

definition merge_both :: "'p HeapAllocator \<Rightarrow> usize \<Rightarrow> usize \<Rightarrow> usize \<Rightarrow> 'p HeapAllocator exec" where
  "merge_both h prev_block next_block sz =
     bind_exec (block_at h next_block) (\<lambda>nb.
     bind_exec (usize_add sz (fb_size nb)) (\<lambda>more.
     bind_exec (block_at h prev_block) (\<lambda>pb.
     bind_exec (usize_add (fb_size pb) more) (\<lambda>total.
     bind_exec (block_at (set_block h prev_block (pb\<lparr>fb_size := total\<rparr>)) next_block) (\<lambda>nb1.
     bind_exec (link_next (set_block h prev_block (pb\<lparr>fb_size := total\<rparr>)) (fb_next nb1) prev_block) (\<lambda>h1.
     bind_exec (block_at h1 next_block) (\<lambda>nb2.
     bind_exec (link_prev h1 (fb_prev nb2) prev_block) (\<lambda>h2.
     bind_exec (block_at h2 next_block) (\<lambda>nb3.
     bind_exec (block_at h2 prev_block) (\<lambda>pb1.
     Ret (set_block h2 prev_block (pb1\<lparr>fb_next := fb_next nb3\<rparr>))))))))))))"

definition merge_prev :: "'p HeapAllocator \<Rightarrow> usize \<Rightarrow> usize \<Rightarrow> 'p HeapAllocator exec" where
  "merge_prev h prev_block sz =
     bind_exec (block_at h prev_block) (\<lambda>pb.
     bind_exec (usize_add (fb_size pb) sz) (\<lambda>total.
     Ret (set_block h prev_block (pb\<lparr>fb_size := total\<rparr>))))"

definition merge_next :: "'p HeapAllocator \<Rightarrow> usize \<Rightarrow> usize \<Rightarrow> usize \<Rightarrow> 'p HeapAllocator exec" where
  "merge_next h freeing_block next_block sz =
     bind_exec (block_at h next_block) (\<lambda>nb.
     bind_exec (usize_add (fb_size nb) sz) (\<lambda>total.
     let h1 = set_block h freeing_block \<lparr>fb_prev = fb_prev nb, fb_next = fb_next nb, fb_size = total\<rparr> in
     bind_exec (block_at h1 next_block) (\<lambda>nb1.
     bind_exec (link_next h1 (fb_next nb1) freeing_block) (\<lambda>h2.
     bind_exec (block_at h2 next_block) (\<lambda>nb2.
     link_prev h2 (fb_prev nb2) freeing_block)))))"

definition insert_first :: "'p HeapAllocator \<Rightarrow> usize \<Rightarrow> usize \<Rightarrow> 'p HeapAllocator exec" where
  "insert_first h freeing_block sz =
     (let next_block = free_list_addr h;
          h1 = set_block h freeing_block \<lparr>fb_prev = 0, fb_next = next_block, fb_size = sz\<rparr> in
      bind_exec (link_next h1 next_block freeing_block) (\<lambda>h2.
      Ret (h2\<lparr>free_list_addr := freeing_block\<rparr>)))"

definition insert_after :: "'p HeapAllocator \<Rightarrow> usize \<Rightarrow> usize \<Rightarrow> usize \<Rightarrow> 'p HeapAllocator exec" where
  "insert_after h freeing_block closest_prev sz =
     bind_exec (block_at h closest_prev) (\<lambda>cb.
     let closest_next = fb_next cb;
         h1 = set_block h freeing_block \<lparr>fb_prev = closest_prev, fb_next = closest_next, fb_size = sz\<rparr> in
     bind_exec (block_at h1 closest_prev) (\<lambda>cb1.
     link_next (set_block h1 closest_prev (cb1\<lparr>fb_next := freeing_block\<rparr>)) closest_next freeing_block))"

definition free_block :: "'p HeapAllocator \<Rightarrow> usize \<Rightarrow> usize \<Rightarrow> 'p HeapAllocator exec" where
  "free_block h freeing_block sz =
     bind_exec (usize_add (heap_start h) (total_heap_size h)) (\<lambda>heap_end.
     assert_exec (freeing_block \<le> heap_end)
    (bind_exec (usize_add freeing_block sz) (\<lambda>freeing_end.
     assert_exec (freeing_end \<le> heap_end)
    (bind_exec (iter_free_blocks h) (\<lambda>bs.
     bind_exec (free_scan bs freeing_block freeing_end (0, 0, 0)) (\<lambda>(prev_block, next_block, closest_prev).
     if prev_block \<noteq> 0 \<and> next_block \<noteq> 0 then merge_both h prev_block next_block sz
     else if prev_block \<noteq> 0 then merge_prev h prev_block sz
     else if next_block \<noteq> 0 then merge_next h freeing_block next_block sz
     else if closest_prev = 0 then insert_first h freeing_block sz
     else insert_after h freeing_block closest_prev sz))))))"

section \<open>Growing the heap and finding room\<close>

definition allocate_more_pages :: "'p page_op \<Rightarrow> usize \<Rightarrow> 'p HeapAllocator \<Rightarrow> 'p HeapAllocator exec" where
  "allocate_more_pages allocate_pages npages h =
     assert_exec (npages > 0)
    (bind_exec (allocate_pages npages (page_allocator h)) (\<lambda>(r, p).
     case r of
       None \<Rightarrow> Panic UnwrapNone
     | Some new_heap_start \<Rightarrow>
         bind_exec (usize_mul npages PAGE_4K) (\<lambda>n.
         bind_exec (usize_add (total_heap_size h) n) (\<lambda>total.
         let h1 = h\<lparr>page_allocator := p, total_heap_size := total,
                    heap_start := (if total_heap_size h = 0 then new_heap_start else heap_start h)\<rparr> in
         bind_exec (if free_list_addr h1 = 0
            then Ret ((set_block h1 new_heap_start \<lparr>fb_prev = 0, fb_next = 0, fb_size = n\<rparr>)
                        \<lparr>free_list_addr := new_heap_start\<rparr>)
            else free_block h1 new_heap_start n) (\<lambda>h2.
         bind_exec (usize_add (free_size h2) n) (\<lambda>f. Ret (h2\<lparr>free_size := f\<rparr>)))))))"

fun best_fit :: "(usize \<times> HeapFreeBlock) list \<Rightarrow> usize \<Rightarrow> (usize \<times> HeapFreeBlock) option \<Rightarrow> (usize \<times> HeapFreeBlock) option" where
  "best_fit [] sz best = best"
| "best_fit ((a, b) # rest) sz best =
     best_fit rest sz
       (if fb_size b \<ge> sz \<and> (case best of None \<Rightarrow> True | Some (_, bb) \<Rightarrow> fb_size b < fb_size bb)
        then Some (a, b) else best)"

fun get_free_block :: "'p page_op \<Rightarrow> nat \<Rightarrow> usize \<Rightarrow> 'p HeapAllocator \<Rightarrow> (usize \<times> 'p HeapAllocator) exec" where
  "get_free_block allocate_pages fuel sz h =
     (let more = (\<lambda>_ :: unit.
            bind_exec (align_up sz PAGE_4K) (\<lambda>sz1.
            bind_exec (allocate_more_pages allocate_pages (sz1 div PAGE_4K) h) (\<lambda>h1.
            case fuel of 0 \<Rightarrow> Panic OutOfFuel | Suc n \<Rightarrow> get_free_block allocate_pages n sz1 h1))) in
      if total_heap_size h = 0 then more ()
      else bind_exec (iter_free_blocks h) (\<lambda>bs.
           case best_fit bs sz None of None \<Rightarrow> more () | Some (a, _) \<Rightarrow> Ret (a, h)))"

section \<open>Allocation and release\<close>

definition block_offset :: "usize \<Rightarrow> usize \<Rightarrow> usize exec" where
  "block_offset base al =
     bind_exec (align_up base al) (\<lambda>up.
     bind_exec (usize_sub up base) (\<lambda>possible_next_offset.
     if possible_next_offset < KERNEL_HEAP_BLOCK_INFO_SIZE
     then usize_add possible_next_offset (max KERNEL_HEAP_BLOCK_INFO_SIZE al)
     else Ret possible_next_offset))"

text \<open>Take the block out of the free list, or leave what remains of it in its place.\<close>

definition take_block :: "'p HeapAllocator \<Rightarrow> usize \<Rightarrow> usize \<Rightarrow> (usize \<times> 'p HeapAllocator) exec" where
  "take_block h base allocation_size =
     bind_exec (block_at h base) (\<lambda>fb.
     assert_exec (fb_size fb \<ge> allocation_size)
    (bind_exec (usize_add base allocation_size) (\<lambda>new_free_block.
     bind_exec (usize_add allocation_size SIZE_OF_FREE_BLOCK) (\<lambda>required_safe_size.
     if fb_size fb > required_safe_size
     then let h1 = set_block h new_free_block
                     \<lparr>fb_prev = fb_prev fb, fb_next = fb_next fb, fb_size = fb_size fb - allocation_size\<rparr> in
          bind_exec (link_next h1 (fb_next fb) new_free_block) (\<lambda>h2.
          bind_exec (link_prev h2 (fb_prev fb) new_free_block) (\<lambda>h3. Ret (allocation_size, h3)))
     else bind_exec (link_prev h (fb_prev fb) (fb_next fb)) (\<lambda>h1.
          bind_exec (block_at h1 base) (\<lambda>fb1.
          bind_exec (link_next h1 (fb_next fb1) (fb_prev fb1)) (\<lambda>h2. Ret (fb_size fb, h2))))))))"

definition heap_alloc :: "'p page_op \<Rightarrow> Layout \<Rightarrow> 'p HeapAllocator \<Rightarrow> (usize \<times> 'p HeapAllocator) exec" where
  "heap_alloc allocate_pages layout h =
     bind_exec (align_to layout (l_align block_info_layout)) (\<lambda>al_layout.
     bind_exec (layout_extend block_info_layout al_layout) (\<lambda>(whole_layout, block_offset_from_header).
     let allocation_size0 = l_size (pad_to_align whole_layout) in
     bind_exec (get_free_block allocate_pages 2 allocation_size0 h) (\<lambda>(base, h1).
     if base = 0 then Ret (0, h1)
     else bind_exec (is_aligned base (l_align block_info_layout)) (\<lambda>ok.
     assert_exec ok
    (bind_exec (block_offset base (l_align layout)) (\<lambda>allocated_block_offset.
     assert_exec (allocated_block_offset \<ge> KERNEL_HEAP_BLOCK_INFO_SIZE)
    (bind_exec (if allocated_block_offset > block_offset_from_header
                then usize_add allocation_size0 (allocated_block_offset - block_offset_from_header)
                else Ret allocation_size0) (\<lambda>allocation_size.
     bind_exec (usize_add base allocated_block_offset) (\<lambda>allocated_ptr.
     bind_exec (take_block h1 base allocation_size) (\<lambda>(this_allocation_size, h2).
     bind_exec (usize_sub (free_size h2) this_allocation_size) (\<lambda>f.
     bind_exec (usize_add (used_size h2) this_allocation_size) (\<lambda>u.
     let h3 = h2\<lparr>free_size := f, used_size := u\<rparr> in
     bind_exec (check_issues h3) (\<lambda>issues.
     if issues then Panic (Explicit ''Found issues in `alloc`'')
     else bind_exec (is_aligned allocated_ptr (l_align layout)) (\<lambda>al.
     assert_exec al
       (Ret (allocated_ptr,
         h3\<lparr>block_infos := (block_infos h3)(allocated_ptr - KERNEL_HEAP_BLOCK_INFO_SIZE \<mapsto>
           \<lparr>magic = HEAP_MAGIC, bi_size = this_allocation_size, pre_padding = allocated_block_offset\<rparr>)\<rparr>))))))))))))))))"

definition heap_dealloc :: "usize \<Rightarrow> Layout \<Rightarrow> 'p HeapAllocator \<Rightarrow> 'p HeapAllocator exec" where
  "heap_dealloc ptr layout h =
     assert_exec (ptr \<noteq> 0)
    (bind_exec (align_to layout 16) (\<lambda>al_layout.
     bind_exec (layout_extend block_info_layout al_layout) (\<lambda>(whole_layout, _).
     let size_to_free_from_layout = l_size (pad_to_align whole_layout) in
     bind_exec (usize_sub ptr KERNEL_HEAP_BLOCK_INFO_SIZE) (\<lambda>info_addr.
     case block_infos h info_addr of
       None \<Rightarrow> Panic Uninit
     | Some info \<Rightarrow>
         assert_exec (magic info = HEAP_MAGIC)
        (assert_exec (bi_size info \<ge> size_to_free_from_layout)
        (assert_exec (pre_padding info \<ge> KERNEL_HEAP_BLOCK_INFO_SIZE)
        (let this_allocation_size = bi_size info in
         bind_exec (usize_sub ptr (pre_padding info)) (\<lambda>freeing_block.
         bind_exec (free_block h freeing_block this_allocation_size) (\<lambda>h1.
         bind_exec (usize_sub (used_size h1) this_allocation_size) (\<lambda>u.
         bind_exec (usize_add (free_size h1) this_allocation_size) (\<lambda>f.
         let h2 = h1\<lparr>used_size := u, free_size := f\<rparr> in
         bind_exec (check_issues h2) (\<lambda>issues.
         if issues then Panic (Explicit ''Found issues in `dealloc`'') else Ret h2))))))))))))"

section \<open>The page provider of the kernel heap\<close>

record PageAllocator =
  pa_heap_start :: usize
  mapped_pages :: usize

definition PageAllocator_new :: PageAllocator where
  "PageAllocator_new = \<lparr>pa_heap_start = KERNEL_HEAP_BASE, mapped_pages = 0\<rparr>"

definition kernel_allocate_pages :: "VirtualMemoryMapper \<Rightarrow> (PageAllocator \<times> PhysicalPageAllocator) page_op" where
  "kernel_allocate_pages kvm npages = (\<lambda>(pa, st).
     assert_exec (npages > 0)
    (bind_exec (usize_mul (mapped_pages pa) PAGE_4K) (\<lambda>mapped.
     bind_exec (usize_add (pa_heap_start pa) mapped) (\<lambda>current_heap_base.
     bind_exec (usize_add (mapped_pages pa) npages) (\<lambda>total_pages.
     bind_exec (usize_mul total_pages PAGE_4K) (\<lambda>total_size.
     if total_size > KERNEL_HEAP_SIZE then Ret (None, (pa, st))
     else bind_exec (usize_mul PAGE_4K npages) (\<lambda>sz.
          bind_exec (map_kernel kvm \<lparr>virtual_address = current_heap_base, physical_address = None,
                       me_size = sz, me_flags = PTE_WRITABLE\<rparr> st) (\<lambda>st'.
          Ret (Some current_heap_base, (pa\<lparr>mapped_pages := total_pages\<rparr>, st'))))))))))"

end
