(* ===== verification/Heap_Alloc_Proofs.thy ===== *)
theory Heap_Alloc_Proofs
  imports Heap_Alloc
begin

text \<open>
  Correctness of the heap allocator.  The heap is a row of tiles, each free or in use, that covers
  the pages the provider gave; the doubly linked list in the heap holds exactly the free tiles, in
  order.  Every operation is shown to act on the row of tiles.
\<close>

section \<open>Doubly linked segments\<close>

fun dseg :: "(usize \<rightharpoonup> HeapFreeBlock) \<Rightarrow> usize \<Rightarrow> usize \<Rightarrow> (usize \<times> usize) list \<Rightarrow> usize \<Rightarrow> usize \<Rightarrow> bool" where
  "dseg m pv p [] nx l = (p = nx \<and> l = pv)"
| "dseg m pv p ((a, s) # xs) nx l =
     (p = a \<and> a \<noteq> 0
      \<and> (\<exists>n. m a = Some \<lparr>fb_prev = pv, fb_next = n, fb_size = s\<rparr> \<and> dseg m a n xs nx l))"

abbreviation addrs :: "(usize \<times> usize) list \<Rightarrow> usize set" where
  "addrs xs \<equiv> fst ` set xs"

lemma dseg_append:
  "dseg m pv p (xs @ ys) nx l \<longleftrightarrow> (\<exists>q r. dseg m pv p xs q r \<and> dseg m r q ys nx l)"
proof (induction xs arbitrary: pv p)
  case (Cons x xs)
  then show ?case by (cases x) fastforce
qed simp

lemma dseg_frame:
  "(\<And>a. a \<in> addrs xs \<Longrightarrow> m' a = m a) \<Longrightarrow> dseg m' pv p xs nx l = dseg m pv p xs nx l"
proof (induction xs arbitrary: pv p)
  case (Cons x xs)
  then show ?case by (cases x) simp
qed simp

lemma dseg_upd: "a \<notin> addrs xs \<Longrightarrow> dseg (m(a := v)) pv p xs nx l = dseg m pv p xs nx l"
  by (rule dseg_frame) auto

lemma dseg_last: "dseg m pv p xs nx l \<Longrightarrow> l = (if xs = [] then pv else fst (last xs))"
proof (induction xs arbitrary: pv p)
  case (Cons x xs)
  then show ?case by (cases x) fastforce
qed simp

lemma dseg_first: "dseg m pv p xs nx l \<Longrightarrow> p = (if xs = [] then nx else fst (hd xs))"
  by (cases xs) auto

lemma dseg_nonzero: "dseg m pv p xs nx l \<Longrightarrow> 0 \<notin> addrs xs"
proof (induction xs arbitrary: pv p)
  case (Cons x xs)
  then show ?case by (cases x) auto
qed simp

lemma dseg_set_next:
  assumes "dseg m pv p (xs @ [(a, s)]) q a" "a \<notin> addrs xs"
  shows "\<exists>b. m a = Some b \<and> fb_next b = q \<and> fb_size b = s
    \<and> dseg (m(a \<mapsto> b\<lparr>fb_next := q'\<rparr>)) pv p (xs @ [(a, s)]) q' a"
proof -
  obtain r where "dseg m pv p xs a r" "m a = Some \<lparr>fb_prev = r, fb_next = q, fb_size = s\<rparr>" "a \<noteq> 0"
    using assms(1) by (auto simp: dseg_append)
  moreover have "dseg (m(a \<mapsto> \<lparr>fb_prev = r, fb_next = q', fb_size = s\<rparr>)) pv p xs a r = dseg m pv p xs a r"
    by (rule dseg_frame) (use assms(2) in auto)
  ultimately show ?thesis by (auto simp: dseg_append)
qed

lemma dseg_set_prev:
  assumes "dseg m r a ((a, s) # ys) nx l" "a \<notin> addrs ys"
  shows "\<exists>b. m a = Some b \<and> fb_prev b = r \<and> fb_size b = s
    \<and> dseg (m(a \<mapsto> b\<lparr>fb_prev := r'\<rparr>)) r' a ((a, s) # ys) nx l"
proof -
  obtain n where n: "m a = Some \<lparr>fb_prev = r, fb_next = n, fb_size = s\<rparr>" "dseg m a n ys nx l" "a \<noteq> 0"
    using assms(1) by auto
  moreover have "dseg (m(a \<mapsto> \<lparr>fb_prev = r', fb_next = n, fb_size = s\<rparr>)) a n ys nx l = dseg m a n ys nx l"
    by (rule dseg_frame) (use assms(2) in auto)
  ultimately show ?thesis by auto
qed

text \<open>The two linking operations on the part of the list before, and after, a position.\<close>

lemma link_prev_spec:
  assumes "dseg (free_blocks h) 0 (free_list_addr h) xs q r" "distinct (map fst xs)"
  shows "\<exists>m f. link_prev h r q' = Ret (h\<lparr>free_blocks := m, free_list_addr := f\<rparr>)
    \<and> dseg m 0 f xs q' r \<and> (\<forall>a. a \<notin> addrs xs \<longrightarrow> m a = free_blocks h a)"
proof (cases xs rule: rev_exhaust)
  case Nil
  then have "link_prev h r q' = Ret (h\<lparr>free_blocks := free_blocks h, free_list_addr := q'\<rparr>)" "r = 0"
    using assms(1) by (auto simp: link_prev_def)
  then show ?thesis using Nil by (intro exI[of _ "free_blocks h"] exI[of _ q']) simp
next
  case (snoc ys y)
  obtain a s where y: "y = (a, s)" by (cases y)
  have r: "r = a" using dseg_last[OF assms(1)] snoc y by simp
  obtain b where b: "free_blocks h a = Some b"
      "dseg ((free_blocks h)(a \<mapsto> b\<lparr>fb_next := q'\<rparr>)) 0 (free_list_addr h) xs q' a"
    using dseg_set_next[of "free_blocks h" 0 "free_list_addr h" ys a s q q'] assms snoc y r by auto
  have "a \<noteq> 0" using dseg_nonzero[OF assms(1)] snoc y by auto
  then have "link_prev h r q' = Ret (h\<lparr>free_blocks := (free_blocks h)(a \<mapsto> b\<lparr>fb_next := q'\<rparr>),
      free_list_addr := free_list_addr h\<rparr>)"
    using r b(1) by (simp add: link_prev_def block_at_def set_block_def)
  then show ?thesis using b(2) r snoc y by fastforce
qed

lemma link_next_spec:
  assumes "dseg (free_blocks h) r q ys 0 l" "distinct (map fst ys)"
  shows "\<exists>m l'. link_next h q r' = Ret (h\<lparr>free_blocks := m\<rparr>)
    \<and> dseg m r' q ys 0 l' \<and> (\<forall>a. a \<notin> addrs ys \<longrightarrow> m a = free_blocks h a)"
proof (cases ys)
  case Nil
  then have "link_next h q r' = Ret (h\<lparr>free_blocks := free_blocks h\<rparr>)"
    using assms(1) by (auto simp: link_next_def)
  then show ?thesis using Nil assms(1) by (intro exI[of _ "free_blocks h"] exI[of _ r']) simp
next
  case (Cons y zs)
  obtain a s where y: "y = (a, s)" by (cases y)
  have q: "q = a" using assms(1) Cons y by simp
  obtain b where b: "free_blocks h a = Some b"
      "dseg ((free_blocks h)(a \<mapsto> b\<lparr>fb_prev := r'\<rparr>)) r' a ys 0 l"
    using dseg_set_prev[of "free_blocks h" r a s zs 0 l r'] assms Cons y q by auto
  have "a \<noteq> 0" using dseg_nonzero[OF assms(1)] Cons y by auto
  then have "link_next h q r' = Ret (h\<lparr>free_blocks := (free_blocks h)(a \<mapsto> b\<lparr>fb_prev := r'\<rparr>)\<rparr>)"
    using q b(1) by (simp add: link_next_def block_at_def set_block_def)
  then show ?thesis using b(2) q Cons y by fastforce
qed

section \<open>Walks\<close>

definition sizes :: "(usize \<times> HeapFreeBlock) list \<Rightarrow> (usize \<times> usize) list" where
  "sizes bs = map (\<lambda>(a, b). (a, fb_size b)) bs"

declare iter_blocks.simps [simp del] floyd.simps [simp del] count_back.simps [simp del]

lemma iter_blocks_dseg:
  assumes "dseg (free_blocks h) pv p xs 0 l" "length xs \<le> fuel"
  shows "\<exists>bs. iter_blocks fuel h p = Ret bs \<and> sizes bs = xs"
  using assms
proof (induction xs arbitrary: pv p fuel)
  case (Cons x xs)
  obtain a s where x: "x = (a, s)" by (cases x)
  obtain n where n: "p = a" "a \<noteq> 0" "free_blocks h a = Some \<lparr>fb_prev = pv, fb_next = n, fb_size = s\<rparr>"
      "dseg (free_blocks h) a n xs 0 l"
    using Cons.prems(1) x by auto
  obtain k where k: "fuel = Suc k" "length xs \<le> k" using Cons.prems(2) by (cases fuel) auto
  obtain bs where "iter_blocks k h n = Ret bs" "sizes bs = xs" using Cons.IH[OF n(4) k(2)] by blast
  then show ?case
    using n k x by (simp add: iter_blocks.simps[of "Suc k"] block_at_def sizes_def)
qed (simp add: iter_blocks.simps sizes_def)

text \<open>In a proper list \<open>fast\<close> stays ahead of \<open>slow\<close> until it falls off the end.\<close>

lemma dseg_index:
  assumes "dseg m pv p xs 0 l" "i < length xs"
  shows "\<exists>b. m (fst (xs ! i)) = Some b \<and> fb_next b = (if Suc i < length xs then fst (xs ! Suc i) else 0)"
  using assms
proof (induction xs arbitrary: pv p i)
  case (Cons x xs)
  obtain a s where x: "x = (a, s)" by (cases x)
  obtain n where n: "m a = Some \<lparr>fb_prev = pv, fb_next = n, fb_size = s\<rparr>" "dseg m a n xs 0 l"
    using Cons.prems(1) x by auto
  show ?case
  proof (cases i)
    case 0
    have "n = (if xs = [] then 0 else fst (hd xs))" by (rule dseg_first[OF n(2)])
    then show ?thesis using 0 n(1) x by (auto simp: hd_conv_nth)
  next
    case (Suc j)
    then show ?thesis using Cons.IH[OF n(2), of j] Cons.prems(2) by auto
  qed
qed simp

definition nth_addr :: "(usize \<times> usize) list \<Rightarrow> nat \<Rightarrow> usize" where
  "nth_addr xs i = (if i < length xs then fst (xs ! i) else 0)"

lemma next_of_nth:
  assumes "dseg (free_blocks h) pv p xs 0 l" "i < length xs"
  shows "next_of h (nth_addr xs i) = Ret (nth_addr xs (Suc i))"
  using dseg_index[OF assms] assms(2) by (auto simp: next_of_def block_at_def nth_addr_def)

lemma nth_addr_neq:
  assumes "distinct (map fst xs)" "0 \<notin> addrs xs" "i < length xs" "i < j"
  shows "nth_addr xs j \<noteq> nth_addr xs i"
proof (cases "j < length xs")
  case True
  then show ?thesis
    using assms nth_eq_iff_index_eq[OF assms(1), of j i] by (simp add: nth_addr_def)
next
  case False
  have "fst (xs ! i) \<in> addrs xs" using assms(3) by (auto intro!: imageI)
  with False show ?thesis using assms(2,3) by (auto simp: nth_addr_def)
qed

lemma nth_addr_zero: "0 \<notin> addrs xs \<Longrightarrow> nth_addr xs i = 0 \<longleftrightarrow> length xs \<le> i"
proof -
  assume "0 \<notin> addrs xs"
  moreover have "i < length xs \<Longrightarrow> fst (xs ! i) \<in> addrs xs" by (auto intro!: imageI)
  ultimately show ?thesis by (auto simp: nth_addr_def)
qed

lemma floyd_False:
  assumes d: "dseg (free_blocks h) pv p xs 0 l" and dist: "distinct (map fst xs)"
    and "i < length xs" "i < j" "j \<le> length xs" "length xs \<le> j + fuel"
  shows "floyd (Suc fuel) h (nth_addr xs i) (nth_addr xs j) = Ret False"
  using assms(3-6)
proof (induction fuel arbitrary: i j)
  case 0
  have z: "0 \<notin> addrs xs" by (rule dseg_nonzero[OF d])
  have "j = length xs" using 0 by simp
  then show ?case using nth_addr_neq[OF dist z] 0 nth_addr_zero[OF z] by (simp add: floyd.simps)
next
  case (Suc fuel)
  have z: "0 \<notin> addrs xs" by (rule dseg_nonzero[OF d])
  note zero = nth_addr_zero[OF z] and neq = nth_addr_neq[OF dist z]
  show ?case
  proof (cases "Suc j < length xs")
    case True
    then have "floyd (Suc fuel) h (nth_addr xs (Suc i)) (nth_addr xs (Suc (Suc j))) = Ret False"
      using Suc.prems by (intro Suc.IH) auto
    then show ?thesis
      using True Suc.prems neq zero next_of_nth[OF d] by (simp add: floyd.simps[of "Suc (Suc fuel)"])
  next
    case False
    then have "j = length xs \<or> Suc j = length xs" using Suc.prems by linarith
    then show ?thesis
      using Suc.prems neq zero next_of_nth[OF d] by (auto simp: floyd.simps[of "Suc (Suc fuel)"])
  qed
qed

lemma count_back_dseg:
  assumes "dseg (free_blocks h) 0 p xs q l" "length xs \<le> fuel"
  shows "count_back fuel h l = Ret (length xs)"
  using assms
proof (induction xs arbitrary: q l fuel rule: rev_induct)
  case (snoc x xs)
  obtain a s where x: "x = (a, s)" by (cases x)
  obtain r where r: "dseg (free_blocks h) 0 p xs a r" "l = a" "a \<noteq> 0"
      "free_blocks h a = Some \<lparr>fb_prev = r, fb_next = q, fb_size = s\<rparr>"
    using snoc.prems(1) x by (auto simp: dseg_append)
  obtain k where k: "fuel = Suc k" "length xs \<le> k" using snoc.prems(2) by (cases fuel) auto
  show ?case using snoc.IH[OF r(1) k(2)] r k by (simp add: count_back.simps[of "Suc k"] block_at_def)
qed (simp add: count_back.simps)

lemma last_sizes: "bs \<noteq> [] \<Longrightarrow> fst (last (sizes bs)) = fst (last bs)"
  by (simp add: sizes_def last_map split: prod.splits)

lemma check_issues_False:
  assumes d: "dseg (free_blocks h) 0 (free_list_addr h) xs 0 l" and dist: "distinct (map fst xs)"
    and len: "length xs \<le> total_heap_size h"
  shows "check_issues h = Ret False"
proof -
  have z: "0 \<notin> addrs xs" by (rule dseg_nonzero[OF d])
  have start: "free_list_addr h = nth_addr xs 0"
    using dseg_first[OF d] by (auto simp: nth_addr_def hd_conv_nth)
  have "is_free_blocks_in_cycle h = Ret False"
  proof (cases "xs = []")
    case False
    then have "floyd (Suc (total_heap_size h)) h (nth_addr xs 0) (nth_addr xs 1) = Ret False"
      using floyd_False[OF d dist, of 0 1 "total_heap_size h"] len by (cases xs) auto
    then show ?thesis
      using False next_of_nth[OF d, of 0] nth_addr_zero[OF z, of 0]
      by (simp add: is_free_blocks_in_cycle_def start heap_fuel_def Let_def)
  qed (use d in \<open>simp add: is_free_blocks_in_cycle_def\<close>)
  moreover obtain bs where bs: "iter_free_blocks h = Ret bs" "sizes bs = xs"
    using iter_blocks_dseg[OF d, of "heap_fuel h"] len by (auto simp: iter_free_blocks_def heap_fuel_def)
  moreover have "(if bs = [] then 0 else fst (last bs)) = l"
    using dseg_last[OF d] last_sizes[of bs] bs(2) by (auto simp: sizes_def)
  moreover have "length bs = length xs" using bs(2) by (auto simp: sizes_def)
  ultimately show ?thesis
    using count_back_dseg[OF d, of "heap_fuel h"] len
    by (simp add: check_issues_def check_free_blocks_def heap_fuel_def)
qed

section \<open>The row of tiles\<close>

type_synonym tile = "usize \<times> usize \<times> bool"

fun tiling :: "usize \<Rightarrow> tile list \<Rightarrow> usize \<Rightarrow> bool" where
  "tiling lo [] hi = (lo = hi)"
| "tiling lo ((a, s, used) # ps) hi = (a = lo \<and> 16 dvd s \<and> 32 \<le> s \<and> tiling (lo + s) ps hi)"

fun frees :: "tile list \<Rightarrow> (usize \<times> usize) list" where
  "frees [] = []"
| "frees ((a, s, used) # ps) = (if used then frees ps else (a, s) # frees ps)"

fun total_of :: "bool \<Rightarrow> tile list \<Rightarrow> nat" where
  "total_of u [] = 0"
| "total_of u ((a, s, used) # ps) = (if used = u then s else 0) + total_of u ps"

definition free_head :: "tile list \<Rightarrow> bool" where
  "free_head ps \<longleftrightarrow> (case ps of [] \<Rightarrow> False | (_, _, used) # _ \<Rightarrow> \<not> used)"

text \<open>No two free tiles are neighbours: releasing a block always merges it.\<close>

fun coalesced :: "tile list \<Rightarrow> bool" where
  "coalesced [] = True"
| "coalesced ((a, s, used) # ps) = ((used \<or> \<not> free_head ps) \<and> coalesced ps)"

lemma frees_append [simp]: "frees (ps @ qs) = frees ps @ frees qs"
  by (induction ps rule: frees.induct) auto

lemma total_of_append [simp]: "total_of u (ps @ qs) = total_of u ps + total_of u qs"
  by (induction ps rule: frees.induct) auto

lemma tiling_le: "tiling lo ps hi \<Longrightarrow> lo \<le> hi"
  by (induction lo ps hi rule: tiling.induct) auto

lemma tiling_append: "tiling lo (ps @ qs) hi \<longleftrightarrow> (\<exists>mid. tiling lo ps mid \<and> tiling mid qs hi)"
  by (induction ps arbitrary: lo rule: frees.induct) auto

lemma tiling_total: "tiling lo ps hi \<Longrightarrow> lo + total_of True ps + total_of False ps = hi"
  by (induction lo ps hi rule: tiling.induct) auto

lemma tiling_mem:
  "tiling lo ps hi \<Longrightarrow> (a, s, u) \<in> set ps \<Longrightarrow> lo \<le> a \<and> a + s \<le> hi \<and> 16 dvd s \<and> 32 \<le> s"
proof (induction lo ps hi rule: tiling.induct)
  case (2 lo b t used ps hi)
  then show ?case using tiling_le[of "lo + t" ps hi] by auto
qed simp

lemma tiling_aligned: "tiling lo ps hi \<Longrightarrow> (16 :: nat) dvd lo \<Longrightarrow> (a, s, u) \<in> set ps \<Longrightarrow> 16 dvd a"
  by (induction lo ps hi rule: tiling.induct) auto

lemma tile_unique:
  assumes "tiling lo (P @ (b, k, u) # Q) hi"
  shows "(b, k', v) \<notin> set P \<union> set Q"
proof -
  have t: "tiling lo P b" "tiling (b + k) Q hi" "32 \<le> k" using assms by (auto simp: tiling_append)
  show ?thesis using tiling_mem[OF t(1), of b k' v] tiling_mem[OF t(2), of b k' v] t(3) by auto
qed

lemma frees_mem: "(a, s) \<in> set (frees ps) \<longleftrightarrow> (a, s, False) \<in> set ps"
  by (induction ps rule: frees.induct) auto

lemma frees_bounds: "tiling lo ps hi \<Longrightarrow> (a, s) \<in> set (frees ps) \<Longrightarrow> lo \<le> a \<and> a + s \<le> hi \<and> 32 \<le> s"
  using tiling_mem by (fastforce simp: frees_mem)

lemma addrs_bounds: "tiling lo ps hi \<Longrightarrow> a \<in> addrs (frees ps) \<Longrightarrow> lo \<le> a \<and> a < hi"
  using frees_bounds by fastforce

lemma frees_distinct: "tiling lo ps hi \<Longrightarrow> distinct (map fst (frees ps))"
proof (induction lo ps hi rule: tiling.induct)
  case (2 lo a s used ps hi)
  then have "a \<notin> addrs (frees ps)" using addrs_bounds[of "lo + s" ps hi a] by auto
  then show ?case using 2 by (auto simp: image_iff)
qed simp

lemma frees_length: "tiling lo ps hi \<Longrightarrow> length (frees ps) \<le> hi - lo"
proof (induction lo ps hi rule: tiling.induct)
  case (2 lo a s used ps hi)
  then show ?case using tiling_le[of "lo + s" ps hi] by auto
qed simp

section \<open>The search of free_block\<close>

definition last_free :: "tile list \<Rightarrow> usize" where
  "last_free ps = (if ps \<noteq> [] \<and> \<not> snd (snd (last ps)) then fst (last ps) else 0)"

definition closest_free :: "tile list \<Rightarrow> usize" where
  "closest_free ps = (if frees ps = [] then 0 else fst (last (frees ps)))"

lemma free_scan_before:
  assumes "tiling lo P f" "sizes bs = frees P" "f < e" "e < usize_bound" "0 < lo" "cl < lo"
  shows "free_scan (bs @ rest) f e (pv, nx, cl)
    = free_scan rest f e
        (if P \<noteq> [] \<and> \<not> snd (snd (last P)) then fst (last P) else pv, nx,
         if frees P = [] then cl else fst (last (frees P)))"
  using assms
proof (induction lo P f arbitrary: bs pv cl rule: tiling.induct)
  case (2 lo a s used P f)
  have t: "a = lo" "32 \<le> s" "tiling (lo + s) P f" using "2.prems"(1) by auto
  have le: "lo + s \<le> f" using tiling_le[OF t(3)] .
  have last_end: "P \<noteq> [] \<Longrightarrow> lo + s < f"
    using t(3) tiling_le by (cases P) (fastforce dest: tiling_le)+
  show ?case
  proof (cases used)
    case True
    then show ?thesis
      using "2.IH"[OF t(3), of bs cl pv] "2.prems" t by (cases "P = []") auto
  next
    case False
    then obtain b bs' where bs: "bs = (a, b) # bs'" "fb_size b = s" "sizes bs' = frees P"
      using "2.prems"(2) by (auto simp: sizes_def)
    have "free_scan (bs @ rest) f e (pv, nx, cl)
      = free_scan (bs' @ rest) f e (if lo + s = f then a else pv, nx, a)"
    proof -
      have "lo + s < usize_bound" "e \<noteq> lo" "lo \<noteq> f" "lo < f" "\<not> e \<le> lo"
        using le t(2) "2.prems"(3,4) by linarith+
      then show ?thesis using bs t le "2.prems"(6) by (simp add: usize_add_def)
    qed
    also have "\<dots> = free_scan rest f e
        (if P \<noteq> [] \<and> \<not> snd (snd (last P)) then fst (last P) else (if lo + s = f then a else pv), nx,
         if frees P = [] then a else fst (last (frees P)))"
      using "2.IH"[OF t(3) bs(3), of a "if lo + s = f then a else pv"] "2.prems"(3-5) t last_end by (cases "P = []") auto
    finally show ?thesis using False last_end t by (cases "P = []") auto
  qed
qed (auto simp: sizes_def)

lemma free_scan_after:
  assumes "tiling lo Q hi" "sizes bs = frees Q" "f < e" "e \<le> lo" "hi < usize_bound"
  shows "free_scan bs f e (pv, nx, cl) = Ret (pv, if free_head Q \<and> e = lo then e else nx, cl)"
  using assms
proof (induction lo Q hi arbitrary: bs nx rule: tiling.induct)
  case (2 lo a s used Q hi)
  have t: "a = lo" "32 \<le> s" "tiling (lo + s) Q hi" using "2.prems"(1) by auto
  have le: "lo + s \<le> hi" using tiling_le[OF t(3)] .
  show ?case
  proof (cases used)
    case True
    then show ?thesis using "2.IH"[OF t(3), of bs nx] "2.prems" t by (simp add: free_head_def)
  next
    case False
    then obtain b bs' where bs: "bs = (a, b) # bs'" "fb_size b = s" "sizes bs' = frees Q"
      using "2.prems"(2) by (auto simp: sizes_def)
    then show ?thesis
      using "2.IH"[OF t(3) bs(3), of "if e = a then a else nx"] "2.prems" t le False
      by (auto simp: usize_add_def free_head_def)
  qed
qed (auto simp: sizes_def free_head_def)

lemma sizes_split: "sizes bs = xs @ ys \<Longrightarrow> \<exists>bs1 bs2. bs = bs1 @ bs2 \<and> sizes bs1 = xs \<and> sizes bs2 = ys"
  by (auto simp: sizes_def map_eq_append_conv)

lemma free_scan_tiles:
  assumes "tiling lo P f" "tiling e Q hi" "sizes bs = frees P @ frees Q" "f < e" "hi < usize_bound" "0 < lo"
  shows "free_scan bs f e (0, 0, 0) = Ret (last_free P, if free_head Q then e else 0, closest_free P)"
proof -
  obtain bs1 bs2 where bs: "bs = bs1 @ bs2" "sizes bs1 = frees P" "sizes bs2 = frees Q"
    using sizes_split[OF assms(3)] by blast
  have "e < usize_bound" using tiling_le[OF assms(2)] assms(5) by simp
  with free_scan_before[OF assms(1) bs(2) assms(4) _ assms(6), of 0 bs2 0 0]
    free_scan_after[OF assms(2) bs(3) assms(4) _ assms(5)] assms(6)
  show ?thesis by (simp add: bs(1) last_free_def closest_free_def)
qed

section \<open>Releasing a block\<close>

text \<open>The free list of a row of tiles.\<close>

definition dll :: "'p HeapAllocator \<Rightarrow> (usize \<times> usize) list \<Rightarrow> bool" where
  "dll h xs \<longleftrightarrow> (\<exists>l. dseg (free_blocks h) 0 (free_list_addr h) xs 0 l)"

definition heap_end :: "'p HeapAllocator \<Rightarrow> usize" where
  "heap_end h = heap_start h + total_heap_size h"

lemma dll_split:
  "dll h (xs @ ys) \<longleftrightarrow> (\<exists>q r l. dseg (free_blocks h) 0 (free_list_addr h) xs q r \<and> dseg (free_blocks h) r q ys 0 l)"
  by (auto simp: dll_def dseg_append)

lemma addr_notin:
  assumes "tiling lo P f" "tiling e Q hi" "f < e"
  shows "f \<notin> addrs (frees P @ frees Q)" "a \<in> addrs (frees P) \<Longrightarrow> a \<notin> addrs (frees Q)"
    "distinct (map fst (frees P @ frees Q))"
proof -
  show 1: "a \<in> addrs (frees P) \<Longrightarrow> a \<notin> addrs (frees Q)" for a
    using addrs_bounds[OF assms(1), of a] addrs_bounds[OF assms(2), of a] assms(3) by linarith
  show "f \<notin> addrs (frees P @ frees Q)"
    using addrs_bounds[OF assms(1), of f] addrs_bounds[OF assms(2), of f] assms(3) by auto
  show "distinct (map fst (frees P @ frees Q))"
    using frees_distinct[OF assms(1)] frees_distinct[OF assms(2)] 1 by auto
qed

lemma last_free_cases:
  "last_free P = 0 \<or> (\<exists>P' s. P = P' @ [(last_free P, s, False)])"
proof (cases P rule: rev_exhaust)
  case (snoc P' t)
  obtain a s u where "t = (a, s, u)" by (cases t)
  then show ?thesis using snoc by (auto simp: last_free_def)
qed (simp add: last_free_def)

lemma insert_first_dll:
  assumes "dll h ys" "f \<noteq> 0" "f \<notin> addrs ys" "distinct (map fst ys)"
  shows "\<exists>m a. insert_first h f sz = Ret (h\<lparr>free_blocks := m, free_list_addr := a\<rparr>)
    \<and> dll (h\<lparr>free_blocks := m, free_list_addr := a\<rparr>) ((f, sz) # ys)"
proof -
  let ?h1 = "set_block h f \<lparr>fb_prev = 0, fb_next = free_list_addr h, fb_size = sz\<rparr>"
  obtain l where "dseg (free_blocks h) 0 (free_list_addr h) ys 0 l" using assms(1) by (auto simp: dll_def)
  then have "dseg (free_blocks ?h1) 0 (free_list_addr h) ys 0 l"
    by (simp add: set_block_def dseg_upd[OF assms(3)])
  from link_next_spec[OF this assms(4), of f] obtain m l' where
    m: "link_next ?h1 (free_list_addr h) f = Ret (?h1\<lparr>free_blocks := m\<rparr>)"
      "dseg m f (free_list_addr h) ys 0 l'" "\<And>a. a \<notin> addrs ys \<Longrightarrow> m a = free_blocks ?h1 a" by blast
  have "m f = Some \<lparr>fb_prev = 0, fb_next = free_list_addr h, fb_size = sz\<rparr>"
    using m(3)[OF assms(3)] by (simp add: set_block_def)
  then show ?thesis
    using m(1,2) assms(2) by (auto simp: insert_first_def Let_def dll_def set_block_def)
qed

lemma block_at_simp: "free_blocks h a = Some b \<Longrightarrow> block_at h a = Ret b"
  by (simp add: block_at_def)

lemma dll_node:
  assumes "dll h (xs @ (a, s) # ys)"
  obtains r n l where "dseg (free_blocks h) 0 (free_list_addr h) xs a r"
    "free_blocks h a = Some \<lparr>fb_prev = r, fb_next = n, fb_size = s\<rparr>"
    "dseg (free_blocks h) a n ys 0 l" "a \<noteq> 0"
  using assms by (auto simp: dll_split)

text \<open>
  A header that is complete except that its neighbours do not know it yet: linking both sides puts
  it into the list.
\<close>

lemma relink:
  assumes "dseg (free_blocks h) 0 (free_list_addr h) xs q r" "dseg (free_blocks h) b n ys 0 l"
    and "free_blocks h f = Some \<lparr>fb_prev = r, fb_next = n, fb_size = z\<rparr>" "f \<noteq> 0"
    and "distinct (map fst (xs @ ys))" "f \<notin> addrs (xs @ ys)"
  shows "\<exists>m1 m2 a. link_next h n f = Ret (h\<lparr>free_blocks := m1\<rparr>)
    \<and> link_prev (h\<lparr>free_blocks := m1\<rparr>) r f = Ret (h\<lparr>free_blocks := m2, free_list_addr := a\<rparr>)
    \<and> dll (h\<lparr>free_blocks := m2, free_list_addr := a\<rparr>) (xs @ (f, z) # ys)
    \<and> (\<forall>x. x \<notin> addrs ys \<longrightarrow> m1 x = free_blocks h x)"
proof -
  have d: "distinct (map fst xs)" "distinct (map fst ys)" and dj: "\<And>a. a \<in> addrs xs \<Longrightarrow> a \<notin> addrs ys"
    using assms(5) by auto
  from link_next_spec[OF assms(2) d(2), of f] obtain m1 l1 where m1:
    "link_next h n f = Ret (h\<lparr>free_blocks := m1\<rparr>)" "dseg m1 f n ys 0 l1"
    "\<forall>a. a \<notin> addrs ys \<longrightarrow> m1 a = free_blocks h a" by blast
  let ?h1 = "h\<lparr>free_blocks := m1\<rparr>"
  have "dseg m1 0 (free_list_addr h) xs q r = dseg (free_blocks h) 0 (free_list_addr h) xs q r"
    by (rule dseg_frame) (use m1(3) dj in blast)
  then have "dseg (free_blocks ?h1) 0 (free_list_addr ?h1) xs q r" using assms(1) by simp
  from link_prev_spec[OF this d(1), of f] obtain m2 a where m2:
    "link_prev ?h1 r f = Ret (?h1\<lparr>free_blocks := m2, free_list_addr := a\<rparr>)" "dseg m2 0 a xs f r"
    "\<forall>a. a \<notin> addrs xs \<longrightarrow> m2 a = m1 a" by auto
  have "dseg m2 f n ys 0 l1 = dseg m1 f n ys 0 l1"
    by (rule dseg_frame) (use m2(3) dj in blast)
  moreover have "m2 f = Some \<lparr>fb_prev = r, fb_next = n, fb_size = z\<rparr>"
    using m2(3) m1(3) assms(3,6) by (simp add: image_Un)
  ultimately have "dll (h\<lparr>free_blocks := m2, free_list_addr := a\<rparr>) (xs @ (f, z) # ys)"
    using m2(2) m1(2) assms(4) by (auto simp: dll_split)
  then show ?thesis using m1 m2 by auto
qed

lemma merge_next_dll:
  assumes "dll h (xs @ (e, t) # ys)" "f \<noteq> 0" "f \<notin> addrs (xs @ (e, t) # ys)"
    and "distinct (map fst (xs @ (e, t) # ys))" "t + sz < usize_bound"
  shows "\<exists>m a. merge_next h f e sz = Ret (h\<lparr>free_blocks := m, free_list_addr := a\<rparr>)
    \<and> dll (h\<lparr>free_blocks := m, free_list_addr := a\<rparr>) (xs @ (f, t + sz) # ys)"
proof -
  obtain r n l where s: "dseg (free_blocks h) 0 (free_list_addr h) xs e r"
      "free_blocks h e = Some \<lparr>fb_prev = r, fb_next = n, fb_size = t\<rparr>"
      "dseg (free_blocks h) e n ys 0 l" "e \<noteq> 0" using dll_node[OF assms(1)] by blast
  let ?h1 = "set_block h f \<lparr>fb_prev = r, fb_next = n, fb_size = t + sz\<rparr>"
  have nf: "f \<notin> addrs xs" "f \<notin> addrs ys" "f \<noteq> e" using assms(3) by auto
  have s1: "dseg (free_blocks ?h1) 0 (free_list_addr ?h1) xs e r" "dseg (free_blocks ?h1) e n ys 0 l"
    using s by (simp_all add: set_block_def dseg_upd nf)
  have f: "free_blocks ?h1 f = Some \<lparr>fb_prev = r, fb_next = n, fb_size = t + sz\<rparr>"
    by (simp add: set_block_def)
  have "distinct (map fst (xs @ ys))" "f \<notin> addrs (xs @ ys)" using assms(3,4) by auto
  from relink[OF s1 f assms(2) this] obtain m1 m2 a where m:
    "link_next ?h1 n f = Ret (?h1\<lparr>free_blocks := m1\<rparr>)"
    "link_prev (?h1\<lparr>free_blocks := m1\<rparr>) r f = Ret (?h1\<lparr>free_blocks := m2, free_list_addr := a\<rparr>)"
    "dll (?h1\<lparr>free_blocks := m2, free_list_addr := a\<rparr>) (xs @ (f, t + sz) # ys)"
    "\<forall>x. x \<notin> addrs ys \<longrightarrow> m1 x = free_blocks ?h1 x" by blast
  have e: "free_blocks ?h1 e = free_blocks h e" using nf(3) by (simp add: set_block_def)
  have "e \<notin> addrs ys" using assms(4) by auto
  then have "m1 e = free_blocks h e" using m(4) e by simp
  then have "merge_next h f e sz = Ret (?h1\<lparr>free_blocks := m2, free_list_addr := a\<rparr>)"
    using s(2) e m(1,2) assms(5) by (simp add: merge_next_def block_at_def usize_add_def Let_def)
  moreover have "?h1\<lparr>free_blocks := m2, free_list_addr := a\<rparr> = h\<lparr>free_blocks := m2, free_list_addr := a\<rparr>"
    by (simp add: set_block_def)
  ultimately show ?thesis using m(3) by auto
qed

lemma merge_prev_dll:
  assumes "dll h (xs @ (a, s) # ys)" "distinct (map fst (xs @ (a, s) # ys))" "s + sz < usize_bound"
  shows "\<exists>m. merge_prev h a sz = Ret (h\<lparr>free_blocks := m\<rparr>)
    \<and> dll (h\<lparr>free_blocks := m\<rparr>) (xs @ (a, s + sz) # ys)"
proof -
  obtain r n l where 1: "dseg (free_blocks h) 0 (free_list_addr h) xs a r"
      "free_blocks h a = Some \<lparr>fb_prev = r, fb_next = n, fb_size = s\<rparr>"
      "dseg (free_blocks h) a n ys 0 l" "a \<noteq> 0" using dll_node[OF assms(1)] by blast
  let ?m = "(free_blocks h)(a \<mapsto> \<lparr>fb_prev = r, fb_next = n, fb_size = s + sz\<rparr>)"
  have "a \<notin> addrs xs" "a \<notin> addrs ys" using assms(2) by auto
  then have "dll (h\<lparr>free_blocks := ?m\<rparr>) (xs @ (a, s + sz) # ys)"
    using 1 by (auto simp: dll_split dseg_upd)
  moreover have "merge_prev h a sz = Ret (h\<lparr>free_blocks := ?m\<rparr>)"
    using 1(2) assms(3) by (simp add: merge_prev_def block_at_def usize_add_def set_block_def)
  ultimately show ?thesis by blast
qed

lemma insert_after_dll:
  assumes "dll h (xs @ (c, t) # ys)" "f \<noteq> 0" "f \<notin> addrs (xs @ (c, t) # ys)"
    and "distinct (map fst (xs @ (c, t) # ys))"
  shows "\<exists>m. insert_after h f c sz = Ret (h\<lparr>free_blocks := m\<rparr>)
    \<and> dll (h\<lparr>free_blocks := m\<rparr>) (xs @ (c, t) # (f, sz) # ys)"
proof -
  obtain r n l where 1: "dseg (free_blocks h) 0 (free_list_addr h) xs c r"
      "free_blocks h c = Some \<lparr>fb_prev = r, fb_next = n, fb_size = t\<rparr>"
      "dseg (free_blocks h) c n ys 0 l" "c \<noteq> 0" using dll_node[OF assms(1)] by blast
  let ?m = "(free_blocks h)(f \<mapsto> \<lparr>fb_prev = c, fb_next = n, fb_size = sz\<rparr>,
      c \<mapsto> \<lparr>fb_prev = r, fb_next = f, fb_size = t\<rparr>)"
  let ?h = "h\<lparr>free_blocks := ?m\<rparr>"
  have nf: "f \<notin> addrs xs" "f \<notin> addrs ys" "f \<noteq> c" and nc: "c \<notin> addrs xs" "c \<notin> addrs ys"
    using assms(3,4) by auto
  have "dseg (free_blocks ?h) c n ys 0 l" and xs: "dseg ?m 0 (free_list_addr h) xs c r"
    using 1 nf nc by (simp_all add: dseg_upd)
  from link_next_spec[OF this(1), of f] assms(4) obtain m l' where m:
    "link_next ?h n f = Ret (?h\<lparr>free_blocks := m\<rparr>)" "dseg m f n ys 0 l'"
    "\<And>a. a \<notin> addrs ys \<Longrightarrow> m a = ?m a" by auto
  have "dseg m 0 (free_list_addr h) xs c r = dseg ?m 0 (free_list_addr h) xs c r"
  proof (rule dseg_frame)
    fix x assume "x \<in> addrs xs"
    then have "x \<notin> addrs ys" using assms(4) by auto
    then show "m x = ?m x" by (rule m(3))
  qed
  moreover have "m c = ?m c" "m f = ?m f" by (rule m(3), rule nc, rule m(3), rule nf)
  ultimately have "dll (h\<lparr>free_blocks := m\<rparr>) (xs @ (c, t) # (f, sz) # ys)"
    using xs m(2) 1(4) assms(2) nf(3) by (auto simp: dll_split)
  moreover have "insert_after h f c sz = Ret (h\<lparr>free_blocks := m\<rparr>)"
    using 1(2) m(1) nf(3) by (simp add: insert_after_def block_at_def set_block_def)
  ultimately show ?thesis by blast
qed

lemma merge_both_dll:
  assumes "dll h (xs @ (a, s) # (e, t) # ys)" "distinct (map fst (xs @ (a, s) # (e, t) # ys))"
    and "s + (sz + t) < usize_bound"
  shows "\<exists>m. merge_both h a e sz = Ret (h\<lparr>free_blocks := m\<rparr>)
    \<and> dll (h\<lparr>free_blocks := m\<rparr>) (xs @ (a, s + (sz + t)) # ys)"
proof -
  obtain r n l where 1: "dseg (free_blocks h) 0 (free_list_addr h) xs a r"
      "free_blocks h a = Some \<lparr>fb_prev = r, fb_next = e, fb_size = s\<rparr>" "a \<noteq> 0"
      "free_blocks h e = Some \<lparr>fb_prev = a, fb_next = n, fb_size = t\<rparr>" "e \<noteq> 0"
      "dseg (free_blocks h) e n ys 0 l" using assms(1) by (auto simp: dll_split)
  let ?T = "s + (sz + t)"
  let ?h1 = "set_block h a \<lparr>fb_prev = r, fb_next = e, fb_size = ?T\<rparr>"
  have na: "a \<notin> addrs xs" "a \<notin> addrs ys" "a \<noteq> e" and ne: "e \<notin> addrs ys" using assms(2) by auto
  have d: "distinct (map fst ys)" using assms(2) by simp
  have "dseg (free_blocks ?h1) e n ys 0 l" using 1(6) na by (simp add: set_block_def dseg_upd)
  from link_next_spec[OF this d, of a] obtain m l' where m:
    "link_next ?h1 n a = Ret (?h1\<lparr>free_blocks := m\<rparr>)" "dseg m a n ys 0 l'"
    "\<And>x. x \<notin> addrs ys \<Longrightarrow> m x = free_blocks ?h1 x" by blast
  have ma: "m a = Some \<lparr>fb_prev = r, fb_next = e, fb_size = ?T\<rparr>" using m(3)[OF na(2)] by (simp add: set_block_def)
  have me: "m e = Some \<lparr>fb_prev = a, fb_next = n, fb_size = t\<rparr>"
    using m(3)[OF ne] 1(4) na(3) by (simp add: set_block_def)
  let ?m = "m(a \<mapsto> \<lparr>fb_prev = r, fb_next = n, fb_size = ?T\<rparr>)"
  have "merge_both h a e sz = Ret (h\<lparr>free_blocks := ?m\<rparr>)"
    using 1(2-5) assms(3) m(1) ma me na(3)
    by (simp add: merge_both_def block_at_def usize_add_def set_block_def link_prev_def)
  moreover have "dseg m 0 (free_list_addr h) xs a r = dseg (free_blocks h) 0 (free_list_addr h) xs a r"
  proof (rule dseg_frame)
    fix x assume x: "x \<in> addrs xs"
    then have "x \<notin> addrs ys" using assms(2) by auto
    then show "m x = free_blocks h x" using m(3)[of x] x na(1) by (auto simp: set_block_def)
  qed
  then have "dll (h\<lparr>free_blocks := ?m\<rparr>) (xs @ (a, ?T) # ys)"
    using 1(1,3) m(2) na by (auto simp: dll_split dseg_upd)
  ultimately show ?thesis by blast
qed

text \<open>The row after the block at \<open>f\<close>, between the tiles \<open>P\<close> and \<open>Q\<close>, is given back.\<close>

definition release :: "tile list \<Rightarrow> usize \<Rightarrow> usize \<Rightarrow> tile list \<Rightarrow> tile list" where
  "release P f sz Q =
     (let (P', f', sz') = (if P \<noteq> [] \<and> \<not> snd (snd (last P))
                           then (butlast P, fst (last P), fst (snd (last P)) + sz) else (P, f, sz));
          (Q', sz'') = (if free_head Q then (tl Q, sz' + fst (snd (hd Q))) else (Q, sz')) in
      P' @ (f', sz'', False) # Q')"

lemma release_cases:
  obtains (both) P' a s e t Q' where "P = P' @ [(a, s, False)]" "Q = (e, t, False) # Q'"
      "release P f sz Q = P' @ (a, s + sz + t, False) # Q'"
  | (prev) P' a s where "P = P' @ [(a, s, False)]" "\<not> free_head Q"
      "release P f sz Q = P' @ (a, s + sz, False) # Q"
  | (nxt) e t Q' where "last_free P = 0" "P = [] \<or> snd (snd (last P))" "Q = (e, t, False) # Q'"
      "release P f sz Q = P @ (f, sz + t, False) # Q'"
  | (none) "last_free P = 0" "P = [] \<or> snd (snd (last P))" "\<not> free_head Q"
      "release P f sz Q = P @ (f, sz, False) # Q"
proof (cases "P \<noteq> [] \<and> \<not> snd (snd (last P))")
  case True
  then obtain P' a s where P: "P = P' @ [(a, s, False)]"
    by (metis append_butlast_last_id prod.collapse)
  show thesis
  proof (cases "free_head Q")
    case True
    then obtain e t Q' where "Q = (e, t, False) # Q'" by (auto simp: free_head_def split: list.splits)
    with P both show thesis by (simp add: release_def free_head_def)
  next
    case False
    with P prev show thesis by (simp add: release_def)
  qed
next
  case False
  then have P: "last_free P = 0" "P = [] \<or> snd (snd (last P))" by (auto simp: last_free_def)
  show thesis
  proof (cases "free_head Q")
    case True
    then obtain e t Q' where "Q = (e, t, False) # Q'" by (auto simp: free_head_def split: list.splits)
    with P False nxt show thesis by (auto simp: release_def free_head_def)
  next
    case F: False
    with P False none show thesis by (auto simp: release_def)
  qed
qed

lemma free_head_simps [simp]: "\<not> free_head []" "free_head ((a, s, u) # Q) = (\<not> u)"
  by (simp_all add: free_head_def)

lemma free_head_append: "free_head (P @ Q) = (if P = [] then free_head Q else free_head P)"
  by (cases P) (auto simp: free_head_def)

lemma coalesced_append:
  "coalesced (P @ Q) \<longleftrightarrow> coalesced P \<and> coalesced Q \<and> (P = [] \<or> snd (snd (last P)) \<or> \<not> free_head Q)"
proof (induction P rule: coalesced.induct)
  case (2 a s used ps)
  then show ?case by (cases "ps = []") (auto simp: free_head_append)
qed simp

lemma release_tiling:
  assumes "tiling lo (P @ (f, sz, True) # Q) hi"
  shows "tiling lo (release P f sz Q) hi"
  by (cases rule: release_cases[where P = P and Q = Q and f = f and sz = sz]) (use assms in \<open>auto simp: tiling_append add.assoc\<close>)

lemma release_coalesced:
  assumes "coalesced (P @ (f, sz, True) # Q)"
  shows "coalesced (release P f sz Q)"
  by (cases rule: release_cases[where P = P and Q = Q and f = f and sz = sz])
    (use assms in \<open>auto simp: coalesced_append free_head_def split: list.splits\<close>)

lemma release_totals:
  "total_of False (release P f sz Q) = total_of False P + sz + total_of False Q"
  "total_of True (release P f sz Q) = total_of True P + total_of True Q"
  by (cases rule: release_cases[where P = P and Q = Q and f = f and sz = sz]; simp)+

lemma release_used: "(b, s, True) \<in> set (release P f sz Q) \<longleftrightarrow> (b, s, True) \<in> set P \<union> set Q"
  by (cases rule: release_cases[where P = P and Q = Q and f = f and sz = sz]) auto

lemma release_room: "\<exists>b s. (b, s, False) \<in> set (release P f sz Q) \<and> sz \<le> s"
  by (cases rule: release_cases[where P = P and Q = Q and f = f and sz = sz]) fastforce+

lemma closest_free_cases:
  "closest_free P = 0 \<and> frees P = [] \<or> (\<exists>xs t. frees P = xs @ [(closest_free P, t)])"
  by (cases "frees P" rule: rev_exhaust) (auto simp: closest_free_def)

lemma free_block_spec:
  assumes T: "tiling (heap_start h) (P @ (f, sz, True) # Q) (heap_end h)" "heap_end h < usize_bound"
      "0 < heap_start h" and D: "dll h (frees P @ frees Q)"
  shows "\<exists>m a. free_block h f sz = Ret (h\<lparr>free_blocks := m, free_list_addr := a\<rparr>)
    \<and> dll (h\<lparr>free_blocks := m, free_list_addr := a\<rparr>) (frees (release P f sz Q))"
proof -
  have t: "tiling (heap_start h) P f" "tiling (f + sz) Q (heap_end h)" "32 \<le> sz"
    using T(1) by (auto simp: tiling_append)
  have lt: "f < f + sz" using t(3) by simp
  have le: "f + sz \<le> heap_end h" using tiling_le[OF t(2)] .
  have f0: "f \<noteq> 0" using tiling_le[OF t(1)] T(3) by simp
  note notin = addr_notin[OF t(1,2) lt]
  have "length (frees P @ frees Q) \<le> total_heap_size h"
    using frees_length[OF t(1)] frees_length[OF t(2)] tiling_le[OF t(1)] le t(3) by (simp add: heap_end_def)
  then obtain bs where bs: "iter_free_blocks h = Ret bs" "sizes bs = frees P @ frees Q"
    using D iter_blocks_dseg[of h 0 "free_list_addr h" "frees P @ frees Q" _ "heap_fuel h"]
    by (auto simp: iter_free_blocks_def heap_fuel_def dll_def)
  have scan: "free_scan bs f (f + sz) (0, 0, 0)
      = Ret (last_free P, if free_head Q then f + sz else 0, closest_free P)"
    by (rule free_scan_tiles[OF t(1,2) bs(2) lt T(2,3)])
  let ?n = "if free_head Q then f + sz else 0"
  have eq: "free_block h f sz =
      (if last_free P \<noteq> 0 \<and> ?n \<noteq> 0 then merge_both h (last_free P) ?n sz
       else if last_free P \<noteq> 0 then merge_prev h (last_free P) sz
       else if ?n \<noteq> 0 then merge_next h f ?n sz
       else if closest_free P = 0 then insert_first h f sz
       else insert_after h f (closest_free P) sz)"
    using bs(1) scan le T(2) by (simp add: free_block_def usize_add_def heap_end_def)
  show ?thesis
  proof (cases rule: release_cases[where P = P and Q = Q and f = f and sz = sz])
    case (both P' a s e t' Q')
    have a: "last_free P = a" "a \<noteq> 0" "s + (sz + t') < usize_bound" "e = f + sz" "free_head Q"
      using both(1,2) t T addr_notin by (auto simp: last_free_def tiling_append free_head_def dest: tiling_le)
    have "dll h (frees P' @ (a, s) # (e, t') # frees Q')" using D both by simp
    from merge_both_dll[OF this _ a(3)] notin(3) both
    obtain m where "merge_both h a e sz = Ret (h\<lparr>free_blocks := m\<rparr>)"
      "dll (h\<lparr>free_blocks := m\<rparr>) (frees P' @ (a, s + (sz + t')) # frees Q')" by auto
    then show ?thesis using eq a both lt
      by (intro exI[of _ m] exI[of _ "free_list_addr h"]) (auto simp: add.assoc)
  next
    case (prev P' a s)
    have a: "last_free P = a" "a \<noteq> 0" "s + sz < usize_bound"
      using prev(1) t T by (auto simp: last_free_def tiling_append dest: tiling_le)
    have "dll h (frees P' @ (a, s) # frees Q)" using D prev by simp
    from merge_prev_dll[OF this _ a(3)] notin(3) prev
    obtain m where "merge_prev h a sz = Ret (h\<lparr>free_blocks := m\<rparr>)"
      "dll (h\<lparr>free_blocks := m\<rparr>) (frees P' @ (a, s + sz) # frees Q)" by auto
    then show ?thesis using eq a prev
      by (intro exI[of _ m] exI[of _ "free_list_addr h"]) auto
  next
    case (nxt e t' Q')
    have a: "t' + sz < usize_bound" "e = f + sz" "free_head Q"
      using nxt(3) t T by (auto simp: tiling_append free_head_def dest: tiling_le)
    have "dll h (frees P @ (e, t') # frees Q')" using D nxt by simp
    from merge_next_dll[OF this f0 _ _ a(1)] notin(1,3) nxt
    obtain m b where "merge_next h f e sz = Ret (h\<lparr>free_blocks := m, free_list_addr := b\<rparr>)"
      "dll (h\<lparr>free_blocks := m, free_list_addr := b\<rparr>) (frees P @ (f, t' + sz) # frees Q')" by auto
    then show ?thesis using eq a nxt f0
      by (intro exI[of _ m] exI[of _ b]) (auto simp: add.commute)
  next
    case none
    show ?thesis
    proof (cases "frees P = []")
      case True
      then show ?thesis
        using insert_first_dll[of h "frees Q" f sz] D notin f0 none eq by (auto simp: closest_free_def)
    next
      case False
      then obtain xs t' where x: "frees P = xs @ [(closest_free P, t')]" using closest_free_cases[of P] by auto
      then have c: "closest_free P \<noteq> 0" using addrs_bounds[OF t(1), of "closest_free P"] T(3) by auto
      have "dll h (xs @ (closest_free P, t') # frees Q)" using D x by simp
      from insert_after_dll[OF this f0, of sz] notin(1,3) x
      obtain m where "insert_after h f (closest_free P) sz = Ret (h\<lparr>free_blocks := m\<rparr>)"
        "dll (h\<lparr>free_blocks := m\<rparr>) (xs @ (closest_free P, t') # (f, sz) # frees Q)" by auto
      then show ?thesis using eq none c x
        by (intro exI[of _ m] exI[of _ "free_list_addr h"]) auto
    qed
  qed
qed

section \<open>Taking a block\<close>

lemma remove_dll:
  assumes "dll h (xs @ (a, s) # ys)" "distinct (map fst (xs @ (a, s) # ys))"
  shows "\<exists>b h1 m f. block_at h a = Ret b \<and> link_prev h (fb_prev b) (fb_next b) = Ret h1
    \<and> block_at h1 a = Ret b \<and> link_next h1 (fb_next b) (fb_prev b) = Ret (h\<lparr>free_blocks := m, free_list_addr := f\<rparr>)
    \<and> dll (h\<lparr>free_blocks := m, free_list_addr := f\<rparr>) (xs @ ys) \<and> fb_size b = s"
proof -
  obtain r n l where 1: "dseg (free_blocks h) 0 (free_list_addr h) xs a r"
      "free_blocks h a = Some \<lparr>fb_prev = r, fb_next = n, fb_size = s\<rparr>"
      "dseg (free_blocks h) a n ys 0 l" "a \<noteq> 0" using dll_node[OF assms(1)] by blast
  have d: "distinct (map fst xs)" "distinct (map fst ys)" "a \<notin> addrs xs"
    and dj: "\<And>x. x \<in> addrs ys \<Longrightarrow> x \<notin> addrs xs" using assms(2) by auto
  from link_prev_spec[OF 1(1) d(1), of n] obtain m1 f where m1:
    "link_prev h r n = Ret (h\<lparr>free_blocks := m1, free_list_addr := f\<rparr>)" "dseg m1 0 f xs n r"
    "\<And>x. x \<notin> addrs xs \<Longrightarrow> m1 x = free_blocks h x" by blast
  let ?h1 = "h\<lparr>free_blocks := m1, free_list_addr := f\<rparr>"
  have "dseg m1 a n ys 0 l = dseg (free_blocks h) a n ys 0 l"
    by (rule dseg_frame) (use m1(3) dj in blast)
  then have "dseg (free_blocks ?h1) a n ys 0 l" using 1(3) by simp
  from link_next_spec[OF this d(2), of r] obtain m2 l2 where m2:
    "link_next ?h1 n r = Ret (?h1\<lparr>free_blocks := m2\<rparr>)" "dseg m2 r n ys 0 l2"
    "\<And>x. x \<notin> addrs ys \<Longrightarrow> m2 x = m1 x" by auto
  have "dseg m2 0 f xs n r = dseg m1 0 f xs n r"
    by (rule dseg_frame) (use m2(3) dj in blast)
  then have "dll (h\<lparr>free_blocks := m2, free_list_addr := f\<rparr>) (xs @ ys)"
    using m1(2) m2(2) by (auto simp: dll_split)
  moreover have "link_next ?h1 n r = Ret (h\<lparr>free_blocks := m2, free_list_addr := f\<rparr>)"
    using m2(1) by simp
  moreover have "block_at h a = Ret \<lparr>fb_prev = r, fb_next = n, fb_size = s\<rparr>"
    "block_at ?h1 a = Ret \<lparr>fb_prev = r, fb_next = n, fb_size = s\<rparr>"
    using 1(2) m1(3)[OF d(3)] by (simp_all add: block_at_def)
  ultimately show ?thesis using m1(1)
    by (intro exI[of _ "\<lparr>fb_prev = r, fb_next = n, fb_size = s\<rparr>"] exI[of _ ?h1] exI[of _ m2] exI[of _ f]) simp
qed

lemma take_block_spec:
  assumes T: "tiling (heap_start h) (P @ (a, s, False) # Q) (heap_end h)" "heap_end h + 24 < usize_bound"
      "0 < heap_start h" and D: "dll h (frees P @ (a, s) # frees Q)"
    and n: "n \<le> s" "16 dvd n" "32 \<le> n"
  shows "\<exists>m f k. take_block h a n = Ret (k, h\<lparr>free_blocks := m, free_list_addr := f\<rparr>)
    \<and> (n + 24 < s \<and> k = n
         \<and> dll (h\<lparr>free_blocks := m, free_list_addr := f\<rparr>) (frees P @ (a + n, s - n) # frees Q)
       \<or> s \<le> n + 24 \<and> k = s \<and> dll (h\<lparr>free_blocks := m, free_list_addr := f\<rparr>) (frees P @ frees Q))"
proof -
  have t: "tiling (heap_start h) P a" "tiling (a + s) Q (heap_end h)" "32 \<le> s" "16 dvd s"
    using T(1) by (auto simp: tiling_append)
  have le: "a + s \<le> heap_end h" using tiling_le[OF t(2)] .
  have dist: "distinct (map fst (frees P @ (a, s) # frees Q))"
    using frees_distinct[OF T(1)] by simp
  show ?thesis
  proof (cases "n + 24 < s")
    case False
    obtain b h1 m f where r: "block_at h a = Ret b" "link_prev h (fb_prev b) (fb_next b) = Ret h1"
      "block_at h1 a = Ret b" "link_next h1 (fb_next b) (fb_prev b) = Ret (h\<lparr>free_blocks := m, free_list_addr := f\<rparr>)"
      "dll (h\<lparr>free_blocks := m, free_list_addr := f\<rparr>) (frees P @ frees Q)" "fb_size b = s"
      using remove_dll[OF D dist] by blast
    then have "take_block h a n = Ret (s, h\<lparr>free_blocks := m, free_list_addr := f\<rparr>)"
      using False n(1) le T(2) by (simp add: take_block_def usize_add_def SIZE_OF_FREE_BLOCK_def)
    then show ?thesis using r(5) False by auto
  next
    case True
    obtain r nx l where 1: "dseg (free_blocks h) 0 (free_list_addr h) (frees P) a r"
      "free_blocks h a = Some \<lparr>fb_prev = r, fb_next = nx, fb_size = s\<rparr>"
      "dseg (free_blocks h) a nx (frees Q) 0 l" "a \<noteq> 0" using dll_node[OF D] by blast
    let ?h1 = "set_block h (a + n) \<lparr>fb_prev = r, fb_next = nx, fb_size = s - n\<rparr>"
    have nf: "a + n \<notin> addrs (frees P)" "a + n \<notin> addrs (frees Q)"
      using addrs_bounds[OF t(1), of "a + n"] addrs_bounds[OF t(2), of "a + n"] True by auto
    then have "dseg (free_blocks ?h1) 0 (free_list_addr ?h1) (frees P) a r" "dseg (free_blocks ?h1) a nx (frees Q) 0 l"
      using 1 by (simp_all add: set_block_def dseg_upd)
    from relink[OF this, of "a + n" "s - n"] nf dist 1(4) obtain m1 m2 f where m:
      "link_next ?h1 nx (a + n) = Ret (?h1\<lparr>free_blocks := m1\<rparr>)"
      "link_prev (?h1\<lparr>free_blocks := m1\<rparr>) r (a + n) = Ret (?h1\<lparr>free_blocks := m2, free_list_addr := f\<rparr>)"
      "dll (?h1\<lparr>free_blocks := m2, free_list_addr := f\<rparr>) (frees P @ (a + n, s - n) # frees Q)"
      by (auto simp: set_block_def image_Un)
    have "take_block h a n = Ret (n, ?h1\<lparr>free_blocks := m2, free_list_addr := f\<rparr>)"
      using True n(1) le T(2) 1(2) m(1,2)
      by (simp add: take_block_def block_at_def usize_add_def SIZE_OF_FREE_BLOCK_def Let_def)
    moreover have "?h1\<lparr>free_blocks := m2, free_list_addr := f\<rparr> = h\<lparr>free_blocks := m2, free_list_addr := f\<rparr>"
      by (simp add: set_block_def)
    ultimately show ?thesis using m(3) True by auto
  qed
qed

section \<open>The invariant\<close>

definition heap_inv :: "'p HeapAllocator \<Rightarrow> tile list \<Rightarrow> bool" where
  "heap_inv h ps \<longleftrightarrow> tiling (heap_start h) ps (heap_end h) \<and> coalesced ps \<and> dll h (frees ps)
     \<and> free_size h = total_of False ps \<and> used_size h = total_of True ps
     \<and> (ps \<noteq> [] \<longrightarrow> 0 < heap_start h \<and> 16 dvd heap_start h) \<and> heap_end h + 24 < usize_bound"

lemma heap_inv_empty: "heap_inv h ps \<Longrightarrow> total_heap_size h = 0 \<longleftrightarrow> ps = []"
proof -
  assume "heap_inv h ps"
  then have "total_of True ps + total_of False ps = total_heap_size h"
    and t: "tiling (heap_start h) ps (heap_end h)"
    using tiling_total[of "heap_start h" ps "heap_end h"] by (auto simp: heap_inv_def heap_end_def)
  moreover have "ps \<noteq> [] \<Longrightarrow> 0 < total_of True ps + total_of False ps"
    using t by (cases ps) (auto split: if_splits)
  ultimately show ?thesis by (cases "ps = []") auto
qed

lemma heap_inv_new: "heap_inv (heap_new p) []"
  by (simp add: heap_inv_def heap_new_def heap_end_def dll_def usize_bound_def)

lemma heap_inv_totals:
  "heap_inv h ps \<Longrightarrow> used_size h + free_size h = total_heap_size h"
  using tiling_total[of "heap_start h" ps "heap_end h"] by (auto simp: heap_inv_def heap_end_def)

lemma heap_inv_iter:
  assumes "heap_inv h ps"
  shows "\<exists>bs. iter_free_blocks h = Ret bs \<and> sizes bs = frees ps"
proof -
  obtain l where "dseg (free_blocks h) 0 (free_list_addr h) (frees ps) 0 l"
    using assms by (auto simp: heap_inv_def dll_def)
  moreover have "length (frees ps) \<le> heap_fuel h"
    using assms frees_length[of "heap_start h" ps "heap_end h"]
    by (auto simp: heap_inv_def heap_end_def heap_fuel_def)
  ultimately show ?thesis using iter_blocks_dseg by (fastforce simp: iter_free_blocks_def)
qed

lemma heap_inv_check:
  assumes "heap_inv h ps"
  shows "check_issues h = Ret False"
proof -
  obtain l where "dseg (free_blocks h) 0 (free_list_addr h) (frees ps) 0 l"
    using assms by (auto simp: heap_inv_def dll_def)
  moreover have "tiling (heap_start h) ps (heap_end h)" using assms by (simp add: heap_inv_def)
  ultimately show ?thesis
    using check_issues_False frees_distinct frees_length by (fastforce simp: heap_end_def)
qed

lemma best_fit_spec:
  "best_fit bs n best = r \<Longrightarrow>
     (case r of
        Some (a, b) \<Rightarrow> ((a, fb_size b) \<in> set (sizes bs) \<and> n \<le> fb_size b) \<or> best = Some (a, b)
      | None \<Rightarrow> best = None \<and> (\<forall>(a, s) \<in> set (sizes bs). s < n))"
proof (induction bs n best rule: best_fit.induct)
  case (2 a b rest n best)
  then show ?case
    by (auto simp: sizes_def split: option.splits if_splits)
qed (auto simp: sizes_def split: option.splits)

lemma best_fit_Some:
  assumes "best_fit bs n None = Some (a, b)" "sizes bs = frees ps"
  shows "\<exists>P s Q. ps = P @ (a, s, False) # Q \<and> n \<le> s"
proof -
  have "(a, fb_size b) \<in> set (frees ps)" "n \<le> fb_size b" using best_fit_spec[OF assms(1)] assms(2) by auto
  then show ?thesis using frees_mem[of a "fb_size b" ps] by (metis split_list)
qed

lemma best_fit_None:
  assumes "best_fit bs n None = None" "sizes bs = frees ps" "(a, s, False) \<in> set ps"
  shows "s < n"
proof -
  have "(a, s) \<in> set (sizes bs)" using assms(2,3) by (simp add: frees_mem)
  then show ?thesis using best_fit_spec[OF assms(1)] by auto
qed

lemma best_fit_no_room:
  assumes "sizes bs = frees ps" "\<forall>b s. (b, s, False) \<in> set ps \<longrightarrow> s < n"
  shows "best_fit bs n None = None"
proof (rule ccontr)
  assume "best_fit bs n None \<noteq> None"
  then obtain a b where "best_fit bs n None = Some (a, b)" by auto
  then obtain P s Q where "ps = P @ (a, s, False) # Q" "n \<le> s" using best_fit_Some[OF _ assms(1)] by blast
  then have "s < n" using assms(2) by auto
  with \<open>n \<le> s\<close> show False by simp
qed

text \<open>Which tiles are in use.\<close>

definition used_tiles :: "tile list \<Rightarrow> (usize \<times> usize) set" where
  "used_tiles ps = {(a, s). (a, s, True) \<in> set ps}"

lemma tiling_disjoint:
  assumes "tiling lo ps hi" "(a, s, u) \<in> set ps" "(b, t, v) \<in> set ps" "(a, s, u) \<noteq> (b, t, v)"
  shows "a + s \<le> b \<or> b + t \<le> a"
  using assms
proof (induction lo ps hi rule: tiling.induct)
  case (2 lo c w x ps hi)
  have t: "c = lo" "tiling (lo + w) ps hi" using "2.prems"(1) by auto
  show ?case using "2.IH"[OF t(2)] "2.prems"(2-4) t tiling_mem[OF t(2)] by auto
qed simp

section \<open>The sizes of an allocation\<close>

definition layout_ok :: "Layout \<Rightarrow> bool" where
  "layout_ok ly \<longleftrightarrow> (\<exists>k < 64. l_align ly = 2 ^ k)
     \<and> l_size ly + 2 * max 64 (l_align ly) + 2 * max 16 (l_align ly) \<le> ISIZE_MAX"

definition whole_align :: "Layout \<Rightarrow> usize" where
  "whole_align ly = max (l_align ly) 16"

definition header_offset :: "Layout \<Rightarrow> usize" where
  "header_offset ly = max 32 (whole_align ly)"

definition request_size :: "Layout \<Rightarrow> usize" where
  "request_size ly = layout_round_up (header_offset ly + l_size ly) (whole_align ly)"

lemma pow2_dvd: "(2 :: nat) ^ j dvd 2 ^ k \<longleftrightarrow> j \<le> k"
  by (simp add: dvd_power_iff_le)

lemma whole_align_pow2:
  assumes "layout_ok ly"
  obtains k where "l_align ly = 2 ^ k" "k < 64" "whole_align ly = 2 ^ max k 4"
proof -
  obtain k where k: "k < 64" "l_align ly = 2 ^ k" using assms by (auto simp: layout_ok_def)
  have "max ((2 :: nat) ^ k) 16 = 2 ^ max k 4"
  proof (cases "4 \<le> k")
    case True
    then have "(2 :: nat) ^ 4 \<le> 2 ^ k" by (intro power_increasing) auto
    then show ?thesis using True by (simp add: max_def)
  next
    case False
    then have "(2 :: nat) ^ k \<le> 2 ^ 4" by (intro power_increasing) auto
    then show ?thesis using False by (simp add: max_def)
  qed
  then show thesis using that k by (simp add: whole_align_def)
qed

lemma round_up_header:
  assumes "layout_ok ly"
  shows "layout_round_up 32 (whole_align ly) = header_offset ly"
proof -
  obtain k where k: "whole_align ly = 2 ^ max k 4" using whole_align_pow2[OF assms] by metis
  let ?j = "max k 4"
  show ?thesis
  proof (cases "?j \<le> 5")
    case True
    then have "whole_align ly dvd 2 ^ 5" "whole_align ly \<le> 2 ^ 5"
      using k by (simp_all only: pow2_dvd power_increasing_iff)
    then show ?thesis using round_up_aligned[of "whole_align ly" 32] k
      by (simp add: layout_round_up_def header_offset_def)
  next
    case False
    then have "(2 :: nat) ^ 5 < 2 ^ ?j" by (intro power_strict_increasing) auto
    then have lt: "32 < whole_align ly" using k by simp
    then have "(32 + whole_align ly - 1) div whole_align ly = 1"
      by (simp add: div_nat_eqI)
    then show ?thesis using lt by (simp add: layout_round_up_def header_offset_def)
  qed
qed

lemma request_size_facts:
  assumes "layout_ok ly"
  shows "16 dvd request_size ly" "16 dvd header_offset ly" "32 \<le> header_offset ly"
    "header_offset ly + l_size ly \<le> request_size ly" "request_size ly + 64 + l_align ly \<le> ISIZE_MAX"
    "whole_align ly dvd request_size ly"
proof -
  obtain k where k: "l_align ly = 2 ^ k" "whole_align ly = 2 ^ max k 4" using whole_align_pow2[OF assms] by metis
  have d16: "16 dvd whole_align ly" using k(2) pow2_dvd[of 4 "max k 4"] by simp
  have pos: "0 < whole_align ly" by (simp add: k(2))
  note r = round_up_bounds[OF pos, of "header_offset ly + l_size ly"]
  show w: "whole_align ly dvd request_size ly" using r(3) by (simp add: request_size_def layout_round_up_def)
  then show "16 dvd request_size ly" using d16 dvd_trans by blast
  show "32 \<le> header_offset ly" by (simp add: header_offset_def)
  show "16 dvd header_offset ly" using d16 by (auto simp: header_offset_def max_def)
  show "header_offset ly + l_size ly \<le> request_size ly"
    using r(1) by (simp add: request_size_def layout_round_up_def)
  have "request_size ly < header_offset ly + l_size ly + whole_align ly"
    using r(2) by (simp add: request_size_def layout_round_up_def)
  moreover have "l_size ly + 2 * max 64 (l_align ly) + 2 * max 16 (l_align ly) \<le> ISIZE_MAX"
    using assms by (simp add: layout_ok_def)
  ultimately show "request_size ly + 64 + l_align ly \<le> ISIZE_MAX"
    by (simp add: header_offset_def whole_align_def max_def split: if_splits)
qed

lemma alloc_layout:
  assumes "layout_ok ly"
  shows "\<exists>w. align_to ly 16 = Ret w \<and>
    (\<exists>w2. layout_extend block_info_layout w = Ret (w2, header_offset ly)
       \<and> l_size (pad_to_align w2) = request_size ly)"
proof -
  note r = request_size_facts[OF assms]
  have "l_size ly + (whole_align ly - 1) \<le> ISIZE_MAX"
    "header_offset ly + l_size ly + (whole_align ly - 1) \<le> ISIZE_MAX"
    using r(4,5) by (auto simp: whole_align_def max_def split: if_splits)
  then show ?thesis
    using round_up_header[OF assms]
    by (simp add: align_to_def from_size_align_def layout_extend_def block_info_layout_def Let_def
        KERNEL_HEAP_BLOCK_INFO_SIZE_def pad_to_align_def request_size_def flip: whole_align_def)
      (simp add: whole_align_def max_def)
qed

lemma block_offset_spec:
  assumes "layout_ok ly" "16 dvd base" "base + l_align ly < usize_bound"
  shows "\<exists>off. block_offset base (l_align ly) = Ret off \<and> 32 \<le> off \<and> l_align ly dvd base + off
    \<and> 16 dvd off \<and> (l_align ly \<le> 16 \<longrightarrow> off = 32) \<and> off \<le> 32 + 2 * l_align ly"
proof -
  obtain k where k: "l_align ly = 2 ^ k" "k < 64" using whole_align_pow2[OF assms(1)] by metis
  define A :: nat where "A = 2 ^ k"
  have pos: "0 < A" by (simp add: A_def)
  define up where "up = (base + A - 1) div A * A"
  have u: "align_up base A = Ret up" "base \<le> up" "up < base + A" "A dvd up"
    using align_up_pow2[of base k] assms(3) k round_up_bounds[OF pos, of base] by (simp_all add: A_def up_def)
  have dm: "A dvd max 32 A"
    using pow2_dvd[of k 5] power_increasing[of 5 k "2 :: nat"] by (cases "k \<le> 5") (auto simp: A_def max_def)
  define off where "off = (if up - base < 32 then up - base + max 32 A else up - base)"
  have "A \<le> 2 ^ 63" using power_increasing[of k 63 "2 :: nat"] k(2) by (simp add: A_def)
  then have "32 + max 32 A < usize_bound" by (simp add: usize_bound_def max_def)
  then have eq: "block_offset base (l_align ly) = Ret off"
    using u assms(3) k by (auto simp: block_offset_def usize_add_def KERNEL_HEAP_BLOCK_INFO_SIZE_def off_def A_def
        simp flip: A_def)
  have sum: "base + off = (if up - base < 32 then up + max 32 A else up)" using u(2) by (simp add: off_def)
  then have al: "A dvd base + off" using u(4) dm by simp
  have small: "A \<le> 16 \<Longrightarrow> off = 32"
  proof -
    assume "A \<le> 16"
    then have "k \<le> 4" using power_increasing_iff[of "2 :: nat" k 4] by (simp add: A_def)
    then have "A dvd base" using pow2_dvd[of k 4] assms(2) dvd_trans by (auto simp: A_def)
    then have "up = base" using round_up_aligned[of A base] pos by (simp add: up_def)
    then show ?thesis using \<open>A \<le> 16\<close> by (simp add: off_def)
  qed
  have "16 dvd off"
  proof (cases "A \<le> 16")
    case False
    then have "\<not> k \<le> 4" using power_increasing[of k 4 "2 :: nat"] by (auto simp: A_def)
    then have "16 dvd A" using pow2_dvd[of 4 k] by (simp add: A_def)
    then have "16 dvd base + off" using al dvd_trans by blast
    then show ?thesis using assms(2) by (simp add: dvd_add_right_iff)
  qed (use small in simp)
  then show ?thesis
    using eq al small u k by (auto simp: off_def A_def simp flip: A_def)
qed

section \<open>Taking a block, on the row of tiles\<close>

lemma gap_of_16:
  fixes n t :: nat
  assumes "16 dvd n" "16 dvd t" "n + 24 < t"
  shows "16 dvd t - n" "32 \<le> t - n"
proof -
  show d: "16 dvd t - n" using assms(1,2) by simp
  then obtain q where "t - n = 16 * q" by blast
  then show "32 \<le> t - n" using assms(3) by (cases "q \<le> 1") auto
qed

lemma take_block_inv:
  assumes inv: "heap_inv h (P @ (a, t, False) # Q)" and tb: "take_block h a n = Ret (k, h2)"
    and n: "16 dvd n" "32 \<le> n"
  shows "\<exists>ps'. heap_inv (h2\<lparr>free_size := free_size h2 - k, used_size := used_size h2 + k\<rparr>) ps'
    \<and> used_tiles ps' = insert (a, k) (used_tiles (P @ (a, t, False) # Q))
    \<and> (\<forall>s. (a, s) \<notin> used_tiles (P @ (a, t, False) # Q)) \<and> n \<le> k \<and> k \<le> free_size h2
    \<and> (\<exists>m f. h2 = h\<lparr>free_blocks := m, free_list_addr := f\<rparr>) \<and> ps' \<noteq> []"
proof -
  let ?ps = "P @ (a, t, False) # Q"
  have T: "tiling (heap_start h) ?ps (heap_end h)" "heap_end h + 24 < usize_bound" "0 < heap_start h"
    and D: "dll h (frees P @ (a, t) # frees Q)" and C: "coalesced ?ps"
    using inv by (auto simp: heap_inv_def)
  have t: "tiling (heap_start h) P a" "32 \<le> t" "16 dvd t" "tiling (a + t) Q (heap_end h)"
    using T(1) by (auto simp: tiling_append)
  obtain r nx where "free_blocks h a = Some \<lparr>fb_prev = r, fb_next = nx, fb_size = t\<rparr>"
    using dll_node[OF D] by blast
  then have nt: "n \<le> t" using tb by (simp add: take_block_def block_at_def exec_simps)
  obtain m f where e: "take_block h a n = Ret (k, h\<lparr>free_blocks := m, free_list_addr := f\<rparr>)"
    and c: "n + 24 < t \<and> k = n
         \<and> dll (h\<lparr>free_blocks := m, free_list_addr := f\<rparr>) (frees P @ (a + n, t - n) # frees Q)
       \<or> t \<le> n + 24 \<and> k = t \<and> dll (h\<lparr>free_blocks := m, free_list_addr := f\<rparr>) (frees P @ frees Q)"
    using take_block_spec[OF T D nt n] tb by (metis exec.inject(1) prod.inject)
  have h2: "h2 = h\<lparr>free_blocks := m, free_list_addr := f\<rparr>" using e tb by simp
  have out: "(a, s) \<notin> used_tiles ?ps" for s
    using tile_unique[OF T(1)] by (auto simp: used_tiles_def)
  let ?h3 = "h2\<lparr>free_size := free_size h2 - k, used_size := used_size h2 + k\<rparr>"
  show ?thesis
  proof (cases "n + 24 < t")
    case True
    let ?qs = "P @ (a, n, True) # (a + n, t - n, False) # Q"
    have k: "k = n" and D2: "dll h2 (frees ?qs)" using c True h2 by auto
    have "tiling (heap_start h) ?qs (heap_end h)"
      using T(1) n gap_of_16[OF n(1) t(3) True] nt by (auto simp: tiling_append)
    moreover have "coalesced ?qs" using C by (auto simp: coalesced_append)
    moreover have "dll ?h3 (frees ?qs)" using D2 by (simp add: dll_def)
    ultimately have "heap_inv ?h3 ?qs"
      using inv nt k by (auto simp: heap_inv_def h2 heap_end_def)
    moreover have "used_tiles ?qs = insert (a, k) (used_tiles ?ps)" by (auto simp: used_tiles_def k)
    moreover have "k \<le> free_size h2" using inv nt k by (simp add: heap_inv_def h2)
    ultimately show ?thesis using out k h2 by (intro exI[of _ ?qs]) auto
  next
    case False
    let ?qs = "P @ (a, t, True) # Q"
    have k: "k = t" and D2: "dll h2 (frees ?qs)" using c False h2 by auto
    have "tiling (heap_start h) ?qs (heap_end h)" using T(1) by (auto simp: tiling_append)
    moreover have "coalesced ?qs" using C by (auto simp: coalesced_append)
    moreover have "dll ?h3 (frees ?qs)" using D2 by (simp add: dll_def)
    ultimately have "heap_inv ?h3 ?qs"
      using inv k by (auto simp: heap_inv_def h2 heap_end_def)
    moreover have "used_tiles ?qs = insert (a, k) (used_tiles ?ps)" by (auto simp: used_tiles_def k)
    moreover have "k \<le> free_size h2" using inv k by (simp add: heap_inv_def h2)
    ultimately show ?thesis using out k h2 nt by (intro exI[of _ ?qs]) auto
  qed
qed

section \<open>Runs of the allocator\<close>

text \<open>
  What a program has allocated and not released yet, each pointer with the layout of its request.
\<close>

inductive heap_run :: "'p page_op \<Rightarrow> 'p \<Rightarrow> 'p HeapAllocator \<Rightarrow> (usize \<times> Layout) list \<Rightarrow> bool" for ap p where
  run_new: "heap_run ap p (heap_new p) []"
| run_alloc: "heap_run ap p h L \<Longrightarrow> layout_ok ly \<Longrightarrow> heap_alloc ap ly h = Ret (ptr, h')
    \<Longrightarrow> heap_run ap p h' ((ptr, ly) # L)"
| run_dealloc: "heap_run ap p h (L1 @ (ptr, ly) # L2) \<Longrightarrow> heap_dealloc ptr ly h = Ret h'
    \<Longrightarrow> heap_run ap p h' (L1 @ L2)"

definition live_block :: "'p HeapAllocator \<Rightarrow> tile list \<Rightarrow> usize \<times> Layout \<Rightarrow> usize \<times> usize \<Rightarrow> bool" where
  "live_block h ps = (\<lambda>(ptr, ly) (b, k). layout_ok ly \<and> (b, k) \<in> used_tiles ps \<and> b + 32 \<le> ptr
     \<and> ptr + l_size ly \<le> b + k \<and> l_align ly dvd ptr \<and> request_size ly \<le> k
     \<and> block_infos h (ptr - 32) = Some \<lparr>magic = HEAP_MAGIC, bi_size = k, pre_padding = ptr - b\<rparr>)"

definition heap_live :: "'p HeapAllocator \<Rightarrow> tile list \<Rightarrow> (usize \<times> Layout) list \<Rightarrow> bool" where
  "heap_live h ps L \<longleftrightarrow> (\<exists>B. list_all2 (live_block h ps) L B \<and> distinct (map fst B) \<and> set B = used_tiles ps)"

lemma used_tiles_unique:
  assumes "tiling lo ps hi" "(b, k) \<in> used_tiles ps" "(b, k') \<in> used_tiles ps"
  shows "k = k'"
proof (rule ccontr)
  assume "k \<noteq> k'"
  then have "b + k \<le> b \<or> b + k' \<le> b"
    using tiling_disjoint[OF assms(1), of b k True b k' True] assms(2,3) by (auto simp: used_tiles_def)
  then show False using tiling_mem[OF assms(1)] assms(2,3) by (fastforce simp: used_tiles_def)
qed

lemma live_alloc:
  assumes "heap_live h ps L" "tiling lo ps' hi" "used_tiles ps' = insert (b, k) (used_tiles ps)"
    and "\<forall>s. (b, s) \<notin> used_tiles ps" "layout_ok ly" "b + 32 \<le> ptr" "ptr + l_size ly \<le> b + k" "l_align ly dvd ptr"
    and "request_size ly \<le> k"
    and "block_infos h' = (block_infos h)(ptr - 32 \<mapsto> \<lparr>magic = HEAP_MAGIC, bi_size = k, pre_padding = ptr - b\<rparr>)"
  shows "heap_live h' ps' ((ptr, ly) # L)"
proof -
  obtain B where B: "list_all2 (live_block h ps) L B" "distinct (map fst B)" "set B = used_tiles ps"
    using assms(1) by (auto simp: heap_live_def)
  have "live_block h' ps' x y" if y: "y \<in> set B" and l: "live_block h ps x y" for x y
  proof -
    obtain q lq c j where xy: "x = (q, lq)" "y = (c, j)" by (cases x, cases y)
    have c: "(c, j, True) \<in> set ps'" "(b, k, True) \<in> set ps'" "(c, j, True) \<noteq> (b, k, True)"
      using y xy B(3) assms(3,4) by (auto simp: used_tiles_def)
    have "c + j \<le> b \<or> b + k \<le> c" using tiling_disjoint[OF assms(2) c] .
    then have "q - 32 \<noteq> ptr - 32" using l xy assms(6,7) by (auto simp: live_block_def)
    then show ?thesis using l xy assms(3,10) by (auto simp: live_block_def)
  qed
  then have "list_all2 (live_block h' ps') L B"
    using list.rel_mono_strong[OF B(1)] by blast
  moreover have "live_block h' ps' (ptr, ly) (b, k)" using assms(3,5-10) by (simp add: live_block_def)
  moreover have "distinct (map fst ((b, k) # B))" using B(2,3) assms(4) by (auto simp flip: B(3))
  ultimately show ?thesis using B(3) assms(3) unfolding heap_live_def
    by (intro exI[of _ "(b, k) # B"]) simp
qed

lemma list_all2_split_at:
  assumes "list_all2 R (xs @ x # ys) zs"
  shows "\<exists>us u vs. zs = us @ u # vs \<and> list_all2 R xs us \<and> R x u \<and> list_all2 R ys vs"
proof -
  obtain us ws where "zs = us @ ws" "list_all2 R xs us" "list_all2 R (x # ys) ws"
    using assms by (auto simp: list_all2_append1)
  then show ?thesis by (cases ws) auto
qed

lemma live_split:
  assumes "heap_live h ps (L1 @ (ptr, ly) # L2)"
  shows "\<exists>b k. live_block h ps (ptr, ly) (b, k)
    \<and> (\<forall>(h' :: 'p HeapAllocator) ps'. block_infos h' = block_infos h \<longrightarrow> used_tiles ps' = used_tiles ps - {(b, k)}
         \<longrightarrow> heap_live h' ps' (L1 @ L2))"
proof -
  obtain B where B: "list_all2 (live_block h ps) (L1 @ (ptr, ly) # L2) B" "distinct (map fst B)" "set B = used_tiles ps"
    using assms by (auto simp: heap_live_def)
  from list_all2_split_at[OF B(1)] obtain B1 b k B2 where sp: "B = B1 @ (b, k) # B2" "list_all2 (live_block h ps) L1 B1"
      "live_block h ps (ptr, ly) (b, k)" "list_all2 (live_block h ps) L2 B2"
    by (metis surj_pair)
  have "heap_live h' ps' (L1 @ L2)"
    if i: "block_infos h' = block_infos h" and u: "used_tiles ps' = used_tiles ps - {(b, k)}" for h' :: "'p HeapAllocator" and ps'
  proof -
    have "b \<notin> fst ` set (B1 @ B2)" using B(2) sp(1) by auto
    then have nin: "(b, k) \<notin> set (B1 @ B2)" by (metis fst_conv image_eqI)
    then have set: "set (B1 @ B2) = used_tiles ps'" using B(3) sp(1) u by auto
    have "live_block h' ps' x y" if y: "y \<in> set (B1 @ B2)" and l: "live_block h ps x y" for x y
    proof -
      have "y \<in> used_tiles ps'" using y set by blast
      then show ?thesis using l i by (cases x, cases y) (simp add: live_block_def)
    qed
    then have "list_all2 (live_block h' ps') (L1 @ L2) (B1 @ B2)"
      using list.rel_mono_strong[OF list_all2_appendI[OF sp(2,4)]] by blast
    moreover have "distinct (map fst (B1 @ B2))" using B(2) sp(1) by auto
    ultimately show ?thesis using set unfolding heap_live_def by blast
  qed
  with sp(3) show ?thesis by (intro exI[of _ b] exI[of _ k] conjI allI impI) simp_all
qed

declare get_free_block.simps [simp del]

section \<open>The page provider\<close>

text \<open>
  What the allocator relies on: pages come from one growing region, each request directly behind
  the one before.
\<close>

locale page_provider =
  fixes allocate_pages :: "'p page_op"
    and brk :: "'p \<Rightarrow> usize"
    and valid :: "'p \<Rightarrow> bool"
    and base :: usize
  assumes valid_brk: "valid p \<Longrightarrow> 0 < brk p \<and> base \<le> brk p \<and> PAGE_4K dvd brk p \<and> brk p + 24 < usize_bound"
    and grow: "valid p \<Longrightarrow> 0 < n \<Longrightarrow> allocate_pages n p = Ret (Some a, p')
      \<Longrightarrow> a = brk p \<and> valid p' \<and> brk p' = brk p + n * PAGE_4K"
begin

definition heap_ok :: "'p HeapAllocator \<Rightarrow> tile list \<Rightarrow> bool" where
  "heap_ok h ps \<longleftrightarrow> heap_inv h ps \<and> valid (page_allocator h)
     \<and> (ps \<noteq> [] \<longrightarrow> heap_end h = brk (page_allocator h) \<and> base \<le> heap_start h)"

lemma page_multiple: "16 dvd n * PAGE_4K" "0 < n \<Longrightarrow> 32 \<le> n * PAGE_4K"
proof -
  have "16 dvd PAGE_4K" by (simp add: PAGE_4K_def)
  then show "16 dvd n * PAGE_4K" by (rule dvd_mult)
  show "0 < n \<Longrightarrow> 32 \<le> n * PAGE_4K" by (cases n) (simp_all add: PAGE_4K_def)
qed

lemma allocate_more_pages_spec:
  assumes ok: "heap_ok h ps" and n: "0 < n" and ap: "allocate_pages n (page_allocator h) = Ret (Some a, p')"
  shows "\<exists>h'. allocate_more_pages allocate_pages n h = Ret h' \<and> heap_ok h' (release ps a (n * PAGE_4K) [])
    \<and> block_infos h' = block_infos h"
proof -
  have g: "a = brk (page_allocator h)" "valid p'" "brk p' = a + n * PAGE_4K"
    using grow[OF _ n ap] ok by (auto simp: heap_ok_def)
  have a: "0 < a" "16 dvd a"
    using valid_brk[of "page_allocator h"] ok g(1) dvd_trans[of 16 PAGE_4K a]
    by (auto simp: heap_ok_def PAGE_4K_def)
  have b: "a + n * PAGE_4K + 24 < usize_bound" using valid_brk[OF g(2)] g(3) by simp
  have inv: "heap_inv h ps" using ok by (simp add: heap_ok_def)
  let ?sz = "n * PAGE_4K"
  define h1 where "h1 = h\<lparr>page_allocator := p', total_heap_size := total_heap_size h + ?sz,
      heap_start := (if total_heap_size h = 0 then a else heap_start h)\<rparr>"
  have end1: "heap_end h1 = a + ?sz"
    using ok heap_inv_empty[OF inv] g(1) by (auto simp: h1_def heap_end_def heap_ok_def)
  have T: "tiling (heap_start h1) (ps @ (a, ?sz, True) # []) (heap_end h1)"
    using ok heap_inv_empty[OF inv] g(1) page_multiple n end1
    by (auto simp: h1_def heap_ok_def heap_inv_def tiling_append heap_end_def)
  have s1: "0 < heap_start h1" "16 dvd heap_start h1"
    using inv a heap_inv_empty[OF inv] by (auto simp: h1_def heap_inv_def)
  have base: "base \<le> heap_start h1"
    using ok valid_brk[of "page_allocator h"] g(1) heap_inv_empty[OF inv] by (auto simp: h1_def heap_ok_def)
  have D: "dll h1 (frees ps)" using inv by (simp add: h1_def heap_inv_def dll_def)
  have tot: "total_heap_size h + ?sz < usize_bound"
    using end1 b by (simp add: h1_def heap_end_def)
  have fs: "free_size h + ?sz < usize_bound"
    using heap_inv_totals[OF inv] tot by simp
  have coal: "coalesced (ps @ (a, ?sz, True) # [])"
    using inv by (auto simp: heap_inv_def coalesced_append)
  have goal: "heap_ok (h1\<lparr>free_blocks := m, free_list_addr := f, free_size := free_size h + ?sz\<rparr>) (release ps a ?sz [])"
    if "dll (h1\<lparr>free_blocks := m, free_list_addr := f\<rparr>) (frees (release ps a ?sz []))" for m f
    using that release_tiling[OF T] release_coalesced[OF coal] release_totals[of ps a ?sz "[]"] inv s1 base g end1 b
    by (simp add: heap_ok_def heap_inv_def dll_def heap_end_def h1_def)
  show ?thesis
  proof (cases "free_list_addr h = 0")
    case False
    obtain m f where "free_block h1 a ?sz = Ret (h1\<lparr>free_blocks := m, free_list_addr := f\<rparr>)"
      "dll (h1\<lparr>free_blocks := m, free_list_addr := f\<rparr>) (frees (release ps a ?sz []))"
      using free_block_spec[OF T _ s1(1)] D end1 b by auto
    then show ?thesis using goal[where m = m and f = f] False n ap tot fs
      by (simp add: allocate_more_pages_def usize_mul_def usize_add_def Let_def flip: h1_def)
        (simp add: h1_def)
  next
    case True
    have nf: "frees ps = []" using inv True dseg_first dseg_nonzero
      by (cases "frees ps") (auto simp: heap_inv_def dll_def)
    then have "release ps a ?sz [] = ps @ [(a, ?sz, False)]"
      by (cases rule: release_cases[where P = ps and Q = "[]" and f = a and sz = ?sz]) auto
    moreover have "dll (h1\<lparr>free_blocks := (free_blocks h1)(a \<mapsto> \<lparr>fb_prev = 0, fb_next = 0, fb_size = ?sz\<rparr>),
        free_list_addr := a\<rparr>) [(a, ?sz)]" using a(1) by (simp add: dll_def)
    ultimately show ?thesis
      using goal[where m = "(free_blocks h1)(a \<mapsto> \<lparr>fb_prev = 0, fb_next = 0, fb_size = ?sz\<rparr>)" and f = a] nf True n ap tot fs
      by (simp add: allocate_more_pages_def usize_mul_def usize_add_def Let_def set_block_def flip: h1_def)
        (simp add: h1_def)
  qed
qed

lemma allocate_more_pages_Ret:
  "allocate_more_pages allocate_pages n h = Ret h' \<Longrightarrow>
     0 < n \<and> (\<exists>a p'. allocate_pages n (page_allocator h) = Ret (Some a, p'))"
  by (auto simp: allocate_more_pages_def exec_simps split: option.splits)

lemma get_free_block_found:
  assumes "heap_ok h ps" "(b, s, False) \<in> set ps" "n \<le> s"
  shows "\<exists>a P t Q. get_free_block allocate_pages fuel n h = Ret (a, h) \<and> ps = P @ (a, t, False) # Q \<and> n \<le> t"
proof -
  have inv: "heap_inv h ps" using assms(1) by (simp add: heap_ok_def)
  obtain bs where bs: "iter_free_blocks h = Ret bs" "sizes bs = frees ps" using heap_inv_iter[OF inv] by blast
  have "best_fit bs n None \<noteq> None" using best_fit_None[OF _ bs(2) assms(2)] assms(3) by fastforce
  then obtain a b' where f: "best_fit bs n None = Some (a, b')" by auto
  moreover have "total_heap_size h \<noteq> 0" using heap_inv_empty[OF inv] assms(2) by auto
  ultimately show ?thesis using bs best_fit_Some[OF f bs(2)]
    by (auto simp: get_free_block.simps[of _ fuel])
qed

lemma get_free_block_grows:
  assumes ok: "heap_ok h ps" and none: "\<forall>b s. (b, s, False) \<in> set ps \<longrightarrow> s < n"
    and up: "align_up n PAGE_4K = Ret n1" and ap: "allocate_pages (n1 div PAGE_4K) (page_allocator h) = Ret (Some a, p')"
    and n: "0 < n"
  shows "\<exists>h' b P t Q. get_free_block allocate_pages (Suc fuel) n h = Ret (b, h')
    \<and> heap_ok h' (P @ (b, t, False) # Q) \<and> n \<le> t \<and> used_tiles (P @ (b, t, False) # Q) = used_tiles ps
    \<and> block_infos h' = block_infos h"
proof -
  have inv: "heap_inv h ps" using ok by (simp add: heap_ok_def)
  note u = align_up_page_Ret[OF up]
  have n1: "0 < n1 div PAGE_4K" "n1 div PAGE_4K * PAGE_4K = n1"
    using u(1,3) n by (auto simp: div_greater_zero_iff dvd_imp_le)
  obtain h' where h': "allocate_more_pages allocate_pages (n1 div PAGE_4K) h = Ret h'"
      "heap_ok h' (release ps a n1 [])" "block_infos h' = block_infos h"
    using allocate_more_pages_spec[OF ok n1(1) ap] n1(2) by auto
  obtain b s where "(b, s, False) \<in> set (release ps a n1 [])" "n1 \<le> s" using release_room by blast
  from get_free_block_found[OF h'(2) this, of fuel] obtain c P t Q where
    c: "get_free_block allocate_pages fuel n1 h' = Ret (c, h')" "release ps a n1 [] = P @ (c, t, False) # Q" "n1 \<le> t"
    by blast
  have "used_tiles (release ps a n1 []) = used_tiles ps" by (auto simp: used_tiles_def release_used)
  moreover have "get_free_block allocate_pages (Suc fuel) n h = get_free_block allocate_pages fuel n1 h'"
  proof (cases "total_heap_size h = 0")
    case True
    then show ?thesis using up h'(1) by (simp add: get_free_block.simps[of _ "Suc fuel"])
  next
    case False
    obtain bs where bs: "iter_free_blocks h = Ret bs" "sizes bs = frees ps" using heap_inv_iter[OF inv] by blast
    have "best_fit bs n None = None" by (rule best_fit_no_room[OF bs(2) none])
    then show ?thesis using False bs up h'(1) by (simp add: get_free_block.simps[of _ "Suc fuel"])
  qed
  ultimately have "get_free_block allocate_pages (Suc fuel) n h = Ret (c, h')"
    "heap_ok h' (P @ (c, t, False) # Q)" "n \<le> t" "used_tiles (P @ (c, t, False) # Q) = used_tiles ps"
    using c h'(2) u(1) by simp_all
  then show ?thesis using h'(3) by blast
qed

lemma get_free_block_spec:
  assumes "heap_ok h ps" "get_free_block allocate_pages (Suc fuel) n h = Ret (b, h')" "0 < n"
  shows "\<exists>P t Q. heap_ok h' (P @ (b, t, False) # Q) \<and> n \<le> t
    \<and> used_tiles (P @ (b, t, False) # Q) = used_tiles ps \<and> block_infos h' = block_infos h"
proof (cases "\<exists>c s. (c, s, False) \<in> set ps \<and> n \<le> s")
  case True
  then obtain c s where "(c, s, False) \<in> set ps" "n \<le> s" by blast
  from get_free_block_found[OF assms(1) this, of "Suc fuel"] obtain a P t Q where
    "get_free_block allocate_pages (Suc fuel) n h = Ret (a, h)" "ps = P @ (a, t, False) # Q" "n \<le> t" by blast
  then have "b = a" "h' = h" "ps = P @ (a, t, False) # Q" "n \<le> t" using assms(2) by auto
  then show ?thesis using assms(1) by blast
next
  case False
  have inv: "heap_inv h ps" using assms(1) by (simp add: heap_ok_def)
  obtain bs where bs: "iter_free_blocks h = Ret bs" "sizes bs = frees ps" using heap_inv_iter[OF inv] by blast
  have none: "\<forall>c s. (c, s, False) \<in> set ps \<longrightarrow> s < n" using False by (auto simp: not_le)
  have "best_fit bs n None = None" by (rule best_fit_no_room[OF bs(2) none])
  then obtain n1 h1 where "align_up n PAGE_4K = Ret n1" "allocate_more_pages allocate_pages (n1 div PAGE_4K) h = Ret h1"
    using assms(2) bs by (auto simp: get_free_block.simps[of _ "Suc fuel"] exec_simps split: if_splits)
  moreover from this allocate_more_pages_Ret obtain a p' where
    "allocate_pages (n1 div PAGE_4K) (page_allocator h) = Ret (Some a, p')" by blast
  ultimately obtain h2 c P t Q where "get_free_block allocate_pages (Suc fuel) n h = Ret (c, h2)"
    "heap_ok h2 (P @ (c, t, False) # Q) \<and> n \<le> t \<and> used_tiles (P @ (c, t, False) # Q) = used_tiles ps
      \<and> block_infos h2 = block_infos h"
    using get_free_block_grows[OF assms(1) none _ _ assms(3), of n1 a p' fuel] by blast
  then show ?thesis using assms(2) by auto
qed

lemma heap_ok_change:
  assumes "heap_ok h ps" "heap_inv (h2\<lparr>free_size := f, used_size := u\<rparr>) qs" "qs \<noteq> []"
    and "h2 = h\<lparr>free_blocks := m, free_list_addr := fl\<rparr>" "ps \<noteq> []"
  shows "heap_ok (h2\<lparr>free_size := f, used_size := u, block_infos := i\<rparr>) qs"
  using assms by (auto simp: heap_ok_def heap_inv_def dll_def heap_end_def)

lemma heap_alloc_spec:
  assumes ok: "heap_ok h ps" and ly: "layout_ok ly" and al: "heap_alloc allocate_pages ly h = Ret (ptr, h')"
  shows "\<exists>ps' b k. heap_ok h' ps' \<and> used_tiles ps' = insert (b, k) (used_tiles ps)
    \<and> (\<forall>s. (b, s) \<notin> used_tiles ps) \<and> b + 32 \<le> ptr \<and> ptr + l_size ly \<le> b + k \<and> l_align ly dvd ptr
    \<and> request_size ly \<le> k
    \<and> block_infos h' = (block_infos h)(ptr - 32 \<mapsto> \<lparr>magic = HEAP_MAGIC, bi_size = k, pre_padding = ptr - b\<rparr>)"
proof -
  note rq = request_size_facts[OF ly]
  obtain w w2 where w: "align_to ly 16 = Ret w" "layout_extend block_info_layout w = Ret (w2, header_offset ly)"
      "l_size (pad_to_align w2) = request_size ly" using alloc_layout[OF ly] by blast
  obtain b h1 where g: "get_free_block allocate_pages 2 (request_size ly) h = Ret (b, h1)"
    using al w
    by (cases "get_free_block allocate_pages 2 (request_size ly) h") (auto simp: heap_alloc_def block_info_layout_def Let_def)
  have pos: "0 < request_size ly" using rq(3,4) by linarith
  obtain P t Q where h1: "heap_ok h1 (P @ (b, t, False) # Q)" "request_size ly \<le> t"
      "used_tiles (P @ (b, t, False) # Q) = used_tiles ps" "block_infos h1 = block_infos h"
    using get_free_block_spec[OF ok g[unfolded numeral_2_eq_2] pos] by (elim exE conjE)
  have inv: "heap_inv h1 (P @ (b, t, False) # Q)" using h1(1) by (simp add: heap_ok_def)
  then have tl: "tiling (heap_start h1) (P @ (b, t, False) # Q) (heap_end h1)" "16 dvd heap_start h1"
      "0 < heap_start h1" "heap_end h1 + 24 < usize_bound" by (auto simp: heap_inv_def)
  have b: "0 < b" "16 dvd b" "b + t \<le> heap_end h1"
    using tiling_mem[OF tl(1), of b t False] tiling_aligned[OF tl(1,2), of b t False] tl(3) by auto
  have "l_align ly \<le> request_size ly" using rq(4) by (simp add: header_offset_def whole_align_def)
  then have bl: "b + l_align ly < usize_bound" using b(3) h1(2) tl(4) by linarith
  then obtain off where off: "block_offset b (l_align ly) = Ret off" "32 \<le> off" "l_align ly dvd b + off" "16 dvd off"
    using block_offset_spec[OF ly b(2)] bl by blast
  define n where "n = request_size ly + (off - header_offset ly)"
  have n: "16 dvd n" "32 \<le> n" "off + l_size ly \<le> n" "request_size ly \<le> n"
    using rq off by (auto simp: n_def)
  have al16: "is_aligned b 16 = Ret True" using is_aligned_pow2[of b 4] b(2) by simp
  obtain k h2 where tb: "take_block h1 b n = Ret (k, h2)" and p: "ptr = b + off"
    and h': "h' = h2\<lparr>free_size := free_size h2 - k, used_size := used_size h2 + k,
        block_infos := (block_infos h2)(ptr - 32 \<mapsto> \<lparr>magic = HEAP_MAGIC, bi_size = k, pre_padding = off\<rparr>)\<rparr>"
    using al w g b(1) al16 off(1,2)
    by (auto simp: heap_alloc_def block_info_layout_def exec_simps Let_def KERNEL_HEAP_BLOCK_INFO_SIZE_def
        n_def split: if_splits)
  from take_block_inv[OF inv tb n(1,2)] obtain qs m fl where
    q: "heap_inv (h2\<lparr>free_size := free_size h2 - k, used_size := used_size h2 + k\<rparr>) qs"
      "used_tiles qs = insert (b, k) (used_tiles ps)" "\<forall>s. (b, s) \<notin> used_tiles ps" "n \<le> k"
      "h2 = h1\<lparr>free_blocks := m, free_list_addr := fl\<rparr>" "qs \<noteq> []" using h1(3) by auto
  have "heap_ok h' qs" unfolding h' by (rule heap_ok_change[OF h1(1) q(1,6,5)]) simp
  moreover have "block_infos h2 = block_infos h" using q(5) h1(4) by simp
  ultimately show ?thesis using q p off n(3,4) h' by (intro exI[of _ qs] exI[of _ b] exI[of _ k]) auto
qed

lemma heap_dealloc_spec:
  assumes ok: "heap_ok h (P @ (b, k, True) # Q)" and ly: "layout_ok ly"
    and info: "block_infos h (ptr - 32) = Some \<lparr>magic = HEAP_MAGIC, bi_size = k, pre_padding = ptr - b\<rparr>"
    and p: "b + 32 \<le> ptr" and k: "request_size ly \<le> k"
  shows "\<exists>h'. heap_dealloc ptr ly h = Ret h' \<and> heap_ok h' (release P b k Q) \<and> block_infos h' = block_infos h"
proof -
  have inv: "heap_inv h (P @ (b, k, True) # Q)" using ok by (simp add: heap_ok_def)
  have T: "tiling (heap_start h) (P @ (b, k, True) # Q) (heap_end h)" "heap_end h < usize_bound" "0 < heap_start h"
    and D: "dll h (frees P @ frees Q)" and C: "coalesced (P @ (b, k, True) # Q)"
    using inv by (auto simp: heap_inv_def)
  obtain m f where fb: "free_block h b k = Ret (h\<lparr>free_blocks := m, free_list_addr := f\<rparr>)"
      "dll (h\<lparr>free_blocks := m, free_list_addr := f\<rparr>) (frees (release P b k Q))"
    using free_block_spec[OF T D] by blast
  let ?h2 = "h\<lparr>free_blocks := m, free_list_addr := f, used_size := used_size h - k, free_size := free_size h + k\<rparr>"
  have inv2: "heap_inv ?h2 (release P b k Q)"
    using inv fb(2) release_tiling[OF T(1)] release_coalesced[OF C] release_totals[of P b k Q]
    by (simp add: heap_inv_def dll_def heap_end_def)
  obtain w w2 where w: "align_to ly 16 = Ret w" "layout_extend block_info_layout w = Ret (w2, header_offset ly)"
      "l_size (pad_to_align w2) = request_size ly" using alloc_layout[OF ly] by blast
  have u: "k \<le> used_size h" "free_size h + k < usize_bound"
    using inv heap_inv_totals[OF inv] T(2) by (auto simp: heap_inv_def heap_end_def)
  have "32 \<le> ptr - b" using p by linarith
  then have "heap_dealloc ptr ly h = Ret ?h2"
    using w info p k fb(1) u heap_inv_check[OF inv2]
    by (simp add: heap_dealloc_def KERNEL_HEAP_BLOCK_INFO_SIZE_def usize_sub_def usize_add_def Let_def)
  moreover have "release P b k Q \<noteq> []" by (simp add: release_def Let_def split: prod.splits)
  then have "heap_ok ?h2 (release P b k Q)"
    using ok inv2 by (simp add: heap_ok_def heap_end_def)
  ultimately show ?thesis by auto
qed

text \<open>Requests of ordinary alignment are always served while the provider has pages.\<close>

lemma heap_alloc_total:
  assumes ok: "heap_ok h ps" and ly: "layout_ok ly" "l_align ly \<le> 16"
    and room: "(\<exists>b s. (b, s, False) \<in> set ps \<and> request_size ly \<le> s)
      \<or> (\<exists>n a p'. align_up (request_size ly) PAGE_4K = Ret n
           \<and> allocate_pages (n div PAGE_4K) (page_allocator h) = Ret (Some a, p'))"
  shows "\<exists>ptr h'. heap_alloc allocate_pages ly h = Ret (ptr, h')"
proof -
  note rq = request_size_facts[OF ly(1)]
  have pos: "0 < request_size ly" using rq(3,4) by linarith
  obtain w w2 where w: "align_to ly 16 = Ret w" "layout_extend block_info_layout w = Ret (w2, header_offset ly)"
      "l_size (pad_to_align w2) = request_size ly" using alloc_layout[OF ly(1)] by blast
  have "\<exists>b h1. get_free_block allocate_pages 2 (request_size ly) h = Ret (b, h1)"
  proof (cases "\<exists>b s. (b, s, False) \<in> set ps \<and> request_size ly \<le> s")
    case True
    then show ?thesis using get_free_block_found[OF ok] by blast
  next
    case False
    then have none: "\<forall>b s. (b, s, False) \<in> set ps \<longrightarrow> s < request_size ly" by (auto simp: not_le)
    obtain n a p' where "align_up (request_size ly) PAGE_4K = Ret n"
      "allocate_pages (n div PAGE_4K) (page_allocator h) = Ret (Some a, p')" using room False by blast
    from get_free_block_grows[OF ok none this pos, of 1] show ?thesis by (auto simp: numeral_2_eq_2)
  qed
  then obtain b h1 where g: "get_free_block allocate_pages 2 (request_size ly) h = Ret (b, h1)" by blast
  obtain P t Q where h1: "heap_ok h1 (P @ (b, t, False) # Q)" "request_size ly \<le> t"
    using get_free_block_spec[OF ok g[unfolded numeral_2_eq_2] pos] by blast
  have inv: "heap_inv h1 (P @ (b, t, False) # Q)" using h1(1) by (simp add: heap_ok_def)
  then have tl: "tiling (heap_start h1) (P @ (b, t, False) # Q) (heap_end h1)" "16 dvd heap_start h1"
      "0 < heap_start h1" "heap_end h1 + 24 < usize_bound" and D: "dll h1 (frees P @ (b, t) # frees Q)"
    by (auto simp: heap_inv_def)
  have b: "0 < b" "16 dvd b" "b + t \<le> heap_end h1"
    using tiling_mem[OF tl(1), of b t False] tiling_aligned[OF tl(1,2), of b t False] tl(3) by auto
  have wa: "whole_align ly = 16" "header_offset ly = 32" using ly(2) by (auto simp: whole_align_def header_offset_def)
  have "l_align ly \<le> request_size ly" using rq(4) wa ly(2) by linarith
  then have "b + l_align ly < usize_bound" using b(3) h1(2) tl(4) by linarith
  from block_offset_spec[OF ly(1) b(2) this] ly(2) have off: "block_offset b (l_align ly) = Ret 32" "l_align ly dvd b + 32"
    by auto
  have n: "16 dvd request_size ly" "32 \<le> request_size ly" using rq wa by auto
  obtain k h2 where tb: "take_block h1 b (request_size ly) = Ret (k, h2)"
    using take_block_spec[OF tl(1,4,3) D h1(2) n] by blast
  from take_block_inv[OF inv tb n] obtain qs where
    q: "heap_inv (h2\<lparr>free_size := free_size h2 - k, used_size := used_size h2 + k\<rparr>) qs" "k \<le> free_size h2" by blast
  have u: "used_size h2 + k < usize_bound"
    using heap_inv_totals[OF q(1)] q(1) by (simp add: heap_inv_def heap_end_def)
  have al: "is_aligned b 16 = Ret True" using is_aligned_pow2[of b 4] b(2) by simp
  obtain j where j: "l_align ly = 2 ^ j" using whole_align_pow2[OF ly(1)] by metis
  have al2: "is_aligned (b + 32) (l_align ly) = Ret True" using is_aligned_pow2[of "b + 32" j] off(2) j by simp
  have "b + 32 < usize_bound" using b(3) h1(2) n(2) tl(4) by linarith
  then have "\<exists>h'. heap_alloc allocate_pages ly h = Ret (b + 32, h')"
    using w g b(1) al off(1) wa tb q(2) u heap_inv_check[OF q(1)] al2
    by (simp add: heap_alloc_def block_info_layout_def Let_def KERNEL_HEAP_BLOCK_INFO_SIZE_def usize_add_def usize_sub_def)
  then show ?thesis by blast
qed

lemma heap_run_inv:
  assumes "heap_run allocate_pages p h L" "valid p"
  shows "\<exists>ps. heap_ok h ps \<and> heap_live h ps L"
  using assms(1)
proof (induction rule: heap_run.induct)
  case run_new
  have "heap_ok (heap_new p) []" using heap_inv_new assms(2) by (simp add: heap_ok_def heap_new_def)
  moreover have "heap_live (heap_new p) [] []" by (simp add: heap_live_def used_tiles_def)
  ultimately show ?case by blast
next
  case (run_alloc h L ly ptr h')
  then obtain ps where ps: "heap_ok h ps" "heap_live h ps L" by blast
  obtain ps' b k where 1: "heap_ok h' ps'" "used_tiles ps' = insert (b, k) (used_tiles ps)"
      "\<forall>s. (b, s) \<notin> used_tiles ps" "b + 32 \<le> ptr" "ptr + l_size ly \<le> b + k" "l_align ly dvd ptr" "request_size ly \<le> k"
      "block_infos h' = (block_infos h)(ptr - 32 \<mapsto> \<lparr>magic = HEAP_MAGIC, bi_size = k, pre_padding = ptr - b\<rparr>)"
    using heap_alloc_spec[OF ps(1) run_alloc.hyps(2,3)] by blast
  have t: "tiling (heap_start h') ps' (heap_end h')" using 1(1) by (simp add: heap_ok_def heap_inv_def)
  show ?case using live_alloc[OF ps(2) t 1(2,3) run_alloc.hyps(2) 1(4-8)] 1(1) by blast
next
  case (run_dealloc h L1 ptr ly L2 h')
  then obtain ps where ps: "heap_ok h ps" "heap_live h ps (L1 @ (ptr, ly) # L2)" by blast
  from live_split[OF ps(2)] obtain b k where b: "live_block h ps (ptr, ly) (b, k)"
    "\<forall>(h' :: 'p HeapAllocator) ps'. block_infos h' = block_infos h
        \<longrightarrow> used_tiles ps' = used_tiles ps - {(b, k)} \<longrightarrow> heap_live h' ps' (L1 @ L2)" by blast
  then have "(b, k, True) \<in> set ps" by (auto simp: live_block_def used_tiles_def)
  then obtain P Q where pq: "ps = P @ (b, k, True) # Q" by (meson split_list)
  have t: "tiling (heap_start h) (P @ (b, k, True) # Q) (heap_end h)"
    using ps(1)[unfolded pq] unfolding heap_ok_def heap_inv_def by blast
  obtain h2 where h2: "heap_dealloc ptr ly h = Ret h2" "heap_ok h2 (release P b k Q)" "block_infos h2 = block_infos h"
    using heap_dealloc_spec[OF ps(1)[unfolded pq], of ly ptr] b(1) by (auto simp: live_block_def)
  have "(b, k, True) \<notin> set P \<union> set Q"
    using tile_unique[OF t] by blast
  then have "used_tiles (release P b k Q) = used_tiles ps - {(b, k)}"
    by (auto simp: used_tiles_def release_used pq)
  then have "heap_live h2 (release P b k Q) (L1 @ L2)" using b(2) h2(3) by blast
  then show ?case using h2(1,2) run_dealloc.hyps(2) by auto
qed

end

end
