(* ===== verification/Kernel_Heap.thy ===== *)
theory Kernel_Heap
  imports Heap_Alloc_Proofs Page_Tables_Proofs
begin

text \<open>
  The kernel heap: the allocator of \<open>Heap_Alloc\<close> over the page provider of
  kernel/src/memory_management/kernel_heap_allocator.rs, which maps fresh pages at the end of the
  heap region.
\<close>

section \<open>The provider\<close>

definition kernel_brk :: "PageAllocator \<times> PhysicalPageAllocator \<Rightarrow> usize" where
  "kernel_brk = (\<lambda>(pa, st). pa_heap_start pa + mapped_pages pa * PAGE_4K)"

definition kernel_pa_ok :: "PageAllocator \<times> PhysicalPageAllocator \<Rightarrow> bool" where
  "kernel_pa_ok = (\<lambda>(pa, st). pa_heap_start pa = KERNEL_HEAP_BASE \<and> mapped_pages pa * PAGE_4K \<le> KERNEL_HEAP_SIZE)"

interpretation kheap: page_provider "kernel_allocate_pages kvm" kernel_brk kernel_pa_ok KERNEL_HEAP_BASE for kvm
proof
  fix p :: "PageAllocator \<times> PhysicalPageAllocator"
  assume "kernel_pa_ok p"
  then show "0 < kernel_brk p \<and> KERNEL_HEAP_BASE \<le> kernel_brk p \<and> PAGE_4K dvd kernel_brk p \<and> kernel_brk p + 24 < usize_bound"
    by (auto simp: kernel_pa_ok_def kernel_brk_def kernel_layout_defs usize_bound_def split: prod.splits)
next
  fix p p' :: "PageAllocator \<times> PhysicalPageAllocator" and n a
  assume "kernel_pa_ok p" "kernel_allocate_pages kvm n p = Ret (Some a, p')"
  then show "a = kernel_brk p \<and> kernel_pa_ok p' \<and> kernel_brk p' = kernel_brk p + n * PAGE_4K"
    by (auto simp: kernel_pa_ok_def kernel_brk_def kernel_allocate_pages_def exec_simps algebra_simps
        split: prod.splits if_splits)
qed

lemma kernel_pa_start: "kernel_pa_ok (PageAllocator_new, st)"
  by (simp add: kernel_pa_ok_def PageAllocator_new_def)

lemma align_range_pages:
  assumes "PAGE_4K dvd va" "0 < n" "va + n * PAGE_4K + PAGE_4K < usize_bound"
  shows "align_range va (n * PAGE_4K) PAGE_4K = Ret (va, n * PAGE_4K, 0)"
proof -
  have d: "PAGE_4K dvd va + n * PAGE_4K" using assms(1) by simp
  have "va div PAGE_4K * PAGE_4K = va" using assms(1) by simp
  then show ?thesis
    using assms(2,3) d round_up_aligned[OF d PAGE_4K_pos]
    by (simp add: align_range_def usize_add_def usize_sub_def align_up_page align_down_page)
qed

text \<open>With enough free frames the provider maps the pages it is asked for.\<close>

lemma kernel_allocate_pages_total:
  assumes "kernel_pa_ok (pa, st)" "pt_inv st xs (page_map_l4 kvm) T" "\<not> is_user kvm" "0 < n"
    and "(mapped_pages pa + n) * PAGE_4K \<le> KERNEL_HEAP_SIZE"
    and "4 * n \<le> length xs" "used_count st + 4 * n < usize_bound"
  shows "\<exists>p'. kernel_allocate_pages kvm n (pa, st) = Ret (Some (kernel_brk (pa, st)), p')"
proof -
  let ?va = "kernel_brk (pa, st)"
  have va: "?va = KERNEL_HEAP_BASE + mapped_pages pa * PAGE_4K" "PAGE_4K dvd ?va" "KERNEL_BASE \<le> ?va"
    using assms(1) by (simp_all add: kernel_pa_ok_def kernel_brk_def kernel_layout_defs)
  have le: "?va + n * PAGE_4K \<le> KERNEL_HEAP_BASE + KERNEL_HEAP_SIZE" using assms(5) va(1) by (simp add: algebra_simps)
  then have b: "?va + n * PAGE_4K + PAGE_4K < usize_bound" by (simp add: kernel_layout_defs usize_bound_def)
  let ?en = "\<lparr>virtual_address = ?va, physical_address = None, me_size = n * PAGE_4K, me_flags = PTE_WRITABLE\<rparr>"
  have "vm_map kvm ?en st = map_loop st (page_map_l4 kvm) ?va None (n * PAGE_4K) PTE_WRITABLE"
    using vm_map_loop[OF assms(2), of ?en ?va "n * PAGE_4K" 0] align_range_pages[OF va(2) assms(4) b] assms(3,4) b
    by (simp add: user_range_ok_def)
  moreover have "?va + n * PAGE_4K < usize_bound" using b by simp
  ultimately obtain st' where "vm_map kvm ?en st = Ret st'"
    using map_loop_new[OF assms(2) ex_flags(1) assms(6,7), of ?va] by auto
  then have "map_kernel kvm ?en st = Ret st'" using va(3) by (simp add: map_kernel_def)
  moreover have "pa_heap_start pa = KERNEL_HEAP_BASE" using assms(1) by (simp add: kernel_pa_ok_def)
  moreover have "mapped_pages pa + n < usize_bound" "(mapped_pages pa + n) * PAGE_4K < usize_bound"
      "mapped_pages pa * PAGE_4K < usize_bound" "PAGE_4K * n < usize_bound"
    using b le va(1) assms(5) by (simp_all add: kernel_layout_defs usize_bound_def)
  moreover have "KERNEL_HEAP_BASE + mapped_pages pa * PAGE_4K < usize_bound" using va(1) b by simp
  ultimately show ?thesis
    using assms(4,5) va(1)
    by (simp add: kernel_allocate_pages_def usize_add_def usize_mul_def mult.commute[of PAGE_4K])
qed

lemma kernel_heap_bounds:
  assumes "kheap.heap_ok h ps" "ps \<noteq> []"
  shows "KERNEL_HEAP_BASE \<le> heap_start h" "heap_end h \<le> KERNEL_HEAP_BASE + KERNEL_HEAP_SIZE"
proof -
  have 1: "kernel_pa_ok (page_allocator h)" "heap_end h = kernel_brk (page_allocator h)"
      "KERNEL_HEAP_BASE \<le> heap_start h"
    using assms by (simp_all add: kheap.heap_ok_def)
  show "KERNEL_HEAP_BASE \<le> heap_start h" by (rule 1(3))
  show "heap_end h \<le> KERNEL_HEAP_BASE + KERNEL_HEAP_SIZE"
    using 1(1,2) by (auto simp: kernel_pa_ok_def kernel_brk_def split: prod.splits)
qed

lemma live_ranges:
  assumes "heap_live h ps L" "tiling lo ps hi" "i < length L" "j < length L" "i \<noteq> j"
  shows "{fst (L ! i)..<fst (L ! i) + l_size (snd (L ! i))} \<inter> {fst (L ! j)..<fst (L ! j) + l_size (snd (L ! j))} = {}"
proof -
  obtain B where B: "list_all2 (live_block h ps) L B" "distinct (map fst B)" using assms(1) by (auto simp: heap_live_def)
  have len: "length B = length L" using B(1) by (simp add: list_all2_lengthD)
  obtain bi ki bj kj where b: "B ! i = (bi, ki)" "B ! j = (bj, kj)" by fastforce
  have li: "live_block h ps (L ! i) (bi, ki)" and lj: "live_block h ps (L ! j) (bj, kj)"
    using list_all2_nthD[OF B(1)] assms(3,4) b by metis+
  have "bi \<noteq> bj"
    using nth_eq_iff_index_eq[OF B(2), of i j] assms(3-5) len b by simp
  then have "bi + ki \<le> bj \<or> bj + kj \<le> bi"
    using tiling_disjoint[OF assms(2), of bi ki True bj kj True] li lj
    by (auto simp: live_block_def used_tiles_def split: prod.splits)
  then show ?thesis using li lj by (auto simp: live_block_def split: prod.splits)
qed

lemma live_bounds:
  assumes "heap_live h ps L" "tiling lo ps hi" "(ptr, ly) \<in> set L"
  shows "l_align ly dvd ptr \<and> lo \<le> ptr \<and> ptr + l_size ly \<le> hi"
proof -
  obtain L1 L2 where l: "L = L1 @ (ptr, ly) # L2" using assms(3) by (meson split_list)
  from live_split[OF assms(1)[unfolded l]] obtain b k where "live_block h ps (ptr, ly) (b, k)" by (elim exE conjE)
  then show ?thesis using tiling_mem[OF assms(2), of b k True] by (auto simp: live_block_def used_tiles_def)
qed

section \<open>Properties\<close>

text \<open>
  C30.  The kernel heap, after any sequence of allocations and releases: the memory of every two
  blocks in use is disjoint, every block has the alignment it was asked for and lies in the heap
  region, and the statistics add up.
\<close>
theorem kernel_heap_disjoint:
  assumes "heap_run (kernel_allocate_pages kvm) (PageAllocator_new, st) h L"
  shows "(\<forall>i < length L. \<forall>j < length L. i \<noteq> j \<longrightarrow>
        {fst (L ! i)..<fst (L ! i) + l_size (snd (L ! i))} \<inter> {fst (L ! j)..<fst (L ! j) + l_size (snd (L ! j))} = {})
    \<and> (\<forall>(ptr, ly) \<in> set L. l_align ly dvd ptr \<and> KERNEL_HEAP_BASE \<le> ptr
         \<and> ptr + l_size ly \<le> KERNEL_HEAP_BASE + KERNEL_HEAP_SIZE)
    \<and> fst (heap_stats h) + fst (snd (heap_stats h)) = snd (snd (heap_stats h))"
proof -
  obtain ps where ps: "kheap.heap_ok h ps" "heap_live h ps L"
    using kheap.heap_run_inv[OF assms kernel_pa_start] by blast
  have inv: "heap_inv h ps" and t: "tiling (heap_start h) ps (heap_end h)"
    using ps(1) by (simp_all add: kheap.heap_ok_def heap_inv_def)
  have stats: "used_size h + free_size h = total_heap_size h" by (rule heap_inv_totals[OF inv])
  have "KERNEL_HEAP_BASE \<le> heap_start h \<and> heap_end h \<le> KERNEL_HEAP_BASE + KERNEL_HEAP_SIZE" if "L \<noteq> []"
  proof -
    have "ps \<noteq> []" using that ps(2) by (auto simp: heap_live_def used_tiles_def)
    then show ?thesis using kernel_heap_bounds[OF ps(1)] by simp
  qed
  then show ?thesis using live_ranges[OF ps(2) t] live_bounds[OF ps(2) t] stats
    by (fastforce simp: heap_stats_def)
qed

lemma all_free_tiles:
  assumes "coalesced ps" "used_tiles ps = {}"
  shows "ps = [] \<or> (\<exists>a s. ps = [(a, s, False)])"
proof (cases ps)
  case (Cons t qs)
  obtain a s u where t: "t = (a, s, u)" by (cases t)
  then have u: "\<not> u" using assms(2) Cons by (auto simp: used_tiles_def)
  have "\<not> free_head qs" using assms(1) Cons t u by simp
  moreover have "free_head qs" if "qs \<noteq> []"
    using that assms(2) Cons by (cases qs) (auto simp: used_tiles_def)
  ultimately show ?thesis using Cons t u by blast
qed simp

text \<open>
  C31.  Whatever is in use can be given back with the layout it was requested with: the release
  succeeds, passing the allocator's own checks of magic number, sizes and list.  When everything
  has been given back the heap is a single free block again.
\<close>
theorem kernel_heap_release:
  assumes "heap_run (kernel_allocate_pages kvm) (PageAllocator_new, st) h L"
  shows "(\<forall>(ptr, ly) \<in> set L. \<exists>h'. heap_dealloc ptr ly h = Ret h')
    \<and> (L = [] \<longrightarrow> total_heap_size h \<noteq> 0 \<longrightarrow>
         (\<exists>b. iter_free_blocks h = Ret [(heap_start h, b)] \<and> fb_size b = total_heap_size h))"
proof (intro conjI ballI impI)
  obtain ps where ps: "kheap.heap_ok h ps" "heap_live h ps L"
    using kheap.heap_run_inv[OF assms kernel_pa_start] by blast
  have inv: "heap_inv h ps" using ps(1) by (simp add: kheap.heap_ok_def)
  show "case x of (ptr, ly) \<Rightarrow> \<exists>h'. heap_dealloc ptr ly h = Ret h'" if xin: "x \<in> set L" for x
  proof -
    obtain ptr ly where x: "x = (ptr, ly)" by (cases x)
    obtain L1 L2 where l: "L = L1 @ (ptr, ly) # L2" using xin x by (meson split_list)
    from live_split[OF ps(2)[unfolded l]] obtain b k where b: "live_block h ps (ptr, ly) (b, k)" by (elim exE conjE)
    then have "(b, k, True) \<in> set ps" by (auto simp: live_block_def used_tiles_def)
    then obtain P Q where pq: "ps = P @ (b, k, True) # Q" by (meson split_list)
    show ?thesis using kheap.heap_dealloc_spec[OF ps(1)[unfolded pq], of ly ptr] b x
      by (auto simp: live_block_def)
  qed
  assume L: "L = []" and t: "total_heap_size h \<noteq> 0"
  have "used_tiles ps = {}" using ps(2) L by (auto simp: heap_live_def)
  moreover have "coalesced ps" "tiling (heap_start h) ps (heap_end h)" using inv by (auto simp: heap_inv_def)
  moreover have "ps \<noteq> []" using heap_inv_empty[OF inv] t by simp
  ultimately have "ps = [(heap_start h, total_heap_size h, False)]"
    using all_free_tiles[of ps] by (auto simp: heap_end_def)
  then show "\<exists>b. iter_free_blocks h = Ret [(heap_start h, b)] \<and> fb_size b = total_heap_size h"
    using heap_inv_iter[OF inv] by (auto simp: sizes_def)
qed



section \<open>Runs\<close>

definition ex_layout :: Layout where "ex_layout = \<lparr>l_size = 16, l_align = 16\<rparr>"

lemma ex_layout_ok: "layout_ok ex_layout" "l_align ex_layout \<le> 16" "request_size ex_layout = 48"
proof -
  have "\<exists>k < 64. (16 :: nat) = 2 ^ k" by (intro exI[of _ 4]) simp
  then show "layout_ok ex_layout" by (simp add: layout_ok_def ex_layout_def ISIZE_MAX_def)
  show "l_align ex_layout \<le> 16" "request_size ex_layout = 48"
    by (simp_all add: ex_layout_def request_size_def header_offset_def whole_align_def layout_round_up_def)
qed

abbreviation ex_heap :: "(PageAllocator \<times> PhysicalPageAllocator) HeapAllocator" where
  "ex_heap \<equiv> heap_new (PageAllocator_new, ex_phys)"

lemma ex_heap_room:
  "0 < (1 :: nat)" "(mapped_pages PageAllocator_new + 1) * PAGE_4K \<le> KERNEL_HEAP_SIZE" "4 * 1 \<le> length ex_free"
  "used_count ex_phys + 4 * 1 < usize_bound" "\<not> is_user ex_vm"
  by (simp_all add: PageAllocator_new_def kernel_layout_defs ex_free_def ex_phys_def usize_bound_def ex_vm_def)

lemma ex_heap_alloc:
  "\<exists>ptr h. heap_alloc (kernel_allocate_pages ex_vm) ex_layout ex_heap = Ret (ptr, h)"
proof -
  have ok: "kheap.heap_ok ex_heap []"
    using heap_inv_new kernel_pa_start by (simp add: kheap.heap_ok_def heap_new_def)
  obtain p' where "kernel_allocate_pages ex_vm 1 (page_allocator ex_heap) = Ret (Some (kernel_brk (PageAllocator_new, ex_phys)), p')"
    using kernel_allocate_pages_total[OF kernel_pa_start ex_pt_inv ex_heap_room(5,1-4)] by (auto simp: heap_new_def)
  moreover have "align_up (request_size ex_layout) PAGE_4K = Ret PAGE_4K"
    using align_up_page[of 48] by (simp add: ex_layout_ok(3) PAGE_4K_def usize_bound_def)
  moreover have "PAGE_4K div PAGE_4K = 1" by (simp add: PAGE_4K_def)
  ultimately show ?thesis using kheap.heap_alloc_total[OF ok ex_layout_ok(1,2)] by metis
qed

lemma ex_heap_run:
  obtains ptr h where "heap_run (kernel_allocate_pages ex_vm) (PageAllocator_new, ex_phys) h [(ptr, ex_layout)]"
proof -
  obtain ptr h where "heap_alloc (kernel_allocate_pages ex_vm) ex_layout ex_heap = Ret (ptr, h)"
    using ex_heap_alloc by blast
  from that[OF run_alloc[OF run_new ex_layout_ok(1) this]] show thesis .
qed

theorem kernel_heap_disjoint_witness:
  "\<exists>ptr h. heap_run (kernel_allocate_pages ex_vm) (PageAllocator_new, ex_phys) h [(ptr, ex_layout)]
     \<and> 16 dvd ptr \<and> KERNEL_HEAP_BASE \<le> ptr \<and> ptr + 16 \<le> KERNEL_HEAP_BASE + KERNEL_HEAP_SIZE"
proof -
  obtain ptr h where r: "heap_run (kernel_allocate_pages ex_vm) (PageAllocator_new, ex_phys) h [(ptr, ex_layout)]"
    by (rule ex_heap_run)
  show ?thesis using r kernel_heap_disjoint[OF r] by (auto simp: ex_layout_def)
qed

theorem kernel_heap_release_witness:
  "\<exists>ptr h h'. heap_run (kernel_allocate_pages ex_vm) (PageAllocator_new, ex_phys) h [(ptr, ex_layout)]
     \<and> heap_dealloc ptr ex_layout h = Ret h'"
proof -
  obtain ptr h where r: "heap_run (kernel_allocate_pages ex_vm) (PageAllocator_new, ex_phys) h [(ptr, ex_layout)]"
    by (rule ex_heap_run)
  show ?thesis using r kernel_heap_release[OF r] by auto
qed


definition tight_heap :: "unit HeapAllocator" where
  "tight_heap = \<lparr>heap_start = 0x1000, total_heap_size = 0x1000, free_list_addr = 0x1030, free_size = 128,
     used_size = 0xF80, page_allocator = (),
     free_blocks = [0x1030 \<mapsto> \<lparr>fb_prev = 0, fb_next = 0, fb_size = 128\<rparr>], block_infos = (\<lambda>_. None)\<rparr>"


end
