(* ===== verification/BTree_Map.thy ===== *)
theory BTree_Map
  imports Prelude "HOL-Library.Multiset"
begin

text \<open>
  The ordered map of the standard library (\<open>alloc::collections::BTreeMap\<close>) with numeric keys, as
  the kernel uses it: a list of entries in ascending key order, which is also the order of its
  iterators.
\<close>

type_synonym 'v btmap = "(nat \<times> 'v) list"

fun bt_insert :: "nat \<Rightarrow> 'v \<Rightarrow> 'v btmap \<Rightarrow> 'v btmap" where
  "bt_insert k v [] = [(k, v)]"
| "bt_insert k v ((k', v') # m) =
     (if k < k' then (k, v) # (k', v') # m
      else if k = k' then (k, v) # m
      else (k', v') # bt_insert k v m)"

definition bt_remove :: "nat \<Rightarrow> 'v btmap \<Rightarrow> 'v btmap" where
  "bt_remove k m = filter (\<lambda>(k', _). k' \<noteq> k) m"

abbreviation bt_get :: "'v btmap \<Rightarrow> nat \<Rightarrow> 'v option" where
  "bt_get m k \<equiv> map_of m k"

definition bt_contains :: "nat \<Rightarrow> 'v btmap \<Rightarrow> bool" where
  "bt_contains k m = (bt_get m k \<noteq> None)"

definition bt_wf :: "'v btmap \<Rightarrow> bool" where
  "bt_wf m \<longleftrightarrow> sorted_wrt (<) (map fst m)"

lemma bt_wf_Nil [simp]: "bt_wf []"
  by (simp add: bt_wf_def)

lemma bt_wf_Cons: "bt_wf ((k, v) # m) \<longleftrightarrow> bt_wf m \<and> (\<forall>x \<in> set m. k < fst x)"
  by (auto simp: bt_wf_def)

lemma bt_wf_distinct: "bt_wf m \<Longrightarrow> distinct (map fst m)"
  by (simp add: bt_wf_def strict_sorted_iff)

lemma bt_get_insert [simp]: "bt_get (bt_insert k v m) = (bt_get m)(k \<mapsto> v)" if "bt_wf m"
  using that
proof (induction m)
  case (Cons x m)
  obtain k' v' where x: "x = (k', v')" by (cases x)
  show ?case using Cons by (cases "k < k'"; cases "k = k'") (auto simp: x bt_wf_Cons fun_eq_iff)
qed simp

lemma bt_insert_fresh: "mset (bt_insert k v m) = add_mset (k, v) (mset m)" if "bt_get m k = None"
  using that by (induction m) (auto split: if_splits)

lemma set_bt_insert: "set (bt_insert k v m) \<subseteq> insert (k, v) (set m)"
  by (induction m) (auto split: if_splits)

lemma bt_insert_wf [simp]: "bt_wf (bt_insert k v m)" if "bt_wf m"
  using that
proof (induction m)
  case (Cons x m)
  obtain k' v' where x: "x = (k', v')" by (cases x)
  have "\<forall>y \<in> set (bt_insert k v m). k' < fst y" if "k' < k"
    using Cons.prems set_bt_insert[of k v m] that by (auto simp: x bt_wf_Cons)
  then show ?case using Cons by (auto simp: x bt_wf_Cons)
qed (simp add: bt_wf_Cons)

lemma set_bt_insert_wf: "set (bt_insert k v m) = insert (k, v) {x \<in> set m. fst x \<noteq> k}" if "bt_wf m"
  using that
proof (induction m)
  case (Cons x m)
  obtain k' v' where x: "x = (k', v')" by (cases x)
  show ?case using Cons by (auto simp: x bt_wf_Cons)
qed simp

lemma bt_get_remove [simp]: "bt_get (bt_remove k m) = (bt_get m)(k := None)"
  by (induction m) (auto simp: bt_remove_def fun_eq_iff)

lemma bt_remove_wf [simp]: "bt_wf m \<Longrightarrow> bt_wf (bt_remove k m)"
  by (induction m) (auto simp: bt_remove_def bt_wf_Cons)

lemma set_bt_remove [simp]: "set (bt_remove k m) = {x \<in> set m. fst x \<noteq> k}"
  by (auto simp: bt_remove_def)

lemma bt_remove_mset: "mset m = add_mset (k, v) (mset (bt_remove k m))" if "bt_wf m" "bt_get m k = Some v"
  using that
proof (induction m)
  case (Cons x m)
  obtain k' v' where x: "x = (k', v')" by (cases x)
  show ?case
  proof (cases "k = k'")
    case True
    then have "bt_remove k (x # m) = m"
      using Cons.prems(1) by (auto simp: x bt_wf_Cons bt_remove_def filter_id_conv)
    then show ?thesis using True Cons.prems(2) by (simp add: x)
  next
    case False
    then have "bt_remove k (x # m) = x # bt_remove k m" by (simp add: x bt_remove_def)
    then show ?thesis using False Cons by (simp add: x bt_wf_Cons)
  qed
qed simp

lemma bt_in_set: "bt_wf m \<Longrightarrow> (k, v) \<in> set m \<longleftrightarrow> bt_get m k = Some v"
  using map_of_eq_Some_iff[OF bt_wf_distinct] by metis

lemma bt_filter_wf [simp]: "bt_wf m \<Longrightarrow> bt_wf (filter P m)"
  by (induction m) (auto simp: bt_wf_def)

end
