(* ===== verification/Context_Switch.thy ===== *)
theory Context_Switch
  imports Prelude "HOL-Library.Word"
begin

unbundle bit_operations_syntax

text \<open>
  The register file a process runs with: \<open>ProcessContext\<close> of kernel/src/process/mod.rs, the state an
  interrupt saves (kernel/src/cpu/idt.rs) and \<open>swap_context\<close> of kernel/src/process/scheduler.rs,
  which exchanges the two.  The floating point state lives in the processor; \<open>fxsave\<close> copies it
  out and \<open>fxrstor\<close> replaces it.
\<close>

type_synonym FxSave = "128 word list"

record InterruptStackFrame64 =
  f_rip :: u64
  f_cs :: u8
  f_rflags :: u64
  f_rsp :: u64
  f_ss :: u8

record RestSavedRegisters =
  r_ds :: u64
  r_es :: u64
  r_fs :: u64
  r_gs :: u64
  r_dr0 :: u64
  r_dr1 :: u64
  r_dr2 :: u64
  r_dr3 :: u64
  r_dr6 :: u64
  r_dr7 :: u64
  r_rax :: u64
  r_rbx :: u64
  r_rcx :: u64
  r_rdx :: u64
  r_rsi :: u64
  r_rdi :: u64
  r_rbp :: u64
  r_r8 :: u64
  r_r9 :: u64
  r_r10 :: u64
  r_r11 :: u64
  r_r12 :: u64
  r_r13 :: u64
  r_r14 :: u64
  r_r15 :: u64

record InterruptAllSavedState =
  rest :: RestSavedRegisters
  int_number :: u64
  int_error :: u64
  frame :: InterruptStackFrame64

record ProcessContext =
  c_rflags :: u64
  c_rip :: u64
  c_cs :: u64
  c_ds :: u64
  c_es :: u64
  c_fs :: u64
  c_gs :: u64
  c_ss :: u64
  c_dr0 :: u64
  c_dr1 :: u64
  c_dr2 :: u64
  c_dr3 :: u64
  c_dr6 :: u64
  c_dr7 :: u64
  c_rax :: u64
  c_rbx :: u64
  c_rcx :: u64
  c_rdx :: u64
  c_rsi :: u64
  c_rdi :: u64
  c_rsp :: u64
  c_rbp :: u64
  c_r8 :: u64
  c_r9 :: u64
  c_r10 :: u64
  c_r11 :: u64
  c_r12 :: u64
  c_r13 :: u64
  c_r14 :: u64
  c_r15 :: u64
  c_fxsave :: FxSave

definition ProcessContext_default :: ProcessContext where
  "ProcessContext_default =
     \<lparr>c_rflags = 0, c_rip = 0, c_cs = 0, c_ds = 0, c_es = 0, c_fs = 0, c_gs = 0, c_ss = 0,
      c_dr0 = 0, c_dr1 = 0, c_dr2 = 0, c_dr3 = 0, c_dr6 = 0, c_dr7 = 0, c_rax = 0, c_rbx = 0,
      c_rcx = 0, c_rdx = 0, c_rsi = 0, c_rdi = 0, c_rsp = 0, c_rbp = 0, c_r8 = 0, c_r9 = 0,
      c_r10 = 0, c_r11 = 0, c_r12 = 0, c_r13 = 0, c_r14 = 0, c_r15 = 0, c_fxsave = replicate 32 0\<rparr>"

definition swap_context ::
  "FxSave \<Rightarrow> ProcessContext \<Rightarrow> InterruptAllSavedState \<Rightarrow> FxSave \<times> ProcessContext \<times> InterruptAllSavedState" where
  "swap_context fpu c a =
     (c_fxsave c,
      \<lparr>c_rflags = f_rflags (frame a), c_rip = f_rip (frame a), c_cs = ucast (f_cs (frame a)),
       c_ds = r_ds (rest a), c_es = r_es (rest a), c_fs = r_fs (rest a), c_gs = r_gs (rest a),
       c_ss = ucast (f_ss (frame a)), c_dr0 = r_dr0 (rest a), c_dr1 = r_dr1 (rest a),
       c_dr2 = r_dr2 (rest a), c_dr3 = r_dr3 (rest a), c_dr6 = r_dr6 (rest a),
       c_dr7 = r_dr7 (rest a), c_rax = r_rax (rest a), c_rbx = r_rbx (rest a),
       c_rcx = r_rcx (rest a), c_rdx = r_rdx (rest a), c_rsi = r_rsi (rest a),
       c_rdi = r_rdi (rest a), c_rsp = f_rsp (frame a), c_rbp = r_rbp (rest a),
       c_r8 = r_r8 (rest a), c_r9 = r_r9 (rest a), c_r10 = r_r10 (rest a), c_r11 = r_r11 (rest a),
       c_r12 = r_r12 (rest a), c_r13 = r_r13 (rest a), c_r14 = r_r14 (rest a),
       c_r15 = r_r15 (rest a), c_fxsave = fpu\<rparr>,
      a\<lparr>rest := \<lparr>r_ds = c_ds c, r_es = c_es c, r_fs = c_fs c, r_gs = c_gs c, r_dr0 = c_dr0 c,
                 r_dr1 = c_dr1 c, r_dr2 = c_dr2 c, r_dr3 = c_dr3 c, r_dr6 = c_dr6 c,
                 r_dr7 = c_dr7 c, r_rax = c_rax c, r_rbx = c_rbx c, r_rcx = c_rcx c,
                 r_rdx = c_rdx c, r_rsi = c_rsi c, r_rdi = c_rdi c, r_rbp = c_rbp c, r_r8 = c_r8 c,
                 r_r9 = c_r9 c, r_r10 = c_r10 c, r_r11 = c_r11 c, r_r12 = c_r12 c, r_r13 = c_r13 c,
                 r_r14 = c_r14 c, r_r15 = c_r15 c\<rparr>,
        frame := \<lparr>f_rip = c_rip c, f_cs = ucast (c_cs c), f_rflags = c_rflags c, f_rsp = c_rsp c,
                  f_ss = ucast (c_ss c)\<rparr>\<rparr>)"

section \<open>What a context switch keeps\<close>

text \<open>The context of the program an interrupt stopped, as the switch will store it.\<close>

definition saved_context :: "FxSave \<Rightarrow> InterruptAllSavedState \<Rightarrow> ProcessContext" where
  "saved_context fpu a =
     \<lparr>c_rflags = f_rflags (frame a), c_rip = f_rip (frame a), c_cs = ucast (f_cs (frame a)),
      c_ds = r_ds (rest a), c_es = r_es (rest a), c_fs = r_fs (rest a), c_gs = r_gs (rest a),
      c_ss = ucast (f_ss (frame a)), c_dr0 = r_dr0 (rest a), c_dr1 = r_dr1 (rest a),
      c_dr2 = r_dr2 (rest a), c_dr3 = r_dr3 (rest a), c_dr6 = r_dr6 (rest a),
      c_dr7 = r_dr7 (rest a), c_rax = r_rax (rest a), c_rbx = r_rbx (rest a),
      c_rcx = r_rcx (rest a), c_rdx = r_rdx (rest a), c_rsi = r_rsi (rest a),
      c_rdi = r_rdi (rest a), c_rsp = f_rsp (frame a), c_rbp = r_rbp (rest a),
      c_r8 = r_r8 (rest a), c_r9 = r_r9 (rest a), c_r10 = r_r10 (rest a), c_r11 = r_r11 (rest a),
      c_r12 = r_r12 (rest a), c_r13 = r_r13 (rest a), c_r14 = r_r14 (rest a),
      c_r15 = r_r15 (rest a), c_fxsave = fpu\<rparr>"

definition user_mode :: "u64 \<Rightarrow> bool" where
  "user_mode cs \<longleftrightarrow> cs AND 3 = 3"

text \<open>The segment selectors of a context fit the bytes of the interrupt frame.\<close>

definition ctx_ok :: "ProcessContext \<Rightarrow> bool" where
  "ctx_ok c \<longleftrightarrow> c_cs c < 256 \<and> c_ss c < 256"

lemma ucast_byte_back [simp]: "ucast (ucast w :: u8) = w" if "w < 256" for w :: u64
  using that
  by (simp add: word_eq_iff_unsigned[where ?'a = nat] unsigned_ucast_eq unsigned_take_bit_eq word_less_nat_alt
      take_bit_nat_eq_self)

lemma ucast_byte_less [simp]: "(ucast (b :: u8) :: u64) < 256"
  using unsigned_less[of b, where ?'a = nat] by (simp add: word_less_nat_alt unsigned_ucast_eq unsigned_take_bit_eq
      take_bit_nat_eq_self)

lemma ucast_byte_up_down [simp]: "ucast (ucast b :: u64) = (b :: u8)"
  using unsigned_less[of b, where ?'a = nat]
  by (simp add: word_eq_iff_unsigned[where ?'a = nat] unsigned_ucast_eq unsigned_take_bit_eq take_bit_nat_eq_self)

lemma ctx_ok_saved [simp]: "ctx_ok (saved_context fpu a)"
  by (simp add: ctx_ok_def saved_context_def swap_context_def)

lemma swap_context_saves [simp]: "fst (snd (swap_context fpu c a)) = saved_context fpu a"
  by (simp add: saved_context_def swap_context_def)

lemma swap_context_loads:
  assumes "ctx_ok c"
  shows "saved_context (fst (swap_context fpu c a)) (snd (snd (swap_context fpu c a))) = c"
  using assms by (simp add: saved_context_def swap_context_def ctx_ok_def)

lemma swap_context_fpu [simp]: "fst (swap_context fpu c a) = c_fxsave c"
  by (simp add: swap_context_def)

lemma swap_context_kept [simp]:
  "int_number (snd (snd (swap_context fpu c a))) = int_number a"
  "int_error (snd (snd (swap_context fpu c a))) = int_error a"
  by (simp_all add: swap_context_def)

text \<open>
  C34.  A context switch exchanges the whole register file: the context then holds every register
  of the program that was interrupted, the interrupt returns with every register of the context,
  the floating point state included, and switching back restores both.
\<close>
theorem swap_context_exchanges:
  assumes "ctx_ok c" "swap_context fpu c a = (fpu1, c1, a1)"
  shows "c1 = saved_context fpu a \<and> saved_context fpu1 a1 = c
    \<and> int_number a1 = int_number a \<and> int_error a1 = int_error a
    \<and> swap_context fpu1 c1 a1 = (fpu, c, a)"
proof -
  have "swap_context (c_fxsave c) (saved_context fpu a) (snd (snd (swap_context fpu c a))) = (fpu, c, a)"
    using assms(1)
    by (cases a; cases "rest a"; cases "frame a") (simp add: saved_context_def swap_context_def ctx_ok_def)
  then show ?thesis
    using assms(2) swap_context_saves[of fpu c a] swap_context_loads[OF assms(1), of fpu a]
      swap_context_fpu[of fpu c a] swap_context_kept[of fpu c a]
    by simp
qed

text \<open>A user program at 0x400000 that is resumed while the kernel runs at ring 0.\<close>

definition ex_context :: ProcessContext where
  "ex_context = ProcessContext_default\<lparr>c_rip := 0x400000, c_cs := 0x1B, c_ss := 0x23, c_rflags := 0x200\<rparr>"

definition ex_kernel_state :: InterruptAllSavedState where
  "ex_kernel_state =
     \<lparr>rest = \<lparr>r_ds = 0, r_es = 0, r_fs = 0, r_gs = 0, r_dr0 = 0, r_dr1 = 0, r_dr2 = 0, r_dr3 = 0,
          r_dr6 = 0, r_dr7 = 0, r_rax = 0, r_rbx = 0, r_rcx = 0, r_rdx = 0, r_rsi = 0, r_rdi = 0,
          r_rbp = 0, r_r8 = 0, r_r9 = 0, r_r10 = 0, r_r11 = 0, r_r12 = 0, r_r13 = 0, r_r14 = 0,
          r_r15 = 0\<rparr>,
      int_number = 0xFF, int_error = 0,
      frame = \<lparr>f_rip = 0xFFFFFFFF80100000, f_cs = 8, f_rflags = 0x200, f_rsp = 0xFFFFFFFF80200000, f_ss = 16\<rparr>\<rparr>"

theorem swap_context_exchanges_witness:
  "\<exists>fpu c a. swap_context [] ex_context ex_kernel_state = (fpu, c, a)
     \<and> f_rip (frame a) = 0x400000 \<and> f_cs (frame a) = 0x1B \<and> saved_context fpu a = ex_context
     \<and> swap_context fpu c a = ([], ex_context, ex_kernel_state)"
proof -
  obtain fpu c a where s: "swap_context [] ex_context ex_kernel_state = (fpu, c, a)"
    by (cases "swap_context [] ex_context ex_kernel_state")
  have "ctx_ok ex_context" by (simp add: ctx_ok_def ex_context_def ProcessContext_default_def)
  from swap_context_exchanges[OF this s] s show ?thesis
    by (auto simp: swap_context_def ex_context_def)
qed

end
