(* ===== verification/Process.thy ===== *)
theory Process
  imports BTree_Map Context_Switch Link_File Page_Tables Spin_Locks
begin

text \<open>
  Model of kernel/src/process/mod.rs: the record of a process, its table of open files, the exits
  of its children, its heap, the layout of the initial stack and the release of its memory.  The
  type of an open file and of the working directory are left open: the operations below only move
  them around.  \<open>allocate_process\<close> loads an executable and is not modelled; \<open>prepare_stack\<close>, which
  it calls, is.
\<close>

section \<open>Identifiers\<close>

text \<open>\<open>GoingUpAllocator\<close>: an atomic counter, whose \<open>fetch_add\<close> wraps.\<close>

definition going_up_new :: nat where
  "going_up_new = 0"

definition going_up_allocate :: "nat \<Rightarrow> nat \<times> nat" where
  "going_up_allocate next_id = (next_id, (next_id + 1) mod usize_bound)"

section \<open>The process\<close>

type_synonym i32 = "32 word"
type_synonym pid = nat

record ('f, 'd) Process =
  p_vm :: VirtualMemoryMapper
  p_context :: ProcessContext
  p_id :: pid
  p_parent_id :: pid
  open_filesystem_nodes :: "'f btmap"
  file_index_allocator :: nat
  p_argv :: "u8 list list"
  p_file_path :: "u8 list"
  p_current_dir :: 'd
  stack_ptr_end :: usize
  stack_size :: usize
  p_heap_start :: usize
  p_heap_size :: usize
  p_heap_max :: usize
  p_priority :: PriorityLevel
  p_exit_code :: i32
  children_exits :: "i32 btmap"

definition DEFAULT_MAX_HEAP_SIZE :: usize where
  "DEFAULT_MAX_HEAP_SIZE = 1024 * 1024 * 1024"

section \<open>Open files\<close>

definition finish_stdio :: "('f, 'd) Process \<Rightarrow> ('f, 'd) Process exec" where
  "finish_stdio p =
     assert_exec (length (open_filesystem_nodes p) \<ge> 3)
       (Ret (if file_index_allocator p < 3 then p\<lparr>file_index_allocator := 3\<rparr> else p))"

definition push_fs_node :: "'f \<Rightarrow> ('f, 'd) Process \<Rightarrow> (usize \<times> ('f, 'd) Process) exec" where
  "push_fs_node file p =
     (let (fd, next_id) = going_up_allocate (file_index_allocator p) in
      if bt_contains fd (open_filesystem_nodes p) then Panic (Explicit ''fd already exists'')
      else Ret (fd, p\<lparr>file_index_allocator := next_id,
                      open_filesystem_nodes := bt_insert fd file (open_filesystem_nodes p)\<rparr>))"

definition attach_fs_node_to_fd :: "usize \<Rightarrow> 'f \<Rightarrow> ('f, 'd) Process \<Rightarrow> (bool \<times> ('f, 'd) Process) exec" where
  "attach_fs_node_to_fd fd file p =
     (if bt_contains fd (open_filesystem_nodes p) then Ret (False, p)
      else bind_exec (usize_add fd 1) (\<lambda>next_id.
        Ret (True, p\<lparr>file_index_allocator := next_id,
                     open_filesystem_nodes := bt_insert fd file (open_filesystem_nodes p)\<rparr>)))"

definition get_fs_node :: "usize \<Rightarrow> ('f, 'd) Process \<Rightarrow> 'f option" where
  "get_fs_node fd p = bt_get (open_filesystem_nodes p) fd"

definition take_fs_node :: "usize \<Rightarrow> ('f, 'd) Process \<Rightarrow> 'f option \<times> ('f, 'd) Process" where
  "take_fs_node fd p =
     (bt_get (open_filesystem_nodes p) fd,
      p\<lparr>open_filesystem_nodes := bt_remove fd (open_filesystem_nodes p)\<rparr>)"

definition put_fs_node :: "usize \<Rightarrow> 'f \<Rightarrow> ('f, 'd) Process \<Rightarrow> ('f, 'd) Process exec" where
  "put_fs_node fd file p =
     (if bt_contains fd (open_filesystem_nodes p) then Panic (Explicit ''fd already exists'')
      else Ret (p\<lparr>open_filesystem_nodes := bt_insert fd file (open_filesystem_nodes p)\<rparr>))"

section \<open>Exit\<close>

text \<open>
  The owner of the screen (kernel/src/graphics/vga.rs): \<open>None\<close> when there is no controller, else
  the process that owns it, \<open>-1\<close> when nobody does.
\<close>

type_synonym vga = "int option"

definition I64_MAX :: nat where
  "I64_MAX = 2 ^ 63 - 1"

definition vga_take_ownership :: "pid \<Rightarrow> int \<Rightarrow> (bool \<times> int) exec" where
  "vga_take_ownership pid owner =
     assert_exec (pid < I64_MAX) (Ret (if owner = - 1 then (True, int pid) else (False, owner)))"

definition vga_release :: "pid \<Rightarrow> int \<Rightarrow> (bool \<times> int) exec" where
  "vga_release pid owner =
     assert_exec (pid < I64_MAX) (Ret (if owner = int pid then (True, - 1) else (False, owner)))"

definition process_exit :: "i32 \<Rightarrow> vga \<Rightarrow> ('f, 'd) Process \<Rightarrow> (vga \<times> ('f, 'd) Process) exec" where
  "process_exit exit_code vga p =
     (let p1 = p\<lparr>p_exit_code := exit_code\<rparr> in
      case vga of
        None \<Rightarrow> Ret (None, p1)
      | Some owner \<Rightarrow> bind_exec (vga_release (p_id p) owner) (\<lambda>(_, owner'). Ret (Some owner', p1)))"

definition add_child_exit :: "pid \<Rightarrow> i32 \<Rightarrow> ('f, 'd) Process \<Rightarrow> ('f, 'd) Process exec" where
  "add_child_exit pid exit_code p =
     (if bt_contains pid (children_exits p) then Panic (Explicit ''child pid already exists'')
      else Ret (p\<lparr>children_exits := bt_insert pid exit_code (children_exits p)\<rparr>))"

definition get_child_exit :: "pid \<Rightarrow> ('f, 'd) Process \<Rightarrow> i32 option \<times> ('f, 'd) Process" where
  "get_child_exit pid p =
     (bt_get (children_exits p) pid, p\<lparr>children_exits := bt_remove pid (children_exits p)\<rparr>)"

section \<open>The heap\<close>

text \<open>\<open>isize\<close> is an integer between \<open>- 2^63\<close> and \<open>2^63 - 1\<close>; a cast from \<open>usize\<close> wraps.\<close>

definition usize_as_isize :: "usize \<Rightarrow> int" where
  "usize_as_isize n = (if n < 2 ^ 63 then int n else int n - 2 ^ 64)"

definition isize_add :: "int \<Rightarrow> int \<Rightarrow> int exec" where
  "isize_add a b = (if - (2 ^ 63) \<le> a + b \<and> a + b < 2 ^ 63 then Ret (a + b) else Panic Overflow)"

definition heap_entry :: "usize \<Rightarrow> usize \<Rightarrow> VirtualMemoryMapEntry" where
  "heap_entry start sz =
     \<lparr>virtual_address = start, physical_address = None, me_size = sz, me_flags = PTE_USER OR PTE_WRITABLE\<rparr>"

definition add_to_heap ::
  "int \<Rightarrow> ('f, 'd) Process \<Rightarrow> PhysicalPageAllocator
     \<Rightarrow> (usize option \<times> ('f, 'd) Process \<times> PhysicalPageAllocator) exec" where
  "add_to_heap increment p st =
     (if increment = 0
      then bind_exec (usize_add (p_heap_start p) (p_heap_size p)) (\<lambda>e. Ret (Some e, p, st))
      else bind_exec (is_aligned (nat \<bar>increment\<bar>) PAGE_4K) (\<lambda>al.
        assert_exec al
       (bind_exec (isize_add (usize_as_isize (p_heap_size p)) increment) (\<lambda>new_size.
        if new_size < 0 \<or> p_heap_max p < nat new_size then Ret (None, p, st)
        else bind_exec (usize_add (p_heap_start p) (p_heap_size p)) (\<lambda>old_end.
          let p1 = p\<lparr>p_heap_size := nat new_size\<rparr> in
          if increment > 0
          then bind_exec (vm_map (p_vm p) (heap_entry old_end (nat increment)) st) (\<lambda>st1.
               Ret (Some old_end, p1, st1))
          else bind_exec (usize_sub old_end (nat \<bar>increment\<bar>)) (\<lambda>new_end.
               bind_exec (vm_unmap (p_vm p) (heap_entry new_end (nat \<bar>increment\<bar>)) True st) (\<lambda>st1.
               Ret (Some old_end, p1, st1))))))))"

section \<open>The initial stack\<close>

text \<open>
  The memory of the new process, whose page table is loaded while the stack is written: a byte for
  every address.  \<open>u64\<close> values are stored with the least significant byte first.
\<close>

type_synonym memory = "usize \<Rightarrow> u8"

definition store_bytes :: "usize \<Rightarrow> u8 list \<Rightarrow> memory \<Rightarrow> memory" where
  "store_bytes a bs m = (\<lambda>x. if a \<le> x \<and> x < a + length bs then bs ! (x - a) else m x)"

definition le_bytes :: "nat \<Rightarrow> u8 list" where
  "le_bytes v = map (\<lambda>i. of_nat (v div 256 ^ i)) [0..<8]"

fun store_words :: "usize \<Rightarrow> nat list \<Rightarrow> memory \<Rightarrow> memory" where
  "store_words a [] m = m"
| "store_words a (v # vs) m = store_words (a + 8) vs (store_bytes a (le_bytes v) m)"

fun push_args :: "u8 list list \<Rightarrow> usize \<Rightarrow> usize \<Rightarrow> memory \<Rightarrow> (usize list \<times> usize \<times> memory) exec" where
  "push_args [] stack_top rsp m = Ret ([], rsp, m)"
| "push_args (arg # args) stack_top rsp m =
     bind_exec (usize_sub rsp (length arg)) (\<lambda>a.
     bind_exec (usize_sub a 1) (\<lambda>arg_ptr.
     let rsp1 = arg_ptr - arg_ptr mod 8 in
     assert_exec (stack_top \<le> rsp1)
    (bind_exec (push_args args stack_top rsp1 (store_bytes arg_ptr (arg @ [0]) m)) (\<lambda>(ptrs, rsp2, m2).
     Ret (arg_ptr # ptrs, rsp2, m2)))))"

definition write_stack :: "u8 list list \<Rightarrow> usize \<Rightarrow> usize \<Rightarrow> memory \<Rightarrow> ((usize \<times> usize) \<times> memory) exec" where
  "write_stack argv rsp stack_top m =
     bind_exec (push_args argv stack_top rsp m) (\<lambda>(ptrs, rsp1, m1).
     let rsp2 = rsp1 - rsp1 mod 8 in
     assert_exec (stack_top \<le> rsp2)
    (bind_exec (usize_sub rsp2 1) (\<lambda>null_ptr.
     let m2 = store_bytes null_ptr [0] m1; rsp3 = null_ptr - null_ptr mod 8; argv_ptrs = ptrs @ [null_ptr] in
     assert_exec (stack_top \<le> rsp3)
    (bind_exec (usize_sub rsp3 (length argv_ptrs * 8)) (\<lambda>argv_array_ptr.
     let m3 = store_words argv_array_ptr argv_ptrs m2 in
     bind_exec (usize_sub argv_array_ptr 8) (\<lambda>rsp4.
     assert_exec (stack_top \<le> rsp4)
    (let m4 = store_words rsp4 [argv_array_ptr] m3 in
     bind_exec (usize_sub rsp4 8) (\<lambda>rsp5.
     assert_exec (stack_top \<le> rsp5)
    (Ret ((rsp5, argv_array_ptr), store_words rsp5 [length argv] m4))))))))))"

definition prepare_stack ::
  "u8 list list \<Rightarrow> usize \<Rightarrow> usize \<Rightarrow> memory \<Rightarrow> 'a cpu_scheme
     \<Rightarrow> ((usize \<times> usize \<times> usize) \<times> memory \<times> 'a cpu_scheme) exec" where
  "prepare_stack argv rsp stack_top m c =
     bind_exec (push_cli c) (\<lambda>c1.
     bind_exec (write_stack argv rsp stack_top m) (\<lambda>((rsp1, argv_array_ptr), m1).
     bind_exec (pop_cli c1) (\<lambda>c2.
     bind_exec (align_down rsp1 16) (\<lambda>rsp2.
     bind_exec (usize_sub rsp2 8) (\<lambda>rsp3.
     Ret ((rsp3, length argv, argv_array_ptr), m1, c2))))))"

section \<open>Release\<close>

text \<open>\<open>Drop for Process\<close>: the address space must not be the loaded one.\<close>

definition process_drop :: "u64 \<Rightarrow> ('f, 'd) Process \<Rightarrow> PhysicalPageAllocator \<Rightarrow> PhysicalPageAllocator exec" where
  "process_drop cr3 p st =
     assert_exec (\<not> is_used_by_me (p_vm p) cr3) (unmap_process_memory (p_vm p) st)"

end
