(* ===== verification/Clock.thy ===== *)
theory Clock
  imports Prelude
begin

unbundle bit_operations_syntax

text \<open>
  Model of kernel/src/devices/clock: \<open>ClockTime\<close> and the system time of mod.rs, and the real time
  clock of rtc.rs.  The readings of a clock device and the registers of the real time clock are
  arguments: they come from hardware.  The calibration of the processor's cycle counter and the
  timer devices are not modelled.
\<close>

section \<open>Points in time\<close>

definition NANOS_PER_SEC :: nat where
  "NANOS_PER_SEC = 1000000000"

datatype ClockTime = ClockTime (nanoseconds: nat) (seconds: nat)

text \<open>\<open>Ord for ClockTime\<close>: seconds first, then nanoseconds.\<close>

definition ClockTime_le :: "ClockTime \<Rightarrow> ClockTime \<Rightarrow> bool" where
  "ClockTime_le a b \<longleftrightarrow> seconds a < seconds b \<or> seconds a = seconds b \<and> nanoseconds a \<le> nanoseconds b"

instantiation ClockTime :: linorder
begin

definition less_eq_ClockTime :: "ClockTime \<Rightarrow> ClockTime \<Rightarrow> bool" where
  "less_eq_ClockTime a b \<longleftrightarrow> ClockTime_le a b"

definition less_ClockTime :: "ClockTime \<Rightarrow> ClockTime \<Rightarrow> bool" where
  "less_ClockTime a b \<longleftrightarrow> ClockTime_le a b \<and> a \<noteq> b"

instance
proof
  fix a b c :: ClockTime
  show "a < b \<longleftrightarrow> a \<le> b \<and> \<not> b \<le> a"
    by (cases a; cases b) (auto simp: less_eq_ClockTime_def less_ClockTime_def ClockTime_le_def)
  show "a \<le> b \<Longrightarrow> b \<le> a \<Longrightarrow> a = b"
    by (cases a; cases b) (auto simp: less_eq_ClockTime_def ClockTime_le_def)
qed (auto simp: less_eq_ClockTime_def ClockTime_le_def)

end

definition as_nanos :: "ClockTime \<Rightarrow> nat exec" where
  "as_nanos t = bind_exec (usize_mul (seconds t) NANOS_PER_SEC) (\<lambda>s. usize_add s (nanoseconds t))"

definition clock_sub :: "ClockTime \<Rightarrow> ClockTime \<Rightarrow> ClockTime exec" where
  "clock_sub a b =
     bind_exec (if nanoseconds a < nanoseconds b
                then bind_exec (usize_add (nanoseconds a) 1000000000) (\<lambda>n. usize_sub n (nanoseconds b))
                else usize_sub (nanoseconds a) (nanoseconds b)) (\<lambda>n.
     bind_exec (usize_sub (seconds a) (seconds b)) (\<lambda>s.
     bind_exec (usize_sub s (if nanoseconds a < nanoseconds b then 1 else 0)) (\<lambda>s'.
     Ret (ClockTime n s'))))"

definition clock_add :: "ClockTime \<Rightarrow> ClockTime \<Rightarrow> ClockTime exec" where
  "clock_add a b =
     bind_exec (usize_add (nanoseconds a) (nanoseconds b)) (\<lambda>n.
     bind_exec (usize_add (seconds a) (seconds b)) (\<lambda>s.
     bind_exec (usize_add s (n div 1000000000)) (\<lambda>s'.
     Ret (ClockTime (n mod 1000000000) s'))))"

section \<open>System time\<close>

text \<open>A device is known by a number; \<open>Arc::ptr_eq\<close> compares it.\<close>

record SystemTime =
  start_unix :: ClockTime
  last_tick :: ClockTime
  startup_offset :: ClockTime
  device :: "nat option"

definition SystemTime_new :: "nat \<Rightarrow> SystemTime" where
  "SystemTime_new timestamp =
     \<lparr>start_unix = ClockTime 0 timestamp, last_tick = ClockTime 0 0, startup_offset = ClockTime 0 0,
      device = None\<rparr>"

definition tick :: "ClockTime \<Rightarrow> SystemTime \<Rightarrow> SystemTime exec" where
  "tick time st =
     (case device st of
        None \<Rightarrow> Ret st
      | Some _ \<Rightarrow>
          bind_exec (clock_sub time (last_tick st)) (\<lambda>diff.
          bind_exec (clock_add (startup_offset st) diff) (\<lambda>off.
          Ret (st\<lparr>startup_offset := off, last_tick := time\<rparr>))))"

text \<open>
  \<open>update_device\<close>: \<open>time\<close> and \<open>new_time\<close> are the readings of the old and the new device, \<open>timestamp\<close>
  the one of the real time clock when its next second has started.
\<close>

definition update_device :: "nat \<Rightarrow> ClockTime \<Rightarrow> ClockTime \<Rightarrow> nat \<Rightarrow> SystemTime \<Rightarrow> SystemTime exec" where
  "update_device dev time new_time timestamp st =
     (case device st of
        Some current \<Rightarrow>
          if dev = current then Ret st
          else bind_exec (clock_sub time (last_tick st)) (\<lambda>diff.
               bind_exec (clock_add (startup_offset st) diff) (\<lambda>off.
               Ret (st\<lparr>startup_offset := off, device := Some dev, last_tick := new_time\<rparr>)))
      | None \<Rightarrow>
          Ret (st\<lparr>last_tick := new_time, device := Some dev, startup_offset := ClockTime 0 0,
                  start_unix := ClockTime 0 timestamp\<rparr>))"

definition time_since_startup :: "ClockTime \<Rightarrow> SystemTime \<Rightarrow> (ClockTime \<times> SystemTime) exec" where
  "time_since_startup time st = bind_exec (tick time st) (\<lambda>st1. Ret (startup_offset st1, st1))"

definition time_since_unix_epoch :: "ClockTime \<Rightarrow> SystemTime \<Rightarrow> (ClockTime \<times> SystemTime) exec" where
  "time_since_unix_epoch time st =
     bind_exec (tick time st) (\<lambda>st1.
     bind_exec (clock_add (start_unix st1) (startup_offset st1)) (\<lambda>t. Ret (t, st1)))"

section \<open>The real time clock\<close>

record RtcTime =
  rtc_seconds :: nat
  rtc_minutes :: nat
  rtc_hours :: nat
  rtc_day_of_month :: nat
  rtc_month :: nat
  rtc_year :: nat

definition RtcTime_default :: RtcTime where
  "RtcTime_default = \<lparr>rtc_seconds = 0, rtc_minutes = 0, rtc_hours = 0, rtc_day_of_month = 0, rtc_month = 0,
     rtc_year = 0\<rparr>"

definition SECONDS_PER_MINUTE :: nat where "SECONDS_PER_MINUTE = 60"
definition SECONDS_PER_HOUR :: nat where "SECONDS_PER_HOUR = 60 * SECONDS_PER_MINUTE"
definition SECONDS_PER_DAY :: nat where "SECONDS_PER_DAY = 24 * SECONDS_PER_HOUR"
definition UNIX_EPOCH_IN_SECONDS :: nat where "UNIX_EPOCH_IN_SECONDS = 62135596800"
definition CURRENT_CENTURY :: nat where "CURRENT_CENTURY = 2000 div 100"

definition DAYS_PER_MONTH_ARRAY :: "nat list" where
  "DAYS_PER_MONTH_ARRAY = [0, 31, 59, 90, 120, 151, 181, 212, 243, 273, 304, 334]"

definition seconds_since_unix_epoch :: "RtcTime \<Rightarrow> nat option exec" where
  "seconds_since_unix_epoch t =
     (if rtc_year t < 1970 then Ret None
      else
        let is_year_leap = (rtc_month t > 2 \<and> rtc_year t mod 4 = 0
                            \<and> (rtc_year t mod 100 \<noteq> 0 \<or> rtc_year t mod 400 = 0));
            last_year = rtc_year t - 1;
            days_in_last_years = last_year * 365 + last_year div 4 - last_year div 100 + last_year div 400 in
        bind_exec (usize_sub (rtc_month t) 1) (\<lambda>m.
        if m \<ge> length DAYS_PER_MONTH_ARRAY then Panic OutOfBounds
        else bind_exec (usize_sub (DAYS_PER_MONTH_ARRAY ! m + rtc_day_of_month t)
                          (if is_year_leap then 0 else 1)) (\<lambda>this_year_days.
        let timestamp = (days_in_last_years + this_year_days) * SECONDS_PER_DAY
                        + rtc_hours t * SECONDS_PER_HOUR + rtc_minutes t * SECONDS_PER_MINUTE + rtc_seconds t in
        bind_exec (usize_sub timestamp UNIX_EPOCH_IN_SECONDS) (\<lambda>r. Ret (Some r)))))"

text \<open>
  \<open>get_time_sync\<close> reads the registers until two readings in a row agree; \<open>samples\<close> are the readings,
  \<open>None\<close> is the case that no two of them do.
\<close>

fun get_time_sync :: "RtcTime \<Rightarrow> nat \<Rightarrow> bool \<Rightarrow> (RtcTime \<times> nat) list \<Rightarrow> (RtcTime \<times> nat) option" where
  "get_time_sync t century has_century [] = None"
| "get_time_sync t century has_century ((t_new, c) # samples) =
     (let century_new = (if has_century then c else century) in
      if t_new = t \<and> century_new = century then Some (t, century)
      else get_time_sync t_new century_new has_century samples)"

definition bcd :: "nat \<Rightarrow> nat" where
  "bcd v = (v AND 0x0F) + (v div 16) * 10"

text \<open>\<open>get_time\<close>, from the raw registers on: \<open>is_bcd\<close> and the presence of a century register.\<close>

definition decode_bcd :: "bool \<Rightarrow> RtcTime \<times> nat \<Rightarrow> RtcTime \<times> nat" where
  "decode_bcd has_century = (\<lambda>(t, century).
     (\<lparr>rtc_seconds = bcd (rtc_seconds t), rtc_minutes = bcd (rtc_minutes t),
       rtc_hours = ((rtc_hours t AND 0x0F) + ((rtc_hours t AND 0x70) div 16) * 10) OR (rtc_hours t AND 0x80),
       rtc_day_of_month = bcd (rtc_day_of_month t), rtc_month = bcd (rtc_month t), rtc_year = bcd (rtc_year t)\<rparr>,
      if has_century then bcd century else century))"

definition rtc_get_time :: "bool \<Rightarrow> bool \<Rightarrow> RtcTime \<times> nat \<Rightarrow> RtcTime" where
  "rtc_get_time is_bcd has_century raw =
     (let (t, century) = (if is_bcd then decode_bcd has_century raw else raw);
          t1 = (if rtc_hours t AND 0x80 \<noteq> 0
                then t\<lparr>rtc_hours := ((rtc_hours t AND 0x7F) + 12) mod 24\<rparr> else t);
          cen = (if has_century then century else CURRENT_CENTURY) in
      t1\<lparr>rtc_year := rtc_year t1 + cen * 100\<rparr>)"

section \<open>Arithmetic on points in time\<close>

definition nanos :: "ClockTime \<Rightarrow> nat" where
  "nanos t = seconds t * NANOS_PER_SEC + nanoseconds t"

definition clock_ok :: "ClockTime \<Rightarrow> bool" where
  "clock_ok t \<longleftrightarrow> nanoseconds t < NANOS_PER_SEC"

lemma nanos_le: "clock_ok a \<Longrightarrow> clock_ok b \<Longrightarrow> a \<le> b \<longleftrightarrow> nanos a \<le> nanos b"
  by (auto simp: clock_ok_def nanos_def less_eq_ClockTime_def ClockTime_le_def NANOS_PER_SEC_def)

lemma clock_add_nanos:
  assumes "clock_ok a" "clock_ok b" "seconds a + seconds b + 1 < usize_bound"
  shows "\<exists>t. clock_add a b = Ret t \<and> clock_ok t \<and> nanos t = nanos a + nanos b"
proof -
  have n: "(nanoseconds a + nanoseconds b) div 1000000000 \<le> 1" "nanoseconds a + nanoseconds b < usize_bound"
    using assms(1,2) by (auto simp: clock_ok_def NANOS_PER_SEC_def usize_bound_def)
  have "(nanoseconds a + nanoseconds b) div 1000000000 * 1000000000 + (nanoseconds a + nanoseconds b) mod 1000000000
      = nanoseconds a + nanoseconds b" by simp
  then show ?thesis
    using n assms(3) by (auto simp: clock_add_def usize_add_def clock_ok_def nanos_def NANOS_PER_SEC_def algebra_simps)
qed

lemma clock_sub_nanos:
  assumes "clock_ok a" "clock_ok b" "b \<le> a"
  shows "\<exists>t. clock_sub a b = Ret t \<and> clock_ok t \<and> nanos t = nanos a - nanos b"
  using assms
  by (auto simp: clock_sub_def usize_add_def usize_sub_def clock_ok_def nanos_def NANOS_PER_SEC_def
      less_eq_ClockTime_def ClockTime_le_def usize_bound_def diff_mult_distrib)

lemma tick_exact:
  assumes "device st = Some d" "clock_ok (last_tick st)" "clock_ok (startup_offset st)" "clock_ok x"
    and "last_tick st \<le> x" "nanos (startup_offset st) + n0 = nanos (last_tick st)" "seconds x + 1 < usize_bound"
  shows "\<exists>st'. tick x st = Ret st' \<and> device st' = Some d \<and> last_tick st' = x
    \<and> clock_ok (startup_offset st') \<and> nanos (startup_offset st') + n0 = nanos x"
proof -
  obtain diff where d: "clock_sub x (last_tick st) = Ret diff" "clock_ok diff" "nanos diff = nanos x - nanos (last_tick st)"
    using clock_sub_nanos[OF assms(4,2,5)] by blast
  have le: "nanos (last_tick st) \<le> nanos x" using nanos_le[OF assms(2,4)] assms(5) by simp
  have "(seconds (startup_offset st) + seconds diff) * NANOS_PER_SEC \<le> nanos (startup_offset st) + nanos diff"
    by (simp add: nanos_def algebra_simps)
  also have "\<dots> \<le> nanos x" using d(3) le assms(6) by simp
  also have "\<dots> < Suc (seconds x) * NANOS_PER_SEC" using assms(4) by (simp add: nanos_def clock_ok_def)
  finally have "seconds (startup_offset st) + seconds diff < Suc (seconds x)"
    by (simp only: mult_less_cancel2)
  then have "seconds (startup_offset st) + seconds diff + 1 < usize_bound" using assms(7) by simp
  from clock_add_nanos[OF assms(3) d(2) this] obtain off where
    "clock_add (startup_offset st) diff = Ret off" "clock_ok off" "nanos off = nanos (startup_offset st) + nanos diff"
    by blast
  then show ?thesis using assms(1,6) d(1,3) le by (simp add: tick_def)
qed



section \<open>The calendar\<close>

definition leap_year :: "nat \<Rightarrow> bool" where
  "leap_year y \<longleftrightarrow> 4 dvd y \<and> (\<not> 100 dvd y \<or> 400 dvd y)"

definition month_lengths :: "nat \<Rightarrow> nat list" where
  "month_lengths y = [31, if leap_year y then 29 else 28, 31, 30, 31, 30, 31, 31, 30, 31, 30, 31]"

definition year_length :: "nat \<Rightarrow> nat" where
  "year_length y = sum_list (month_lengths y)"

text \<open>The number of days from the first of January 1970, counted year by year and month by month.\<close>

definition days_since_epoch :: "nat \<Rightarrow> nat \<Rightarrow> nat \<Rightarrow> nat" where
  "days_since_epoch y m d =
     (\<Sum>k = 1970..<y. year_length k) + sum_list (take (m - 1) (month_lengths y)) + (d - 1)"

lemma year_length_eq: "year_length y = (if leap_year y then 366 else 365)"
  by (simp add: year_length_def month_lengths_def)

lemma div_Suc_dvd: "Suc m div k = m div k + (if k dvd Suc m then 1 else 0)"
  by (cases "k dvd Suc m") (simp_all add: div_Suc mod_eq_0_iff_dvd)

lemma days_in_last_years:
  "1970 \<le> y \<Longrightarrow> (y - 1) * 365 + (y - 1) div 4 - (y - 1) div 100 + (y - 1) div 400
     = 719162 + (\<Sum>k = 1970..<y. year_length k)"
proof (induction y rule: dec_induct)
  case (step n)
  obtain m where n: "n = Suc m" using step by (cases n) auto
  have le: "m div 100 \<le> m div 4" by (rule div_le_mono2) auto
  have d: "100 dvd Suc m \<Longrightarrow> 4 dvd Suc m" "400 dvd Suc m \<Longrightarrow> 100 dvd Suc m"
    using dvd_trans[of 4 100 "Suc m"] dvd_trans[of 100 400 "Suc m"] by simp_all
  have "(n - 1) * 365 + (n - 1) div 4 - (n - 1) div 100 + (n - 1) div 400 + year_length n
      = n * 365 + n div 4 - n div 100 + n div 400"
    using le d unfolding n div_Suc_dvd[of m 4] div_Suc_dvd[of m 100] div_Suc_dvd[of m 400]
    by (simp add: year_length_eq leap_year_def ac_simps)
  moreover have "(\<Sum>k = 1970..<Suc n. year_length k) = (\<Sum>k = 1970..<n. year_length k) + year_length n"
    using step.hyps by (simp only: sum.atLeastLessThan_Suc)
  ultimately show ?case using step.IH by (simp only: diff_Suc_1)
qed simp

lemma days_this_year:
  assumes "1 \<le> m" "m \<le> 12" "1 \<le> d"
  shows "DAYS_PER_MONTH_ARRAY ! (m - 1) + d - (if 2 < m \<and> leap_year y then 0 else 1)
    = sum_list (take (m - 1) (month_lengths y)) + (d - 1)"
proof -
  have "m = 1 \<or> m = 2 \<or> m = 3 \<or> m = 4 \<or> m = 5 \<or> m = 6 \<or> m = 7 \<or> m = 8 \<or> m = 9 \<or> m = 10 \<or> m = 11 \<or> m = 12"
    using assms(1,2) by presburger
  then show ?thesis using assms(3)
    by (elim disjE) (simp_all add: DAYS_PER_MONTH_ARRAY_def month_lengths_def)
qed

text \<open>
  C36.  The closed formula for the seconds since 1970 agrees with counting the calendar day by day,
  for every date from 1970 on; earlier years give no result.
\<close>
theorem rtc_epoch_counts_days:
  assumes "1 \<le> rtc_month t" "rtc_month t \<le> 12" "1 \<le> rtc_day_of_month t"
  shows "seconds_since_unix_epoch t = Ret
    (if rtc_year t < 1970 then None
     else Some (days_since_epoch (rtc_year t) (rtc_month t) (rtc_day_of_month t) * 86400
            + rtc_hours t * 3600 + rtc_minutes t * 60 + rtc_seconds t))"
proof (cases "rtc_year t < 1970")
  case False
  let ?y = "rtc_year t"
  have leap: "(rtc_month t > 2 \<and> ?y mod 4 = 0 \<and> (?y mod 100 \<noteq> 0 \<or> ?y mod 400 = 0)) \<longleftrightarrow> 2 < rtc_month t \<and> leap_year ?y"
    by (auto simp: leap_year_def dvd_eq_mod_eq_0)
  let ?S = "\<Sum>k = 1970..<?y. year_length k"
  let ?T = "sum_list (take (rtc_month t - 1) (month_lengths ?y)) + (rtc_day_of_month t - 1)"
  have m: "usize_sub (rtc_month t) 1 = Ret (rtc_month t - 1)" "\<not> length DAYS_PER_MONTH_ARRAY \<le> rtc_month t - 1"
    using assms by (simp_all add: usize_sub_def DAYS_PER_MONTH_ARRAY_def)
  have u: "usize_sub (DAYS_PER_MONTH_ARRAY ! (rtc_month t - 1) + rtc_day_of_month t)
      (if 2 < rtc_month t \<and> leap_year ?y then 0 else 1) = Ret ?T"
    using days_this_year[OF assms, of ?y] assms(3) by (auto simp: usize_sub_def)
  have r: "usize_sub ((719162 + ?S + ?T) * 86400 + h * 3600 + mi * 60 + s) 62135596800
      = Ret ((?S + ?T) * 86400 + h * 3600 + mi * 60 + s)" for h mi s
    by (simp add: usize_sub_def algebra_simps)
  show ?thesis
    using False m(2)
    by (simp only: seconds_since_unix_epoch_def leap Let_def if_False m(1) u bind_exec.simps
        days_in_last_years[of ?y, unfolded not_less[symmetric], OF False] SECONDS_PER_DAY_def
        SECONDS_PER_HOUR_def SECONDS_PER_MINUTE_def UNIX_EPOCH_IN_SECONDS_def days_since_epoch_def)
      (simp add: r add.assoc)
qed (simp add: seconds_since_unix_epoch_def)

lemma epoch_years: "{1970..<1972} = {1970, 1971 :: nat}"
  by auto

theorem rtc_epoch_counts_days_witness:
  "seconds_since_unix_epoch \<lparr>rtc_seconds = 45, rtc_minutes = 3, rtc_hours = 12, rtc_day_of_month = 1, rtc_month = 3, rtc_year = 1972\<rparr>
     = Ret (Some (790 * 86400 + 43425))"
  using rtc_epoch_counts_days[of "\<lparr>rtc_seconds = 45, rtc_minutes = 3, rtc_hours = 12, rtc_day_of_month = 1, rtc_month = 3, rtc_year = 1972\<rparr>"]
  by (simp add: days_since_epoch_def month_lengths_def year_length_eq leap_year_def numeral_2_eq_2 epoch_years)

section \<open>Twelve hour clocks\<close>

text \<open>How a clock in twelve hour mode shows an hour of the day: 1 to 12, with bit 7 set after noon.\<close>

definition twelve_hour :: "nat \<Rightarrow> nat" where
  "twelve_hour h = (if h mod 12 = 0 then 12 else h mod 12) OR (if 12 \<le> h then 0x80 else 0)"

text \<open>
  A clock in twelve hour mode is read right except around noon and midnight: the twelfth hour
  is taken for hour 0 in the afternoon and stays 12 at night.
\<close>
theorem rtc_twelve_hours:
  assumes "h < 24" "rtc_hours t = twelve_hour h"
  shows "rtc_hours (rtc_get_time False c (t, cen)) = (if h = 0 then 12 else if h = 12 then 0 else h)"
proof -
  have "\<forall>h \<in> set [0..<24]. ((if twelve_hour h AND 0x80 \<noteq> 0 then ((twelve_hour h AND 0x7F) + 12) mod 24 else twelve_hour h)
      = (if h = 0 then 12 else if h = 12 then 0 else h))"
    by code_simp
  from bspec[OF this, of h] assms show ?thesis by (simp add: rtc_get_time_def Let_def split: if_splits)
qed

theorem rtc_twelve_hours_witness:
  "rtc_hours (rtc_get_time False False (RtcTime_default\<lparr>rtc_hours := 0x8C\<rparr>, 0)) = 0"
  using rtc_twelve_hours[of 12 "RtcTime_default\<lparr>rtc_hours := 0x8C\<rparr>" False 0] by (simp add: twelve_hour_def)

end
