(* ===== verification/Cmdline.thy ===== *)
theory Cmdline
  imports Prelude
begin

text \<open>
  Model of kernel/src/cmdline.rs, cmdline/tokenizer.rs, cmdline/parser.rs and of the parser the macro of
  cmdline/macros.rs generates for \<open>Cmd\<close>: the command line the boot loader passes to the kernel.  The
  text is ASCII, so that positions in bytes and in characters agree.
\<close>

section \<open>Characters\<close>

definition char_in :: "char \<Rightarrow> char \<Rightarrow> char \<Rightarrow> bool" where
  "char_in lo hi c \<longleftrightarrow> (of_char lo :: nat) \<le> of_char c \<and> (of_char c :: nat) \<le> of_char hi"

definition is_digit :: "char \<Rightarrow> bool" where
  "is_digit c = char_in CHR ''0'' CHR ''9'' c"

definition is_alphanumeric :: "char \<Rightarrow> bool" where
  "is_alphanumeric c \<longleftrightarrow> is_digit c \<or> char_in CHR ''a'' CHR ''z'' c \<or> char_in CHR ''A'' CHR ''Z'' c"

definition is_whitespace :: "char \<Rightarrow> bool" where
  "is_whitespace c \<longleftrightarrow> c = CHR '' '' \<or> char_in (CHR 0x09) (CHR 0x0D) c"

definition trim_start :: "string \<Rightarrow> string" where
  "trim_start s = dropWhile is_whitespace s"

definition trim_end :: "string \<Rightarrow> string" where
  "trim_end s = rev (dropWhile is_whitespace (rev s))"

section \<open>The tokenizer\<close>

record Tokenizer =
  running_str :: string
  tok_idx :: usize

definition Tokenizer_new :: "string \<Rightarrow> Tokenizer" where
  "Tokenizer_new inp = \<lparr>running_str = inp, tok_idx = 0\<rparr>"

definition next_token ::
  "(char \<Rightarrow> bool) \<Rightarrow> (char \<Rightarrow> bool) \<Rightarrow> (char \<Rightarrow> bool) \<Rightarrow> Tokenizer \<Rightarrow> ((usize \<times> string) option \<times> Tokenizer) exec" where
  "next_token find_pattern starts_with_pattern strip_pattern t =
     (let s = running_str t; i = length (takeWhile (\<lambda>c. \<not> find_pattern c) s) in
      if s = [] \<or> i = length s then Ret (None, t)
      else (let val = take i s; tail = drop i s in
        if val = [] then Ret (None, t)
        else (case tail of
            [] \<Rightarrow> Ret (None, t)
          | c # cs \<Rightarrow>
              if \<not> starts_with_pattern c then Ret (None, t)
              else (let running = dropWhile strip_pattern cs; val1 = trim_start val in
                bind_exec (usize_sub (length val1) (length val)) (\<lambda>leading_whitespace_size.
                Ret (Some (tok_idx t + leading_whitespace_size, trim_end val1),
                     \<lparr>running_str = running, tok_idx = tok_idx t + (i + (length tail - length running))\<rparr>))))))"

definition next_ident :: "Tokenizer \<Rightarrow> ((usize \<times> string) option \<times> Tokenizer) exec" where
  "next_ident = next_token (\<lambda>c. \<not> is_alphanumeric c \<and> c \<noteq> CHR '','' \<and> c \<noteq> CHR ''_'')
     (\<lambda>c. c = CHR ''='') is_whitespace"

definition next_value :: "Tokenizer \<Rightarrow> ((usize \<times> string) \<times> Tokenizer) exec" where
  "next_value t =
     bind_exec (next_token (\<lambda>c. is_whitespace c \<or> c = CHR '','' \<or> c = CHR ''='')
       (\<lambda>c. is_whitespace c \<or> c = CHR '','') (\<lambda>c. is_whitespace c \<or> c = CHR '','') t) (\<lambda>(r, t1).
     case r of
       Some tok \<Rightarrow> Ret (tok, t1)
     | None \<Rightarrow> Ret ((tok_idx t1, running_str t1),
         \<lparr>running_str = [], tok_idx = tok_idx t1 + length (running_str t1)\<rparr>))"

section \<open>The parsers of the values\<close>

datatype IntErrorKind = Empty | InvalidDigit | PosOverflow

datatype ParseErrorKind =
    Unexpected string "string option"
  | ParseIntError IntErrorKind
  | UnexpectedId string

record ParseError =
  pe_kind :: ParseErrorKind
  pe_loc :: usize

type_synonym 'a parse_result = "((ParseError + 'a) \<times> Tokenizer) exec"

definition parse_bool :: "Tokenizer \<Rightarrow> bool parse_result" where
  "parse_bool t =
     bind_exec (next_value t) (\<lambda>((loc, val), t1).
     Ret (if val = ''true'' then Inr True
          else if val = ''false'' then Inr False
          else Inl \<lparr>pe_kind = Unexpected ''true/false'' (Some val), pe_loc = loc\<rparr>, t1))"

text \<open>\<open>str::parse\<close> for \<open>u32\<close>: an optional plus sign and decimal digits.\<close>

fun u32_digits :: "nat \<Rightarrow> string \<Rightarrow> IntErrorKind + nat" where
  "u32_digits acc [] = Inr acc"
| "u32_digits acc (c # cs) =
     (if \<not> is_digit c then Inl InvalidDigit
      else (let v = acc * 10 + (of_char c - of_char CHR ''0'') in
        if v < 2 ^ 32 then u32_digits v cs else Inl PosOverflow))"

definition u32_from_str :: "string \<Rightarrow> IntErrorKind + nat" where
  "u32_from_str s =
     (case s of
        [] \<Rightarrow> Inl Empty
      | c # cs \<Rightarrow>
          if cs = [] \<and> (c = CHR ''+'' \<or> c = CHR ''-'') then Inl InvalidDigit
          else if c = CHR ''+'' then u32_digits 0 cs
          else u32_digits 0 s)"

definition parse_u32 :: "Tokenizer \<Rightarrow> nat parse_result" where
  "parse_u32 t =
     bind_exec (next_value t) (\<lambda>((loc, val), t1).
     Ret (case u32_from_str val of Inl e \<Rightarrow> Inl \<lparr>pe_kind = ParseIntError e, pe_loc = loc\<rparr> | Inr n \<Rightarrow> Inr n, t1))"

definition parse_str :: "Tokenizer \<Rightarrow> string parse_result" where
  "parse_str t = bind_exec (next_value t) (\<lambda>((_, val), t1). Ret (Inr val, t1))"

datatype LogLevel = Trace | Debug | Info | Warn | Error

definition parse_LogLevel :: "Tokenizer \<Rightarrow> LogLevel parse_result" where
  "parse_LogLevel t =
     bind_exec (next_value t) (\<lambda>((loc, val), t1).
     Ret (if val = ''trace'' then Inr Trace
          else if val = ''debug'' then Inr Debug
          else if val = ''info'' then Inr Info
          else if val = ''warn'' then Inr Warn
          else if val = ''error'' then Inr Error
          else Inl \<lparr>pe_kind = Unexpected ''trace/debug/info/warn/error'' (Some val), pe_loc = loc\<rparr>, t1))"

datatype LogAml = Off | NormalAml | Structured

definition parse_LogAml :: "Tokenizer \<Rightarrow> LogAml parse_result" where
  "parse_LogAml t =
     bind_exec (next_value t) (\<lambda>((loc, val), t1).
     Ret (if val = ''off'' then Inr Off
          else if val = ''normal'' then Inr NormalAml
          else if val = ''structured'' then Inr Structured
          else Inl \<lparr>pe_kind = Unexpected ''off/normal/structured'' (Some val), pe_loc = loc\<rparr>, t1))"

section \<open>The command line\<close>

record Cmd =
  uart :: bool
  uart_baud :: nat
  max_log_level :: LogLevel
  log_file :: string
  allow_hpet :: bool
  log_aml :: LogAml

definition default_cmdline :: Cmd where
  "default_cmdline = \<lparr>uart = True, uart_baud = 115200, max_log_level = Info, log_file = ''/kernel.log'',
     allow_hpet = True, log_aml = Off\<rparr>"

text \<open>The \<open>match\<close> on the name of a field, at position \<open>i\<close>.\<close>

definition set_field :: "usize \<Rightarrow> string \<Rightarrow> Tokenizer \<Rightarrow> Cmd \<Rightarrow> Cmd parse_result" where
  "set_field i ident t cmd =
     (if ident = ''uart''
      then bind_exec (parse_bool t) (\<lambda>(r, t1). Ret (map_sum id (\<lambda>v. cmd\<lparr>uart := v\<rparr>) r, t1))
      else if ident = ''uart_baud''
      then bind_exec (parse_u32 t) (\<lambda>(r, t1). Ret (map_sum id (\<lambda>v. cmd\<lparr>uart_baud := v\<rparr>) r, t1))
      else if ident = ''max_log_level''
      then bind_exec (parse_LogLevel t) (\<lambda>(r, t1). Ret (map_sum id (\<lambda>v. cmd\<lparr>max_log_level := v\<rparr>) r, t1))
      else if ident = ''log_file''
      then bind_exec (parse_str t) (\<lambda>(r, t1). Ret (map_sum id (\<lambda>v. cmd\<lparr>log_file := v\<rparr>) r, t1))
      else if ident = ''allow_hpet''
      then bind_exec (parse_bool t) (\<lambda>(r, t1). Ret (map_sum id (\<lambda>v. cmd\<lparr>allow_hpet := v\<rparr>) r, t1))
      else if ident = ''log_aml''
      then bind_exec (parse_LogAml t) (\<lambda>(r, t1). Ret (map_sum id (\<lambda>v. cmd\<lparr>log_aml := v\<rparr>) r, t1))
      else Ret (Inl \<lparr>pe_kind = UnexpectedId ident, pe_loc = i\<rparr>, t))"

lemma next_token_shorter:
  "next_token f s p t = Ret (Some x, t1) \<Longrightarrow> length (running_str t1) < length (running_str t)"
  "next_token f s p t = Ret (None, t1) \<Longrightarrow> t1 = t"
proof -
  assume "next_token f s p t = Ret (Some x, t1)"
  then obtain c cs where d: "drop (length (takeWhile (\<lambda>c. \<not> f c) (running_str t))) (running_str t) = c # cs"
    and r: "running_str t1 = dropWhile p cs"
    by (auto simp: next_token_def Let_def exec_simps split: if_splits list.splits)
  have "length (dropWhile p cs) \<le> length cs" by (rule length_dropWhile_le)
  also have "length cs < length (drop (length (takeWhile (\<lambda>c. \<not> f c) (running_str t))) (running_str t))" by (simp add: d)
  finally show "length (running_str t1) < length (running_str t)" by (simp add: r)
next
  assume "next_token f s p t = Ret (None, t1)"
  then show "t1 = t" by (auto simp: next_token_def Let_def exec_simps split: if_splits list.splits)
qed

lemma next_value_shorter: "next_value t = Ret (x, t1) \<Longrightarrow> length (running_str t1) \<le> length (running_str t)"
  by (auto simp: next_value_def exec_simps split: option.splits dest: next_token_shorter(1)[THEN less_imp_le] next_token_shorter(2))

lemma parse_shorter:
  "parse_bool t = Ret (r, t1) \<Longrightarrow> length (running_str t1) \<le> length (running_str t)"
  "parse_u32 t = Ret (r2, t1) \<Longrightarrow> length (running_str t1) \<le> length (running_str t)"
  "parse_str t = Ret (r3, t1) \<Longrightarrow> length (running_str t1) \<le> length (running_str t)"
  "parse_LogLevel t = Ret (r4, t1) \<Longrightarrow> length (running_str t1) \<le> length (running_str t)"
  "parse_LogAml t = Ret (r5, t1) \<Longrightarrow> length (running_str t1) \<le> length (running_str t)"
  unfolding parse_bool_def parse_u32_def parse_str_def parse_LogLevel_def parse_LogAml_def bind_exec_eq_Ret
  by (auto dest!: next_value_shorter)

lemma set_field_shorter: "set_field i ident t cmd = Ret (r, t1) \<Longrightarrow> length (running_str t1) \<le> length (running_str t)"
  unfolding set_field_def by (auto simp: bind_exec_eq_Ret dest!: parse_shorter split: if_split_asm)

function parse_loop :: "Tokenizer \<Rightarrow> Cmd \<Rightarrow> (ParseError + Cmd) exec" where
  "parse_loop t cmd =
     (case next_ident t of
        Panic r \<Rightarrow> Panic r
      | Ret (None, _) \<Rightarrow> Ret (Inr cmd)
      | Ret (Some (i, ident), t1) \<Rightarrow>
          (case set_field i ident t1 cmd of
             Panic r \<Rightarrow> Panic r
           | Ret (Inl e, _) \<Rightarrow> Ret (Inl e)
           | Ret (Inr cmd1, t2) \<Rightarrow> parse_loop t2 cmd1))"
  by pat_completeness auto
termination
  by (relation "measure (\<lambda>(t, _). length (running_str t))")
    (auto simp: next_ident_def dest!: next_token_shorter(1) set_field_shorter)

declare parse_loop.simps [simp del]

definition parse_cmdline :: "string \<Rightarrow> (ParseError + Cmd) exec" where
  "parse_cmdline inp = parse_loop (Tokenizer_new inp) default_cmdline"

text \<open>\<open>init\<close>, with the command line of the boot information: what \<open>CMDLINE\<close> is set to.\<close>

definition cmdline_init :: "string option \<Rightarrow> Cmd exec" where
  "cmdline_init text =
     (case text of
        None \<Rightarrow> Ret default_cmdline
      | Some inp \<Rightarrow> bind_exec (parse_cmdline inp) (\<lambda>r. Ret (case r of Inr cmd \<Rightarrow> cmd | Inl _ \<Rightarrow> default_cmdline)))"

section \<open>The tokens\<close>

lemma trim_no_whitespace:
  assumes "\<forall>x \<in> set v. \<not> is_whitespace x"
  shows "trim_start v = v" "trim_end v = v"
proof -
  have 1: "dropWhile is_whitespace w = w" if "\<forall>x \<in> set w. \<not> is_whitespace x" for w using that by (cases w) auto
  show "trim_start v = v" "trim_end v = v" using 1[of v] 1[of "rev v"] assms by (simp_all add: trim_start_def trim_end_def)
qed

lemma next_token_ok:
  assumes "running_str t = v @ c # cs" "v \<noteq> []" "\<forall>x \<in> set v. \<not> f x \<and> \<not> is_whitespace x" "f c" "st c"
  shows "next_token f st sp t = Ret (Some (tok_idx t, v), \<lparr>running_str = dropWhile sp cs,
     tok_idx = tok_idx t + (length v + (length (c # cs) - length (dropWhile sp cs)))\<rparr>)"
proof -
  have "takeWhile (\<lambda>c. \<not> f c) (v @ c # cs) = v" using assms(3,4) by simp
  moreover have "\<forall>x \<in> set v. \<not> is_whitespace x" using assms(3) by blast
  ultimately show ?thesis
    using assms(1,2,5) trim_no_whitespace by (simp add: next_token_def Let_def usize_sub_def)
qed

text \<open>A token has no whitespace in front, so that the subtraction of the lengths does not underflow.\<close>

lemma next_token_returns:
  assumes "\<And>c. is_whitespace c \<Longrightarrow> f c"
  shows "\<exists>r t1. next_token f st sp t = Ret (r, t1)"
proof -
  let ?v = "takeWhile (\<lambda>c. \<not> f c) (running_str t)"
  have v: "take (length ?v) (running_str t) = ?v" by (metis append_eq_conv_conj takeWhile_dropWhile_id)
  have "\<forall>x \<in> set ?v. \<not> is_whitespace x" using assms set_takeWhileD by metis
  then show ?thesis using trim_no_whitespace(1)[of ?v] by (auto simp: next_token_def Let_def usize_sub_def v split: list.splits)
qed

lemma whitespace_not_alphanumeric: "is_whitespace c \<Longrightarrow> \<not> is_alphanumeric c \<and> c \<noteq> CHR '','' \<and> c \<noteq> CHR ''_''"
  by (auto simp: is_whitespace_def is_alphanumeric_def is_digit_def char_in_def)

lemma next_ident_returns: "\<exists>r t1. next_ident t = Ret (r, t1)"
  unfolding next_ident_def by (rule next_token_returns) (use whitespace_not_alphanumeric in blast)

lemma next_value_returns: "\<exists>x t1. next_value t = Ret (x, t1)"
proof -
  obtain r t1 where "next_token (\<lambda>c. is_whitespace c \<or> c = CHR '','' \<or> c = CHR ''='')
       (\<lambda>c. is_whitespace c \<or> c = CHR '','') (\<lambda>c. is_whitespace c \<or> c = CHR '','') t = Ret (r, t1)"
    using next_token_returns[of "\<lambda>c. is_whitespace c \<or> c = CHR '','' \<or> c = CHR ''=''"] by fast
  then show ?thesis by (cases r) (auto simp: next_value_def)
qed

lemma set_field_returns: "\<exists>r t1. set_field i ident t cmd = Ret (r, t1)"
proof -
  obtain loc val t1 where "next_value t = Ret ((loc, val), t1)" using next_value_returns[of t] by auto
  then have "\<exists>r. parse_bool t = Ret (r, t1)" "\<exists>r. parse_u32 t = Ret (r, t1)" "\<exists>r. parse_str t = Ret (r, t1)"
    "\<exists>r. parse_LogLevel t = Ret (r, t1)" "\<exists>r. parse_LogAml t = Ret (r, t1)"
    by (simp_all add: parse_bool_def parse_u32_def parse_str_def parse_LogLevel_def parse_LogAml_def)
  then show ?thesis unfolding set_field_def by (elim exE) simp
qed

text \<open>
  C37.  The parser of the command line returns for every text: its loop ends, because each pass
  consumes a part of the text, and no position computed on the way underflows.
\<close>
theorem parse_cmdline_returns:
  "\<exists>r. parse_cmdline inp = Ret r"
proof -
  have "\<exists>r. parse_loop t cmd = Ret r" for t cmd
  proof (induction t cmd rule: parse_loop.induct)
    case (1 t cmd)
    obtain r t1 where n: "next_ident t = Ret (r, t1)" using next_ident_returns by blast
    show ?case
    proof (cases r)
      case None
      then show ?thesis by (subst parse_loop.simps) (simp add: n)
    next
      case (Some x)
      obtain i ident where x: "x = (i, ident)" by (cases x)
      obtain r2 t2 where s: "set_field i ident t1 cmd = Ret (r2, t2)" using set_field_returns by blast
      show ?thesis
        using "1.IH"[of "(Some (i, ident), t1)" "Some (i, ident)" t1 "(i, ident)" i ident "(r2, t2)" r2 t2] n s Some x
        by (subst parse_loop.simps) (cases r2; simp)
    qed
  qed
  then show ?thesis by (simp add: parse_cmdline_def)
qed

section \<open>What a command line means\<close>

text \<open>
  The reference: a command line is a sequence of assignments to the fields.  An assignment is
  written as the name, an equals sign, white space, the value and a separator of white space and
  commas, which only the last one may leave out.
\<close>

datatype assignment =
    SetUart bool | SetBaud nat | SetLevel LogLevel | SetFile string | SetHpet bool | SetAml LogAml

fun decimal :: "nat \<Rightarrow> string" where
  "decimal n = (if n < 10 then [] else decimal (n div 10)) @ [char_of (n mod 10 + 48)]"

declare decimal.simps [simp del]

fun field_text :: "assignment \<Rightarrow> string" where
  "field_text (SetUart _) = ''uart''"
| "field_text (SetBaud _) = ''uart_baud''"
| "field_text (SetLevel _) = ''max_log_level''"
| "field_text (SetFile _) = ''log_file''"
| "field_text (SetHpet _) = ''allow_hpet''"
| "field_text (SetAml _) = ''log_aml''"

fun value_text :: "assignment \<Rightarrow> string" where
  "value_text (SetUart b) = (if b then ''true'' else ''false'')"
| "value_text (SetBaud n) = decimal n"
| "value_text (SetLevel l) =
     (case l of Trace \<Rightarrow> ''trace'' | Debug \<Rightarrow> ''debug'' | Info \<Rightarrow> ''info'' | Warn \<Rightarrow> ''warn'' | Error \<Rightarrow> ''error'')"
| "value_text (SetFile s) = s"
| "value_text (SetHpet b) = (if b then ''true'' else ''false'')"
| "value_text (SetAml l) = (case l of Off \<Rightarrow> ''off'' | NormalAml \<Rightarrow> ''normal'' | Structured \<Rightarrow> ''structured'')"

fun assign :: "assignment \<Rightarrow> Cmd \<Rightarrow> Cmd" where
  "assign (SetUart b) c = c\<lparr>uart := b\<rparr>"
| "assign (SetBaud n) c = c\<lparr>uart_baud := n\<rparr>"
| "assign (SetLevel l) c = c\<lparr>max_log_level := l\<rparr>"
| "assign (SetFile s) c = c\<lparr>log_file := s\<rparr>"
| "assign (SetHpet b) c = c\<lparr>allow_hpet := b\<rparr>"
| "assign (SetAml l) c = c\<lparr>log_aml := l\<rparr>"

definition separator :: "char \<Rightarrow> bool" where
  "separator c \<longleftrightarrow> is_whitespace c \<or> c = CHR '',''"

definition word_text :: "string \<Rightarrow> bool" where
  "word_text s \<longleftrightarrow> s \<noteq> [] \<and> (\<forall>c \<in> set s. \<not> separator c \<and> c \<noteq> CHR ''='')"

fun assignment_ok :: "assignment \<Rightarrow> bool" where
  "assignment_ok (SetBaud n) \<longleftrightarrow> n < 2 ^ 32"
| "assignment_ok (SetFile s) \<longleftrightarrow> word_text s"
| "assignment_ok _ \<longleftrightarrow> True"

type_synonym written = "assignment \<times> string \<times> string"

fun line_text :: "written list \<Rightarrow> string" where
  "line_text [] = []"
| "line_text ((a, ws, sep) # xs) = field_text a @ CHR ''='' # ws @ value_text a @ sep @ line_text xs"

fun line_ok :: "written list \<Rightarrow> bool" where
  "line_ok [] \<longleftrightarrow> True"
| "line_ok ((a, ws, sep) # xs) \<longleftrightarrow> assignment_ok a \<and> list_all is_whitespace ws \<and> list_all separator sep
     \<and> (xs \<noteq> [] \<longrightarrow> sep \<noteq> []) \<and> line_ok xs"

lemma u32_digits_snoc:
  "u32_digits acc (cs @ [c]) = (case u32_digits acc cs of Inl e \<Rightarrow> Inl e | Inr v \<Rightarrow> u32_digits v [c])"
  by (induction cs arbitrary: acc) (auto simp: Let_def)

lemma digit_char: "n < 10 \<Longrightarrow> is_digit (char_of (n + 48))" "n < 10 \<Longrightarrow> (of_char (char_of (n + 48)) :: nat) - of_char CHR ''0'' = n"
  by (simp_all add: is_digit_def char_in_def)

lemma digit_plain: "is_digit c \<Longrightarrow> \<not> separator c \<and> c \<noteq> CHR ''='' \<and> c \<noteq> CHR ''+'' \<and> c \<noteq> CHR ''-''"
  by (auto simp: is_digit_def char_in_def separator_def is_whitespace_def)

lemma decimal_word: "decimal n \<noteq> []" "\<forall>c \<in> set (decimal n). is_digit c"
proof -
  show "decimal n \<noteq> []" by (subst decimal.simps) simp
  show "\<forall>c \<in> set (decimal n). is_digit c"
  proof (induction n rule: decimal.induct)
    case (1 n)
    then show ?case by (subst decimal.simps) (auto simp: digit_char)
  qed
qed

lemma u32_digits_decimal: "n < 2 ^ 32 \<Longrightarrow> u32_digits 0 (decimal n) = Inr n"
proof (induction n rule: decimal.induct)
  case (1 n)
  show ?case
  proof (cases "n < 10")
    case True
    then show ?thesis using digit_char[of n] by (subst decimal.simps) (simp add: Let_def)
  next
    case False
    then have "u32_digits 0 (decimal (n div 10)) = Inr (n div 10)" using 1 by simp
    then show ?thesis using False digit_char[of "n mod 10"] 1(2)
      by (subst decimal.simps) (simp add: u32_digits_snoc Let_def)
  qed
qed

lemma u32_from_decimal: "n < 2 ^ 32 \<Longrightarrow> u32_from_str (decimal n) = Inr n"
  using decimal_word[of n] u32_digits_decimal[of n] digit_plain
  by (cases "decimal n") (auto simp: u32_from_str_def)

definition ident_char :: "char \<Rightarrow> bool" where
  "ident_char c \<longleftrightarrow> (is_alphanumeric c \<or> c = CHR ''_'') \<and> \<not> is_whitespace c"

lemma field_word: "field_text a \<noteq> []" "list_all ident_char (field_text a)"
  by (cases a; simp) (cases a; simp only: field_text.simps; code_simp)

definition plain_char :: "char \<Rightarrow> bool" where
  "plain_char c \<longleftrightarrow> \<not> separator c \<and> c \<noteq> CHR ''=''"

lemma word_text_iff: "word_text s \<longleftrightarrow> s \<noteq> [] \<and> list_all plain_char s"
  by (simp add: word_text_def plain_char_def list_all_iff)

lemma word_literals:
  "word_text ''true''" "word_text ''false''" "word_text ''trace''" "word_text ''debug''" "word_text ''info''" "word_text ''warn''"
  "word_text ''error''" "word_text ''off''" "word_text ''normal''" "word_text ''structured''"
  unfolding word_text_iff by code_simp+

lemma value_word: "assignment_ok a \<Longrightarrow> word_text (value_text a)"
proof (cases a)
  case (SetBaud n)
  then show ?thesis using decimal_word[of n] digit_plain by (auto simp: word_text_def)
qed (simp_all add: word_literals split: LogLevel.split LogAml.split)

section \<open>Reading a command line back\<close>

lemma word_head: "word_text v \<Longrightarrow> \<exists>c cs. v = c # cs \<and> \<not> is_whitespace c"
  by (cases v) (auto simp: word_text_def separator_def)

lemma dropWhile_all: "list_all P ws \<Longrightarrow> dropWhile P (ws @ s) = dropWhile P s"
  by (induction ws) auto

lemma next_ident_field:
  assumes "running_str t = field_text a @ CHR ''='' # ws @ v @ s" "list_all is_whitespace ws" "word_text v"
  shows "\<exists>t1. next_ident t = Ret (Some (tok_idx t, field_text a), t1) \<and> running_str t1 = v @ s"
proof -
  let ?f = "\<lambda>c. \<not> is_alphanumeric c \<and> c \<noteq> CHR '','' \<and> c \<noteq> CHR ''_''"
  have v: "dropWhile is_whitespace (v @ s) = v @ s" using word_head[OF assms(3)] by auto
  have "\<forall>x \<in> set (field_text a). \<not> ?f x \<and> \<not> is_whitespace x"
    using field_word(2)[of a] by (auto simp: list_all_iff ident_char_def)
  moreover have "?f CHR ''=''" by (simp add: is_alphanumeric_def is_digit_def char_in_def)
  ultimately show ?thesis
    unfolding next_ident_def using next_token_ok[OF assms(1) field_word(1), of ?f "\<lambda>c. c = CHR ''=''" is_whitespace] dropWhile_all[OF assms(2), of "v @ s"] v
    by simp
qed

lemma next_value_word:
  assumes "running_str t = v @ sep @ s" "word_text v" "list_all separator sep" "sep \<noteq> [] \<or> s = []" "s = [] \<or> \<not> separator (hd s)"
  shows "\<exists>i t1. next_value t = Ret ((i, v), t1) \<and> running_str t1 = s"
proof -
  let ?f = "\<lambda>c. is_whitespace c \<or> c = CHR '','' \<or> c = CHR ''=''" and ?s = "\<lambda>c. is_whitespace c \<or> c = CHR '',''"
  have sep: "?s = separator" by (simp add: fun_eq_iff separator_def)
  have v: "\<forall>x \<in> set v. \<not> ?f x \<and> \<not> is_whitespace x" "v \<noteq> []" using assms(2) by (auto simp: word_text_def separator_def)
  show ?thesis
  proof (cases sep)
    case Nil
    then have r: "running_str t = v" using assms(1,4) by simp
    have tw: "takeWhile (\<lambda>c. \<not> ?f c) v = v" using v(1) by (simp add: takeWhile_eq_all_conv)
    have "next_token ?f ?s ?s t = Ret (None, t)" unfolding next_token_def Let_def r tw by simp
    then show ?thesis using Nil assms(4) r by (simp add: next_value_def)
  next
    case (Cons c cs)
    have c: "separator c" "list_all separator cs" using assms(3) Cons by simp_all
    have "?f c" "?s c" using c(1) by (auto simp: separator_def)
    with next_token_ok[where t = t and v = v and c = c and cs = "cs @ s" and f = ?f and st = ?s and sp = ?s] v assms(1) Cons
    have "\<exists>t1. next_token ?f ?s ?s t = Ret (Some (tok_idx t, v), t1) \<and> running_str t1 = dropWhile separator (cs @ s)"
      by (simp add: sep)
    moreover have "dropWhile separator (cs @ s) = s" using dropWhile_all[OF c(2), of s] assms(5) by (cases s) auto
    ultimately show ?thesis by (auto simp: next_value_def)
  qed
qed

lemma set_field_value:
  assumes "next_value t = Ret ((i, value_text a), t1)" "assignment_ok a"
  shows "set_field j (field_text a) t cmd = Ret (Inr (assign a cmd), t1)"
  using assms
  by (cases a) (auto simp: set_field_def parse_bool_def parse_u32_def parse_str_def parse_LogLevel_def parse_LogAml_def
      u32_from_decimal split: LogLevel.splits LogAml.splits)

lemma line_head: "xs \<noteq> [] \<Longrightarrow> line_text xs \<noteq> [] \<and> \<not> separator (hd (line_text xs))"
proof (cases xs)
  case (Cons x ys)
  obtain a ws sep where x: "x = (a, ws, sep)" by (cases x)
  show ?thesis using field_word[of a]
    by (cases "field_text a") (auto simp: Cons x ident_char_def separator_def is_alphanumeric_def is_digit_def char_in_def)
qed simp

lemma parse_loop_line:
  "line_ok xs \<Longrightarrow> running_str t = line_text xs \<Longrightarrow> parse_loop t cmd = Ret (Inr (fold assign (map fst xs) cmd))"
proof (induction xs arbitrary: t cmd)
  case Nil
  then have "next_ident t = Ret (None, t)" by (simp add: next_ident_def next_token_def)
  then show ?case by (subst parse_loop.simps) simp
next
  case (Cons x xs)
  obtain a ws sep where x: "x = (a, ws, sep)" by (cases x)
  have ok: "assignment_ok a" "list_all is_whitespace ws" "list_all separator sep" "xs \<noteq> [] \<longrightarrow> sep \<noteq> []" "line_ok xs"
    using Cons.prems(1) by (simp_all add: x)
  note w = value_word[OF ok(1)]
  obtain t1 where t1: "next_ident t = Ret (Some (tok_idx t, field_text a), t1)" "running_str t1 = value_text a @ sep @ line_text xs"
    using next_ident_field[OF _ ok(2) w, of t a "sep @ line_text xs"] Cons.prems(2) by (auto simp: x)
  have "sep \<noteq> [] \<or> line_text xs = []" "line_text xs = [] \<or> \<not> separator (hd (line_text xs))"
    using ok(4) line_head[of xs] by (cases xs; auto)+
  from next_value_word[OF t1(2) w ok(3) this] obtain i t2 where
    t2: "next_value t1 = Ret ((i, value_text a), t2)" "running_str t2 = line_text xs" by blast
  have "parse_loop t cmd = parse_loop t2 (assign a cmd)"
    by (subst parse_loop.simps) (simp add: t1(1) set_field_value[OF t2(1) ok(1)])
  then show ?case using Cons.IH[OF ok(5) t2(2)] by (simp add: x)
qed

text \<open>
  C38.  A command line is understood: for every sequence of assignments, in any order and with any
  white space and commas between them, the parser returns the defaults changed by the assignments
  from left to right.
\<close>
theorem cmdline_roundtrip:
  assumes "line_ok xs"
  shows "parse_cmdline (line_text xs) = Ret (Inr (fold assign (map fst xs) default_cmdline))"
  using parse_loop_line[OF assms, of "Tokenizer_new (line_text xs)"] by (simp add: parse_cmdline_def Tokenizer_new_def)

theorem cmdline_roundtrip_witness:
  "\<exists>c. parse_cmdline ''uart=false,  uart_baud= 9600 max_log_level=debug'' = Ret (Inr c)
     \<and> \<not> uart c \<and> uart_baud c = 9600 \<and> max_log_level c = Debug \<and> allow_hpet c"
proof -
  let ?xs = "[(SetUart False, [], '',  ''), (SetBaud 9600, '' '', '' ''), (SetLevel Debug, [], [])]"
  have "line_ok ?xs" by (simp add: separator_def is_whitespace_def)
  moreover have "line_text ?xs = ''uart=false,  uart_baud= 9600 max_log_level=debug''"
    by (simp add: decimal.simps) code_simp
  ultimately show ?thesis using cmdline_roundtrip[of ?xs] by (simp add: default_cmdline_def)
qed

text \<open>An empty value takes the rest of the line, up to the next separator, as its text.\<close>

lemma cmdline_empty_value:
  "parse_cmdline ''log_file= uart=false'' = Ret (Inr (default_cmdline\<lparr>log_file := ''uart=false''\<rparr>))"
proof -
  have 1: "next_ident \<lparr>running_str = ''log_file= uart=false'', tok_idx = 0\<rparr>
      = Ret (Some (0, ''log_file''), \<lparr>running_str = ''uart=false'', tok_idx = 10\<rparr>)"
    by code_simp
  have 2: "next_value \<lparr>running_str = ''uart=false'', tok_idx = 10\<rparr>
      = Ret ((10, ''uart=false''), \<lparr>running_str = [], tok_idx = 20\<rparr>)" by code_simp
  have 3: "next_ident \<lparr>running_str = [], tok_idx = 20\<rparr> = Ret (None, \<lparr>running_str = [], tok_idx = 20\<rparr>)"
    by (simp add: next_ident_def next_token_def)
  show ?thesis
    by (simp add: parse_cmdline_def Tokenizer_new_def parse_loop.simps[of "\<lparr>running_str = ''log_file= uart=false'', tok_idx = 0\<rparr>"]
        1 2 3 set_field_def parse_str_def parse_loop.simps[of "\<lparr>running_str = [], tok_idx = 20\<rparr>"])
qed

end
