(* ===== verification/Input_Devices.thy ===== *)
theory Input_Devices
  imports Prelude Fs_Types
begin

unbundle bit_operations_syntax

text \<open>
  Model of the keyboard and the mouse: the driver in kernel/src/devices/keyboard_mouse (keyboard.rs,
  mouse.rs, mod.rs), and the events it exchanges with user programs in
  libraries/kernel_user_link/src (keyboard.rs, mouse.rs).  The two ports of the PS/2 controller and
  the broadcast queue between the driver and its readers are not part of the sources: the
  controller is a record of port reads on a state of any type, the queue a function \<open>recv\<close>.  What
  the driver gives to the queue is kept in the lists \<open>key_sent\<close> and \<open>mouse_sent\<close>.  The start of the
  mouse, a dialogue with the device, is not modelled.
\<close>

section \<open>Keys\<close>

definition SHIFT :: u8 where "SHIFT = push_bit 0 1"
definition CTRL :: u8 where "CTRL = push_bit 1 1"
definition ALT :: u8 where "ALT = push_bit 2 1"
definition CAPS_LOCK :: u8 where "CAPS_LOCK = push_bit 3 1"
definition NUM_LOCK :: u8 where "NUM_LOCK = push_bit 4 1"
definition SCROLL_LOCK :: u8 where "SCROLL_LOCK = push_bit 5 1"
definition PRESSED :: u8 where "PRESSED = push_bit 7 1"

text \<open>
  The enum \<open>KeyType\<close> is represented by its discriminants, between which and the bytes of an event the
  code casts and transmutes: the position of a name in the list is its discriminant.
\<close>

definition KeyType_names :: "string list" where
  "KeyType_names = [
     ''_None1'', ''Escape'', ''Num1'', ''Num2'', ''Num3'', ''Num4'', ''Num5'', ''Num6'', ''Num7'',
     ''Num8'', ''Num9'', ''Num0'', ''Minus'', ''Equals'', ''Backspace'', ''Tab'', ''Q'', ''W'',
     ''E'', ''R'', ''T'', ''Y'', ''U'', ''I'', ''O'', ''P'', ''LeftBracket'', ''RightBracket'',
     ''Enter'', ''LeftCtrl'', ''A'', ''S'', ''D'', ''F'', ''G'', ''H'', ''J'', ''K'', ''L'',
     ''Semicolon'', ''SingleQuote'', ''Backtick'', ''LeftShift'', ''Backslash'', ''Z'', ''X'',
     ''C'', ''V'', ''B'', ''N'', ''M'', ''Comma'', ''Dot'', ''Slash'', ''RightShift'',
     ''KeypadAsterisk'', ''LeftAlt'', ''Space'', ''CapsLock'', ''F1'', ''F2'', ''F3'', ''F4'',
     ''F5'', ''F6'', ''F7'', ''F8'', ''F9'', ''F10'', ''NumLock'', ''ScrollLock'', ''Keypad7'',
     ''Keypad8'', ''Keypad9'', ''KeypadMinus'', ''Keypad4'', ''Keypad5'', ''Keypad6'',
     ''KeypadPlus'', ''Keypad1'', ''Keypad2'', ''Keypad3'', ''Keypad0'', ''KeypadDot'', ''_None2'',
     ''_None3'', ''_None4'', ''F11'', ''F12'', ''MultimediaPreviousTrack'',
     ''MultimediaNextTrack'', ''KeypadEnter'', ''RightCtrl'', ''MultimediaMute'', ''Calculator'',
     ''MultimediaPlayPause'', ''MultimediaStop'', ''VolumeDown'', ''VolumeUp'', ''WWWHome'',
     ''KeypadSlash'', ''RightAlt'', ''Home'', ''UpArrow'', ''PageUp'', ''LeftArrow'',
     ''RightArrow'', ''End'', ''DownArrow'', ''PageDown'', ''Insert'', ''Delete'', ''LeftGUI'',
     ''RightGUI'', ''Application'', ''Power'', ''Sleep'', ''Wake'', ''WWWSearch'',
     ''WWWFavorites'', ''WWWRefresh'', ''WWWStop'', ''WWWForward'', ''WWWBack'', ''MyComputer'',
     ''Email'', ''MultimediaSelect'']"

definition KEY_TYPES :: nat where
  "KEY_TYPES = 127"

fun position :: "'a \<Rightarrow> 'a list \<Rightarrow> nat" where
  "position x [] = 0"
| "position x (y # ys) = (if x = y then 0 else Suc (position x ys))"

definition KeyType :: "string \<Rightarrow> u8" where
  "KeyType name = of_nat (position name KeyType_names)"

definition US_KEYTYPE_KEYMAP :: "u8 list" where
  "US_KEYTYPE_KEYMAP = [
     0, 27, 49, 50, 51, 52, 53, 54, 55, 56, 57, 48, 45, 61, 8, 9, 113, 119, 101, 114, 116, 121,
     117, 105, 111, 112, 91, 93, 10, 0, 97, 115, 100, 102, 103, 104, 106, 107, 108, 59, 39, 96, 0,
     92, 122, 120, 99, 118, 98, 110, 109, 44, 46, 47, 0, 42, 0, 32, 0, 0, 0, 0, 0, 0, 0, 0, 0, 0,
     0, 0, 0, 55, 56, 57, 45, 52, 53, 54, 43, 49, 50, 51, 48, 46, 0, 0, 0, 0, 0, 0, 0, 10, 0, 0, 0,
     0, 0, 0, 0, 0, 47, 0, 0, 0, 0, 0, 0, 0, 0, 0, 0, 0, 0, 0, 0, 0, 0, 0, 0, 0, 0, 0, 0, 0, 0, 0, 0]"

definition US_KEYTYPE_KEYMAP_SHIFTED :: "u8 list" where
  "US_KEYTYPE_KEYMAP_SHIFTED = [
     0, 27, 33, 64, 35, 36, 37, 94, 38, 42, 40, 41, 95, 43, 8, 9, 81, 87, 69, 82, 84, 89, 85, 73,
     79, 80, 123, 125, 10, 0, 65, 83, 68, 70, 71, 72, 74, 75, 76, 58, 34, 126, 0, 124, 90, 88, 67,
     86, 66, 78, 77, 60, 62, 63, 0, 42, 0, 32, 0, 0, 0, 0, 0, 0, 0, 0, 0, 0, 0, 0, 0, 0, 0, 0, 45,
     0, 53, 0, 43, 0, 0, 0, 0, 0, 0, 0, 0, 0, 0, 0, 0, 0, 0, 0, 0, 0, 0, 0, 0, 0, 0, 0, 0, 0, 0, 0,
     0, 0, 0, 0, 0, 0, 0, 0, 0, 0, 0, 0, 0, 0, 0, 0, 0, 0, 0, 0, 0]"

definition virtual_key :: "u8 \<Rightarrow> bool \<Rightarrow> u8 option exec" where
  "virtual_key key shifted =
     (let mappings = if shifted then US_KEYTYPE_KEYMAP_SHIFTED else US_KEYTYPE_KEYMAP in
      assert_exec (unat key < length mappings)
        (let v = mappings ! unat key in Ret (if v = 0 then None else Some v)))"

record Key =
  key_pressed :: bool
  key_modifiers :: u8
  key_type :: u8

definition Key_BYTES_SIZE :: usize where
  "Key_BYTES_SIZE = 2"

definition Key_as_bytes :: "Key \<Rightarrow> u8 list" where
  "Key_as_bytes k = [(key_modifiers k AND NOT PRESSED) OR (if key_pressed k then PRESSED else 0), key_type k]"

text \<open>The cast of a byte that is no discriminant of the enum is undefined.\<close>

definition transmute_KeyType :: "u8 \<Rightarrow> u8 exec" where
  "transmute_KeyType b = (if unat b < KEY_TYPES then Ret b else Panic Uninit)"

definition Key_from_bytes :: "u8 list \<Rightarrow> Key exec" where
  "Key_from_bytes bytes =
     bind_exec (transmute_KeyType (bytes ! 1)) (\<lambda>key.
     Ret \<lparr>key_pressed = (bytes ! 0 AND PRESSED \<noteq> 0), key_modifiers = bytes ! 0 AND NOT PRESSED, key_type = key\<rparr>)"

definition virtual_char :: "Key \<Rightarrow> u8 option exec" where
  "virtual_char k = virtual_key (key_type k) (key_modifiers k AND SHIFT \<noteq> 0)"

section \<open>Mouse events\<close>

datatype ScrollType = ScrollNone | VerticalUp | VerticalDown | HorizontalRight | HorizontalNegative

record MouseEvent =
  m_x :: u16
  m_y :: u16
  scroll_type :: ScrollType
  buttons :: u8

definition MouseEvent_BYTES_SIZE :: usize where
  "MouseEvent_BYTES_SIZE = 5"

fun ScrollType_as_u8 :: "ScrollType \<Rightarrow> u8" where
  "ScrollType_as_u8 ScrollNone = 0"
| "ScrollType_as_u8 VerticalUp = 1"
| "ScrollType_as_u8 VerticalDown = 2"
| "ScrollType_as_u8 HorizontalRight = 3"
| "ScrollType_as_u8 HorizontalNegative = 4"

definition le_bytes :: "u16 \<Rightarrow> u8 list" where
  "le_bytes w = [ucast w, ucast (drop_bit 8 w)]"

definition from_le_bytes :: "u8 \<Rightarrow> u8 \<Rightarrow> u16" where
  "from_le_bytes lo hi = ucast lo OR push_bit 8 (ucast hi)"

definition MouseEvent_as_bytes :: "MouseEvent \<Rightarrow> u8 list" where
  "MouseEvent_as_bytes e = le_bytes (m_x e) @ le_bytes (m_y e)
     @ [(buttons e AND 0b11111) OR push_bit 5 (ScrollType_as_u8 (scroll_type e))]"

definition MouseEvent_from_bytes :: "u8 list \<Rightarrow> MouseEvent exec" where
  "MouseEvent_from_bytes bytes =
     bind_exec (let t = drop_bit 5 (bytes ! 4) in
        if t = 0 then Ret ScrollNone
        else if t = 1 then Ret VerticalUp
        else if t = 2 then Ret VerticalDown
        else if t = 3 then Ret HorizontalRight
        else if t = 4 then Ret HorizontalNegative
        else Panic (Explicit ''invalid scroll type'')) (\<lambda>scroll.
     Ret \<lparr>m_x = from_le_bytes (bytes ! 0) (bytes ! 1), m_y = from_le_bytes (bytes ! 2) (bytes ! 3),
          scroll_type = scroll, buttons = bytes ! 4 AND 0b11111\<rparr>)"

section \<open>The controller\<close>

definition DATA_READY :: u8 where "DATA_READY = push_bit 0 1"
definition KEYBOARD_TIMEOUT_MOUSE_DATA :: u8 where "KEYBOARD_TIMEOUT_MOUSE_DATA = push_bit 5 1"
definition PARITY_ERROR :: u8 where "PARITY_ERROR = push_bit 7 1"

record 'h Ps2 =
  read_status :: "'h \<Rightarrow> u8 \<times> 'h"
  read_data :: "'h \<Rightarrow> u8 \<times> 'h"

section \<open>The keyboard\<close>

definition KEY_PRESSED :: u8 where "KEY_PRESSED = push_bit 7 1"

record Keyboard =
  active_modifiers :: u8
  active_toggles :: u8
  key_sent :: "Key list"

definition Keyboard_new :: Keyboard where
  "Keyboard_new = \<lparr>active_modifiers = 0, active_toggles = 0, key_sent = []\<rparr>"

definition modifiers :: "Keyboard \<Rightarrow> u8" where
  "modifiers kb = (active_modifiers kb AND NOT (CAPS_LOCK OR NUM_LOCK OR SCROLL_LOCK)) OR active_toggles kb"

definition extended_keys :: "(u8 \<times> string) list" where
  "extended_keys = [
     (0x10, ''MultimediaPreviousTrack''), (0x19, ''MultimediaNextTrack''), (0x1C, ''KeypadEnter''),
     (0x1D, ''RightCtrl''), (0x20, ''MultimediaMute''), (0x21, ''Calculator''),
     (0x22, ''MultimediaPlayPause''), (0x24, ''MultimediaStop''), (0x2E, ''VolumeDown''),
     (0x30, ''VolumeUp''), (0x32, ''WWWHome''), (0x35, ''KeypadSlash''), (0x38, ''RightAlt''),
     (0x47, ''Home''), (0x48, ''UpArrow''), (0x49, ''PageUp''), (0x4B, ''LeftArrow''),
     (0x4D, ''RightArrow''), (0x4F, ''End''), (0x50, ''DownArrow''), (0x51, ''PageDown''),
     (0x52, ''Insert''), (0x53, ''Delete''), (0x5B, ''LeftGUI''), (0x5C, ''RightGUI''),
     (0x5D, ''Application''), (0x5E, ''Power''), (0x5F, ''Sleep''), (0x63, ''Wake''),
     (0x65, ''WWWSearch''), (0x66, ''WWWFavorites''), (0x67, ''WWWRefresh''), (0x68, ''WWWStop''),
     (0x69, ''WWWForward''), (0x6A, ''WWWBack''), (0x6B, ''MyComputer''), (0x6C, ''Email''),
     (0x6D, ''MultimediaSelect'')]"

definition key_type_from_device :: "u8 \<Rightarrow> u8 option" where
  "key_type_from_device v =
     (if v AND 0x80 = 0
      then (if v \<le> KeyType ''F12''
            then (if v = KeyType ''_None1'' \<or> v = KeyType ''_None2'' \<or> v = KeyType ''_None3'' \<or> v = KeyType ''_None4''
                  then None else Some v)
            else None)
      else map_option KeyType (map_of extended_keys (v AND NOT 0x80)))"

definition get_modifier :: "u8 \<Rightarrow> u8 option" where
  "get_modifier key = map_of [(0x2A, SHIFT), (0x36, SHIFT), (0x1D, CTRL), (0x38, ALT)] key"

definition get_toggle :: "u8 \<Rightarrow> u8 option" where
  "get_toggle key = map_of [(0x3A, CAPS_LOCK), (0x45, NUM_LOCK), (0x46, SCROLL_LOCK)] key"

definition send_key :: "bool \<Rightarrow> u8 \<Rightarrow> Keyboard \<Rightarrow> Keyboard" where
  "send_key pressed key kb =
     kb\<lparr>key_sent := key_sent kb @ [\<lparr>key_pressed = pressed, key_modifiers = modifiers kb, key_type = key\<rparr>]\<rparr>"

text \<open>\<open>handle_keyboard_data\<close> after the branch of the extended keys.\<close>

definition handle_plain_data :: "u8 \<Rightarrow> Keyboard \<Rightarrow> Keyboard" where
  "handle_plain_data byte kb =
     (let pressed = byte AND KEY_PRESSED = 0;
          key = byte AND NOT KEY_PRESSED;
          hold = (\<lambda>m kb. kb\<lparr>active_modifiers :=
            (if pressed then active_modifiers kb OR m else active_modifiers kb AND NOT m)\<rparr>);
          kb1 = (case get_modifier key of
              Some m \<Rightarrow> hold m kb
            | None \<Rightarrow> (case get_toggle key of
                Some t \<Rightarrow> hold t (if pressed \<and> active_modifiers kb AND t = 0
                                   then kb\<lparr>active_toggles := active_toggles kb XOR t\<rparr> else kb)
              | None \<Rightarrow> kb))
      in case key_type_from_device key of None \<Rightarrow> kb1 | Some k \<Rightarrow> send_key pressed k kb1)"

definition handle_keyboard_data :: "'h Ps2 \<Rightarrow> Keyboard \<Rightarrow> 'h \<Rightarrow> Keyboard \<times> 'h" where
  "handle_keyboard_data ps2 kb h0 =
     (let (status, h1) = read_status ps2 h0 in
      if status AND DATA_READY = 0 then (kb, h1)
      else let (byte, h2) = read_data ps2 h1 in
        if byte = 0xE0
        then let (byte2, h3) = read_data ps2 h2 in
          (case key_type_from_device (byte2 OR 0x80) of
             None \<Rightarrow> (kb, h3)
           | Some key \<Rightarrow> (handle_plain_data byte (send_key (byte2 AND KEY_PRESSED = 0) key kb), h3))
        else (handle_plain_data byte kb, h2))"

section \<open>The mouse\<close>

definition Y_OVERFLOW :: u8 where "Y_OVERFLOW = push_bit 7 1"
definition X_OVERFLOW :: u8 where "X_OVERFLOW = push_bit 6 1"
definition Y_SIGN :: u8 where "Y_SIGN = push_bit 5 1"
definition X_SIGN :: u8 where "X_SIGN = push_bit 4 1"

record Mouse =
  has_extra_byte :: bool
  mouse_sent :: "MouseEvent list"

fun read_bytes :: "'h Ps2 \<Rightarrow> nat \<Rightarrow> 'h \<Rightarrow> u8 list \<times> 'h" where
  "read_bytes ps2 0 h = ([], h)"
| "read_bytes ps2 (Suc n) h =
     (let (b, h1) = read_data ps2 h; (bs, h2) = read_bytes ps2 n h1 in (b # bs, h2))"

text \<open>The event of a packet of four bytes, the last 0 when the mouse does not send it.\<close>

definition mouse_event :: "u8 list \<Rightarrow> MouseEvent option" where
  "mouse_event d =
     (if d ! 0 AND X_OVERFLOW \<noteq> 0 \<or> d ! 0 AND Y_OVERFLOW \<noteq> 0 then None
      else (let b = (d ! 0 AND 0b111) OR push_bit 3 (drop_bit 4 (d ! 3) AND 0b11);
                x = (if d ! 0 AND X_SIGN \<noteq> 0 then ucast (d ! 1) OR 0xFF00 else ucast (d ! 1));
                y = (if d ! 0 AND Y_SIGN \<noteq> 0 then ucast (d ! 2) OR 0xFF00 else ucast (d ! 2));
                s = d ! 3 AND 0b1111
            in Some \<lparr>m_x = x, m_y = y,
              scroll_type = (if s = 1 then VerticalUp else if s = 0xF then VerticalDown
                else if s = 2 then HorizontalRight else if s = 0xE then HorizontalNegative else ScrollNone),
              buttons = b\<rparr>))"

definition handle_mouse_data :: "'h Ps2 \<Rightarrow> Mouse \<Rightarrow> 'h \<Rightarrow> Mouse \<times> 'h" where
  "handle_mouse_data ps2 m h0 =
     (let read_len = if has_extra_byte m then 4 else 3;
          (bs, h1) = read_bytes ps2 read_len h0
      in (case mouse_event (bs @ replicate (4 - read_len) 0) of
            None \<Rightarrow> m
          | Some e \<Rightarrow> m\<lparr>mouse_sent := mouse_sent m @ [e]\<rparr>, h1))"

section \<open>The interrupt handler\<close>

record KeyboardMouse =
  keyboard :: Keyboard
  mouse :: Mouse

text \<open>The keyboard and the mouse at the start; whether the mouse sends a fourth byte is what its start found out.\<close>

definition KeyboardMouse_new :: "bool \<Rightarrow> KeyboardMouse" where
  "KeyboardMouse_new extra = \<lparr>keyboard = Keyboard_new, mouse = \<lparr>has_extra_byte = extra, mouse_sent = []\<rparr>\<rparr>"

definition fetch_next_data :: "'h Ps2 \<Rightarrow> KeyboardMouse \<Rightarrow> 'h \<Rightarrow> bool \<times> KeyboardMouse \<times> 'h" where
  "fetch_next_data ps2 km h0 =
     (let (status, h1) = read_status ps2 h0 in
      if status AND DATA_READY = 0 then (False, km, h1)
      else if status AND PARITY_ERROR \<noteq> 0 then (False, km, snd (read_data ps2 h1))
      else if status AND KEYBOARD_TIMEOUT_MOUSE_DATA \<noteq> 0
      then let (m, h2) = handle_mouse_data ps2 (mouse km) h1 in (True, km\<lparr>mouse := m\<rparr>, h2)
      else let (kb, h2) = handle_keyboard_data ps2 (keyboard km) h1 in (True, km\<lparr>keyboard := kb\<rparr>, h2))"

fun read_all_events :: "nat \<Rightarrow> 'h Ps2 \<Rightarrow> KeyboardMouse \<Rightarrow> 'h \<Rightarrow> (KeyboardMouse \<times> 'h) exec" where
  "read_all_events 0 ps2 km h = Panic OutOfFuel"
| "read_all_events (Suc n) ps2 km h =
     (let (more, km1, h1) = fetch_next_data ps2 km h in
      if more then read_all_events n ps2 km1 h1 else Ret (km1, h1))"

section \<open>The device files\<close>

definition copy_from_slice :: "usize \<Rightarrow> u8 list \<Rightarrow> u8 list \<Rightarrow> u8 list" where
  "copy_from_slice i bs buf =
     map (\<lambda>j. if i \<le> j \<and> j < i + length bs then bs ! (j - i) else buf ! j) [0..<length buf]"

text \<open>Both device files copy encoded events into the buffer while there is room for one.\<close>

function read_events ::
  "usize \<Rightarrow> ('e \<Rightarrow> u8 list) \<Rightarrow> ('r \<Rightarrow> 'e option \<times> 'r) \<Rightarrow> usize \<Rightarrow> u8 list \<Rightarrow> 'r \<Rightarrow> usize \<times> u8 list \<times> 'r" where
  "read_events sz as_bytes recv i buf reader =
     (if 0 < sz \<and> i + sz \<le> length buf
      then (case recv reader of
          (Some e, reader1) \<Rightarrow> read_events sz as_bytes recv (i + sz) (copy_from_slice i (as_bytes e) buf) reader1
        | (None, reader1) \<Rightarrow> (i, buf, reader1))
      else (i, buf, reader))"
  by pat_completeness auto
termination
  by (relation "measure (\<lambda>(sz, _, _, i, buf, _). length buf - i)") (auto simp: copy_from_slice_def)

declare read_events.simps [simp del]

definition keyboard_read ::
  "('r \<Rightarrow> Key option \<times> 'r) \<Rightarrow> u8 list \<Rightarrow> 'r \<Rightarrow> (FileSystemError + usize) \<times> u8 list \<times> 'r" where
  "keyboard_read recv buf reader =
     (if length buf < Key_BYTES_SIZE then (Inl (BufferNotLargeEnough Key_BYTES_SIZE), buf, reader)
      else (let (i, buf1, reader1) = read_events Key_BYTES_SIZE Key_as_bytes recv 0 buf reader in (Inr i, buf1, reader1)))"

definition mouse_read ::
  "('r \<Rightarrow> MouseEvent option \<times> 'r) \<Rightarrow> u8 list \<Rightarrow> 'r \<Rightarrow> (FileSystemError + usize) \<times> u8 list \<times> 'r" where
  "mouse_read recv buf reader =
     (if length buf < MouseEvent_BYTES_SIZE then (Inl (BufferNotLargeEnough MouseEvent_BYTES_SIZE), buf, reader)
      else (let (i, buf1, reader1) = read_events MouseEvent_BYTES_SIZE MouseEvent_as_bytes recv 0 buf reader
            in (Inr i, buf1, reader1)))"

text \<open>The user library's reader of one event (libraries/emerald_runtime/src/keyboard.rs and mouse.rs).\<close>

definition get_key_event :: "('r \<Rightarrow> Key option \<times> 'r) \<Rightarrow> 'r \<Rightarrow> (Key option \<times> 'r) exec" where
  "get_key_event recv reader =
     (case keyboard_read recv (replicate Key_BYTES_SIZE 0) reader of
        (Inl _, _, _) \<Rightarrow> Panic UnwrapErr
      | (Inr n, buf, reader1) \<Rightarrow>
          if n = Key_BYTES_SIZE then bind_exec (Key_from_bytes buf) (\<lambda>k. Ret (Some k, reader1))
          else Ret (None, reader1))"

definition get_mouse_event :: "('r \<Rightarrow> MouseEvent option \<times> 'r) \<Rightarrow> 'r \<Rightarrow> (MouseEvent option \<times> 'r) exec" where
  "get_mouse_event recv reader =
     (case mouse_read recv (replicate MouseEvent_BYTES_SIZE 0) reader of
        (Inl _, _, _) \<Rightarrow> Panic UnwrapErr
      | (Inr n, buf, reader1) \<Rightarrow>
          if n = MouseEvent_BYTES_SIZE then bind_exec (MouseEvent_from_bytes buf) (\<lambda>e. Ret (Some e, reader1))
          else Ret (None, reader1))"

text \<open>The iterators over the events, which end with the first read that finds none.\<close>

fun iter_keys :: "nat \<Rightarrow> ('r \<Rightarrow> Key option \<times> 'r) \<Rightarrow> 'r \<Rightarrow> (Key list \<times> 'r) exec" where
  "iter_keys 0 recv reader = Panic OutOfFuel"
| "iter_keys (Suc n) recv reader =
     bind_exec (get_key_event recv reader) (\<lambda>(k, reader1).
     case k of
       None \<Rightarrow> Ret ([], reader1)
     | Some key \<Rightarrow> bind_exec (iter_keys n recv reader1) (\<lambda>(ks, reader2). Ret (key # ks, reader2)))"

fun iter_events :: "nat \<Rightarrow> ('r \<Rightarrow> MouseEvent option \<times> 'r) \<Rightarrow> 'r \<Rightarrow> (MouseEvent list \<times> 'r) exec" where
  "iter_events 0 recv reader = Panic OutOfFuel"
| "iter_events (Suc n) recv reader =
     bind_exec (get_mouse_event recv reader) (\<lambda>(e, reader1).
     case e of
       None \<Rightarrow> Ret ([], reader1)
     | Some event \<Rightarrow> bind_exec (iter_events n recv reader1) (\<lambda>(es, reader2). Ret (event # es, reader2)))"

section \<open>Encodings\<close>

lemmas modifier_bits = SHIFT_def CTRL_def ALT_def CAPS_LOCK_def NUM_LOCK_def SCROLL_LOCK_def PRESSED_def KEY_PRESSED_def

lemma single_bit: "bit (push_bit k (1 :: u8)) n \<longleftrightarrow> n = k \<and> k < 8"
  unfolding bit_push_bit_iff bit_1_iff by auto

lemma modifier_bit [simp]:
  "bit SHIFT n \<longleftrightarrow> n = 0" "bit CTRL n \<longleftrightarrow> n = 1" "bit ALT n \<longleftrightarrow> n = 2" "bit CAPS_LOCK n \<longleftrightarrow> n = 3"
  "bit NUM_LOCK n \<longleftrightarrow> n = 4" "bit SCROLL_LOCK n \<longleftrightarrow> n = 5" "bit PRESSED n \<longleftrightarrow> n = 7" "bit KEY_PRESSED n \<longleftrightarrow> n = 7"
  unfolding modifier_bits single_bit by simp_all

lemma word8_bits: "v = w \<longleftrightarrow> (\<forall>n < 8. bit v n \<longleftrightarrow> bit w n)" for v w :: u8
  by (auto intro: bit_word_eqI)

lemma less_8: "n < 8 \<longleftrightarrow> n \<in> {0, 1, 2, 3, 4, 5, 6, 7 :: nat}"
  by auto

lemma and_flag: "w AND m = 0 \<longleftrightarrow> \<not> bit w k" if "\<And>n. bit m n \<longleftrightarrow> n = k" for w m :: u8
proof -
  have "bit m k" using that by simp
  then have "k < 8" using bit_imp_le_length[of m k] by simp
  then show ?thesis using that by (auto simp: word8_bits bit_and_iff)
qed

lemma key_tables:
  "length KeyType_names = KEY_TYPES" "length US_KEYTYPE_KEYMAP = KEY_TYPES" "length US_KEYTYPE_KEYMAP_SHIFTED = KEY_TYPES"
  by (simp_all add: KeyType_names_def KEY_TYPES_def US_KEYTYPE_KEYMAP_def US_KEYTYPE_KEYMAP_SHIFTED_def)

lemma Key_roundtrip:
  assumes "unat (key_type k) < KEY_TYPES" "\<not> bit (key_modifiers k) 7"
  shows "Key_from_bytes (Key_as_bytes k) = Ret k"
proof -
  let ?m = "key_modifiers k"
  have "?m AND NOT PRESSED = ?m" "(?m OR PRESSED) AND NOT PRESSED = ?m"
    using assms(2) by (auto simp: word8_bits bit_simps)
  moreover have "(?m OR PRESSED) AND PRESSED \<noteq> 0" "?m AND PRESSED = 0"
    using assms(2) by (simp_all add: and_flag[of PRESSED 7] bit_simps) (simp add: PRESSED_def)
  ultimately show ?thesis using assms(1) by (simp add: Key_from_bytes_def Key_as_bytes_def transmute_KeyType_def)
qed

lemma le_bytes_roundtrip: "from_le_bytes (le_bytes w ! 0) (le_bytes w ! 1) = w"
  by (intro bit_word_eqI) (auto simp: from_le_bytes_def le_bytes_def bit_simps)

lemma low_bits: "bit (0b11111 :: u8) n \<longleftrightarrow> n < 5"
proof -
  have "(0b11111 :: u8) = mask 5" by (simp add: mask_eq_exp_minus_1)
  then show ?thesis by (simp only: bit_mask_iff) auto
qed

lemma scroll_byte:
  fixes b s :: u8
  assumes "s < 8"
  shows "drop_bit 5 ((b AND 0b11111) OR push_bit 5 s) = s" "((b AND 0b11111) OR push_bit 5 s) AND 0b11111 = b AND 0b11111"
proof -
  have "take_bit 3 s = s" using assms by (simp add: word_less_nat_alt unsigned_take_bit_eq word_unat_eq_iff take_bit_nat_eq_self)
  then have s: "bit s n \<Longrightarrow> n < 3" for n by (metis bit_take_bit_iff)
  show "drop_bit 5 ((b AND 0b11111) OR push_bit 5 s) = s"
    unfolding word8_bits bit_drop_bit_eq comp_def bit_or_iff bit_and_iff low_bits bit_push_bit_iff using s by auto
  show "((b AND 0b11111) OR push_bit 5 s) AND 0b11111 = b AND 0b11111"
    unfolding word8_bits bit_or_iff bit_and_iff low_bits bit_push_bit_iff by auto
qed

lemma MouseEvent_roundtrip:
  assumes "buttons e AND 0b11111 = buttons e"
  shows "MouseEvent_from_bytes (MouseEvent_as_bytes e) = Ret e"
proof -
  have s: "ScrollType_as_u8 (scroll_type e) < 8" by (cases "scroll_type e") simp_all
  show ?thesis
    using scroll_byte[OF s, of "buttons e"] le_bytes_roundtrip[of "m_x e"] le_bytes_roundtrip[of "m_y e"] assms
    by (cases "scroll_type e") (simp_all add: MouseEvent_from_bytes_def MouseEvent_as_bytes_def le_bytes_def)
qed

section \<open>What the keyboard means\<close>

text \<open>
  The reference: what a sequence of scan codes means is read off its history, newest first.  A key is
  held when its last event was a press; a lock key is on when it was pressed an odd number of times,
  where the repetitions of a held key do not count.  Extended keys do not take part.
\<close>

datatype scan = Plain (scan_code: u8) (scan_pressed: bool) | Extended (scan_code: u8) (scan_pressed: bool)

fun scan_ok :: "scan \<Rightarrow> bool" where
  "scan_ok (Plain c p) \<longleftrightarrow> \<not> bit c 7 \<and> c \<noteq> 0x60"
| "scan_ok (Extended c p) \<longleftrightarrow> \<not> bit c 7"

definition scan_byte :: "u8 \<Rightarrow> bool \<Rightarrow> u8" where
  "scan_byte c p = (if p then c else c OR KEY_PRESSED)"

fun scan_bytes :: "scan \<Rightarrow> u8 list" where
  "scan_bytes (Plain c p) = [scan_byte c p]"
| "scan_bytes (Extended c p) = [0xE0, scan_byte c p]"

fun held :: "u8 list \<Rightarrow> scan list \<Rightarrow> bool" where
  "held ks [] = False"
| "held ks (Plain c p # h) = (if c \<in> set ks then p else held ks h)"
| "held ks (Extended c p # h) = held ks h"

fun presses :: "u8 \<Rightarrow> scan list \<Rightarrow> nat" where
  "presses k [] = 0"
| "presses k (Plain c p # h) = presses k h + (if c = k \<and> p \<and> \<not> held [k] h then 1 else 0)"
| "presses k (Extended c p # h) = presses k h"

definition flags :: "bool list \<Rightarrow> u8" where
  "flags bs = horner_sum of_bool 2 bs"

definition modifiers_of :: "scan list \<Rightarrow> u8" where
  "modifiers_of h = flags [held [0x2A, 0x36] h, held [0x1D] h, held [0x38] h,
     odd (presses 0x3A h), odd (presses 0x45 h), odd (presses 0x46 h)]"

fun report :: "scan list \<Rightarrow> scan \<Rightarrow> Key list" where
  "report h (Plain c p) =
     (case key_type_from_device c of
        None \<Rightarrow> []
      | Some k \<Rightarrow> [\<lparr>key_pressed = p, key_modifiers = modifiers_of (Plain c p # h), key_type = k\<rparr>])"
| "report h (Extended c p) =
     (case key_type_from_device (c OR 0x80) of
        None \<Rightarrow> []
      | Some k \<Rightarrow> [\<lparr>key_pressed = p, key_modifiers = modifiers_of h, key_type = k\<rparr>])"

fun reports :: "scan list \<Rightarrow> Key list" where
  "reports [] = []"
| "reports (s # h) = reports h @ report h s"

definition masks_ok :: "scan list \<Rightarrow> Keyboard \<Rightarrow> bool" where
  "masks_ok h kb \<longleftrightarrow>
     active_modifiers kb = flags [held [0x2A, 0x36] h, held [0x1D] h, held [0x38] h,
       held [0x3A] h, held [0x45] h, held [0x46] h]
   \<and> active_toggles kb = flags [False, False, False, odd (presses 0x3A h), odd (presses 0x45 h), odd (presses 0x46 h)]"

definition kb_ok :: "scan list \<Rightarrow> Keyboard \<Rightarrow> bool" where
  "kb_ok h kb \<longleftrightarrow> masks_ok h kb \<and> key_sent kb = reports h"

lemma bit_flags: "bit (flags bs) n \<longleftrightarrow> n < 8 \<and> n < length bs \<and> bs ! n"
  by (simp add: flags_def bit_horner_sum_bit_word_iff)

lemma Keyboard_new_ok: "kb_ok [] Keyboard_new"
  by (simp add: kb_ok_def masks_ok_def Keyboard_new_def flags_def)

lemma modifiers_ok: "masks_ok h kb \<Longrightarrow> modifiers kb = modifiers_of h"
  unfolding masks_ok_def modifiers_def modifiers_of_def word8_bits less_8 by (auto simp: bit_simps bit_flags)

lemma scan_byte_bits:
  assumes "\<not> bit c 7"
  shows "scan_byte c p AND KEY_PRESSED = 0 \<longleftrightarrow> p" "scan_byte c p AND NOT KEY_PRESSED = c"
proof -
  show "scan_byte c p AND KEY_PRESSED = 0 \<longleftrightarrow> p"
    using assms and_flag[of KEY_PRESSED 7] by (auto simp: scan_byte_def bit_simps)
  show "scan_byte c p AND NOT KEY_PRESSED = c"
    unfolding word8_bits less_8 using assms by (auto simp: scan_byte_def bit_simps)
qed

text \<open>The part of \<open>handle_plain_data\<close> that tracks the modifiers.\<close>

definition track :: "u8 \<Rightarrow> bool \<Rightarrow> Keyboard \<Rightarrow> Keyboard" where
  "track key pressed kb =
     (let hold = (\<lambda>m kb. kb\<lparr>active_modifiers :=
            (if pressed then active_modifiers kb OR m else active_modifiers kb AND NOT m)\<rparr>)
      in case get_modifier key of
           Some m \<Rightarrow> hold m kb
         | None \<Rightarrow> (case get_toggle key of
             Some t \<Rightarrow> hold t (if pressed \<and> active_modifiers kb AND t = 0
                                then kb\<lparr>active_toggles := active_toggles kb XOR t\<rparr> else kb)
           | None \<Rightarrow> kb))"

lemma handle_plain_track:
  assumes "\<not> bit c 7"
  shows "handle_plain_data (scan_byte c p) kb =
    (case key_type_from_device c of None \<Rightarrow> track c p kb | Some k \<Rightarrow> send_key p k (track c p kb))"
  unfolding handle_plain_data_def Let_def scan_byte_bits[OF assms] track_def ..

lemma track_sent [simp]: "key_sent (track c p kb) = key_sent kb"
  by (simp add: track_def Let_def split: option.splits)

lemma flags_update:
  assumes "k < length bs" "k < 8" "\<And>n. bit m n \<longleftrightarrow> n = k"
  shows "flags bs OR m = flags (bs[k := True])" "flags bs AND NOT m = flags (bs[k := False])"
    "flags bs XOR m = flags (bs[k := \<not> bs ! k])" "flags bs AND m = 0 \<longleftrightarrow> \<not> bs ! k"
  using assms(1,2) by (auto simp: word8_bits bit_simps bit_flags assms(3) nth_list_update and_flag[OF assms(3)])

lemmas flag_steps =
  flags_update[where m = SHIFT and k = 0, OF _ _ modifier_bit(1), simplified]
  flags_update[where m = CTRL and k = 1, OF _ _ modifier_bit(2), simplified]
  flags_update[where m = ALT and k = 2, OF _ _ modifier_bit(3), simplified]
  flags_update[where m = CAPS_LOCK and k = 3, OF _ _ modifier_bit(4), simplified]
  flags_update[where m = NUM_LOCK and k = 4, OF _ _ modifier_bit(5), simplified]
  flags_update[where m = SCROLL_LOCK and k = 5, OF _ _ modifier_bit(6), simplified]

lemma track_ok:
  assumes "masks_ok h kb"
  shows "masks_ok (Plain c p # h) (track c p kb)"
proof -
  have a: "active_modifiers kb = flags [held [0x2A, 0x36] h, held [0x1D] h, held [0x38] h, held [0x3A] h, held [0x45] h, held [0x46] h]"
    and t: "active_toggles kb = flags [False, False, False, odd (presses 0x3A h), odd (presses 0x45 h), odd (presses 0x46 h)]"
    using assms by (simp_all add: masks_ok_def)
  consider "c = 0x2A" | "c = 0x36" | "c = 0x1D" | "c = 0x38" | "c = 0x3A" | "c = 0x45" | "c = 0x46"
    | "c \<notin> {0x2A, 0x36, 0x1D, 0x38, 0x3A, 0x45, 0x46}" by blast
  then show ?thesis
    by cases (cases p, simp_all add: masks_ok_def track_def get_modifier_def get_toggle_def a t flag_steps)+
qed

lemma masks_ok_sent [simp]: "masks_ok h (kb\<lparr>key_sent := x\<rparr>) = masks_ok h kb"
  by (simp add: masks_ok_def)

lemma plain_ok:
  assumes "kb_ok h kb" "\<not> bit c 7"
  shows "kb_ok (Plain c p # h) (handle_plain_data (scan_byte c p) kb)"
proof -
  have m: "masks_ok (Plain c p # h) (track c p kb)" using assms track_ok by (simp add: kb_ok_def)
  show ?thesis
    using assms m modifiers_ok[OF m]
    by (cases "key_type_from_device c") (simp_all add: handle_plain_track kb_ok_def send_key_def)
qed

text \<open>
  The rest of \<open>handle_keyboard_data\<close> also runs after an extended key, on the prefix: it has no
  effect, because the code of the prefix belongs to no key.
\<close>

lemma prefix_ignored: "handle_plain_data 0xE0 kb = kb"
proof -
  have "handle_plain_data 0xE0 kb = handle_plain_data (scan_byte 0x60 False) kb" by (simp add: scan_byte_def KEY_PRESSED_def)
  also have "\<dots> = kb"
    by (subst handle_plain_track)
      (simp_all add: track_def get_modifier_def get_toggle_def key_type_from_device_def KeyType_def KeyType_names_def)
  finally show ?thesis .
qed

lemma masks_ok_Extended [simp]: "masks_ok (Extended c p # h) kb = masks_ok h kb"
  by (simp add: masks_ok_def)

lemma extended_ok:
  assumes "kb_ok h kb"
  shows "kb_ok (Extended c p # h)
    (case key_type_from_device (c OR 0x80) of None \<Rightarrow> kb | Some k \<Rightarrow> send_key p k kb)"
proof -
  have "modifiers kb = modifiers_of h" using assms modifiers_ok by (simp add: kb_ok_def)
  then show ?thesis using assms by (cases "key_type_from_device (c OR 0x80)") (simp_all add: kb_ok_def send_key_def)
qed

section \<open>The controller and the interrupt handler\<close>

text \<open>
  What the controller does: it queues the bytes of both devices, its status tells whether a byte
  waits and which device sent it, a status read changes nothing and a data read takes the byte.
\<close>

definition ps2_ok :: "'h Ps2 \<Rightarrow> ('h \<Rightarrow> (bool \<times> u8) list) \<Rightarrow> bool" where
  "ps2_ok ps2 q \<longleftrightarrow>
     (\<forall>h. q (snd (read_status ps2 h)) = q h
        \<and> (bit (fst (read_status ps2 h)) 0 \<longleftrightarrow> q h \<noteq> [])
        \<and> \<not> bit (fst (read_status ps2 h)) 7
        \<and> (q h \<noteq> [] \<longrightarrow> (bit (fst (read_status ps2 h)) 5 \<longleftrightarrow> fst (hd (q h)))))
   \<and> (\<forall>h. q h \<noteq> [] \<longrightarrow> fst (read_data ps2 h) = snd (hd (q h)) \<and> q (snd (read_data ps2 h)) = tl (q h))"

lemma ps2_status:
  assumes "ps2_ok ps2 q"
  obtains st h1 where "read_status ps2 h = (st, h1)" "q h1 = q h" "bit st 0 \<longleftrightarrow> q h \<noteq> []" "\<not> bit st 7"
    "q h \<noteq> [] \<Longrightarrow> bit st 5 \<longleftrightarrow> fst (hd (q h))"
  using assms that[of "fst (read_status ps2 h)" "snd (read_status ps2 h)"] unfolding ps2_ok_def by simp

lemma ps2_data:
  assumes "ps2_ok ps2 q" "q h = (m, b) # bs"
  obtains h1 where "read_data ps2 h = (b, h1)" "q h1 = bs"
proof -
  have "q h \<noteq> [] \<longrightarrow> fst (read_data ps2 h) = snd (hd (q h)) \<and> q (snd (read_data ps2 h)) = tl (q h)"
    using assms(1) by (simp add: ps2_ok_def)
  then show thesis using assms(2) that[of "snd (read_data ps2 h)"] by (simp add: prod_eq_iff)
qed

lemma status_bits [simp]:
  "w AND DATA_READY = 0 \<longleftrightarrow> \<not> bit w 0" "w AND PARITY_ERROR = 0 \<longleftrightarrow> \<not> bit w 7"
  "w AND KEYBOARD_TIMEOUT_MOUSE_DATA = 0 \<longleftrightarrow> \<not> bit w 5"
  by (rule and_flag, simp only: DATA_READY_def PARITY_ERROR_def KEYBOARD_TIMEOUT_MOUSE_DATA_def single_bit, simp)+

lemma read_bytes_ok:
  assumes "ps2_ok ps2 q" "q h = map (Pair m) bs @ tail"
  shows "\<exists>h1. read_bytes ps2 (length bs) h = (bs, h1) \<and> q h1 = tail"
  using assms(2)
proof (induction bs arbitrary: h)
  case Nil
  then show ?case by simp
next
  case (Cons b bs)
  have "q h = (m, b) # (map (Pair m) bs @ tail)" using Cons.prems by simp
  then obtain h1 where r: "read_data ps2 h = (b, h1)" "q h1 = map (Pair m) bs @ tail" by (rule ps2_data[OF assms(1)])
  obtain h2 where "read_bytes ps2 (length bs) h1 = (bs, h2)" "q h2 = tail" using Cons.IH[OF r(2)] by (elim exE conjE)
  then show ?case using r(1) by simp
qed

lemma scan_byte_not_prefix: "scan_ok (Plain c p) \<Longrightarrow> scan_byte c p \<noteq> 0xE0"
proof
  assume c: "scan_ok (Plain c p)" and e: "scan_byte c p = 0xE0"
  then have "c = 0xE0 AND NOT KEY_PRESSED" using scan_byte_bits(2)[of c p] by simp
  then show False using c by (simp add: KEY_PRESSED_def)
qed

lemma key_bit_extended: "\<not> bit c 7 \<Longrightarrow> scan_byte c p OR 0x80 = c OR 0x80"
  by (simp add: scan_byte_def KEY_PRESSED_def)

lemma handle_scan_ok:
  assumes "ps2_ok ps2 q" "q h = map (Pair False) (scan_bytes s) @ tail" "scan_ok s" "kb_ok hist kb"
  shows "\<exists>kb1 h1. handle_keyboard_data ps2 kb h = (kb1, h1) \<and> kb_ok (s # hist) kb1 \<and> q h1 = tail"
proof -
  obtain st h1 where st: "read_status ps2 h = (st, h1)" "q h1 = q h" "bit st 0 \<longleftrightarrow> q h \<noteq> []"
    by (rule ps2_status[OF assms(1)])
  have r: "bit st 0" using st(3) assms(2) by (cases s) simp_all
  show ?thesis
  proof (cases s)
    case (Plain c p)
    then have "q h1 = (False, scan_byte c p) # tail" using st(2) assms(2) by simp
    then obtain h2 where d: "read_data ps2 h1 = (scan_byte c p, h2)" "q h2 = tail" by (rule ps2_data[OF assms(1)])
    have "handle_keyboard_data ps2 kb h = (handle_plain_data (scan_byte c p) kb, h2)"
      using scan_byte_not_prefix[of c p] assms(3) Plain by (simp add: handle_keyboard_data_def st(1) r d(1))
    then show ?thesis using plain_ok[OF assms(4), of c p] assms(3) Plain d(2) by simp
  next
    case (Extended c p)
    then have "q h1 = (False, 0xE0) # (False, scan_byte c p) # tail" using st(2) assms(2) by simp
    then obtain h2 where d: "read_data ps2 h1 = (0xE0, h2)" "q h2 = (False, scan_byte c p) # tail" by (rule ps2_data[OF assms(1)])
    obtain h3 where e: "read_data ps2 h2 = (scan_byte c p, h3)" "q h3 = tail" using d(2) by (rule ps2_data[OF assms(1)])
    have "handle_keyboard_data ps2 kb h =
        (case key_type_from_device (c OR 0x80) of None \<Rightarrow> kb | Some k \<Rightarrow> send_key p k kb, h3)"
      using assms(3) Extended
      by (cases "key_type_from_device (c OR 0x80)")
        (simp_all add: handle_keyboard_data_def st(1) r d(1) e(1) key_bit_extended scan_byte_bits prefix_ignored)
    then show ?thesis using extended_ok[OF assms(4), of c p] Extended e(2) by simp
  qed
qed

section \<open>What a mouse packet means\<close>

text \<open>
  The reference: the displacements are numbers of nine bits in two's complement, whose signs are in
  the first byte; the buttons are in the first and in the fourth byte, which is 0 when the mouse
  does not send it; the low half of the fourth byte is the wheel.
\<close>

definition displacement :: "bool \<Rightarrow> u8 \<Rightarrow> int" where
  "displacement negative b = uint b - (if negative then 256 else 0)"

definition wheel :: "int \<Rightarrow> ScrollType" where
  "wheel z = (if z = 1 then VerticalUp else if z = -1 then VerticalDown
     else if z = 2 then HorizontalRight else if z = -2 then HorizontalNegative else ScrollNone)"

definition mouse_report :: "u8 list \<Rightarrow> MouseEvent list" where
  "mouse_report bs =
     (let b0 = bs ! 0; b3 = (if length bs = 4 then bs ! 3 else 0) in
      if bit b0 6 \<or> bit b0 7 then []
      else [\<lparr>m_x = word_of_int (displacement (bit b0 4) (bs ! 1)), m_y = word_of_int (displacement (bit b0 5) (bs ! 2)),
             scroll_type = wheel (signed_take_bit 3 (uint b3)),
             buttons = flags [bit b0 0, bit b0 1, bit b0 2, bit b3 4, bit b3 5]\<rparr>])"

lemma packet_flags [simp]:
  "w AND X_OVERFLOW = 0 \<longleftrightarrow> \<not> bit w 6" "w AND Y_OVERFLOW = 0 \<longleftrightarrow> \<not> bit w 7"
  "w AND X_SIGN = 0 \<longleftrightarrow> \<not> bit w 4" "w AND Y_SIGN = 0 \<longleftrightarrow> \<not> bit w 5"
  by (rule and_flag, simp only: X_OVERFLOW_def Y_OVERFLOW_def X_SIGN_def Y_SIGN_def single_bit, simp)+

lemma sign_extend: "(if s then ucast b OR 0xFF00 else ucast b :: u16) = word_of_int (displacement s b)"
proof -
  have d: "(ucast b :: u16) AND 0xFF00 = 0"
  proof (rule bit_word_eqI)
    fix n assume "n < LENGTH(16)"
    have "bit (0xFF00 :: u16) n \<Longrightarrow> 8 \<le> n"
    proof -
      assume "bit (0xFF00 :: u16) n"
      moreover have "(0xFF00 :: u16) = push_bit 8 0xFF" by simp
      ultimately show "8 \<le> n" by (metis bit_push_bit_iff)
    qed
    then show "bit ((ucast b :: u16) AND 0xFF00) n \<longleftrightarrow> bit (0 :: u16) n"
      using bit_imp_le_length[of b n] by (auto simp: bit_simps)
  qed
  have "(ucast b :: u16) OR 0xFF00 = ucast b + 0xFF00" using word_plus_and_or[of "ucast b :: u16" "0xFF00"] d by simp
  also have "\<dots> = word_of_int (uint b - 256)" by (simp add: unsigned_ucast_eq flip: word_of_int_uint)
  finally show ?thesis by (simp add: displacement_def)
qed

lemma low_nibble: "uint (w AND 0b1111 :: u8) = uint w mod 16"
proof -
  have "w AND 0b1111 = take_bit 4 w" by (simp add: take_bit_eq_mask mask_eq_exp_minus_1)
  then have "uint (w AND 0b1111) = take_bit 4 (uint w)" by (simp only: unsigned_take_bit_eq)
  then show ?thesis by (simp only: take_bit_eq_mod) simp
qed

lemma wheel_nibble:
  "(if (w AND 0b1111) = 1 then VerticalUp else if (w AND 0b1111) = 0xF then VerticalDown
    else if (w AND 0b1111) = 2 then HorizontalRight else if (w AND 0b1111) = 0xE then HorizontalNegative else ScrollNone)
   = wheel (signed_take_bit 3 (uint w))" for w :: u8
proof -
  have s: "signed_take_bit 3 (uint w) = (uint w + 8) mod 16 - 8"
    by (simp add: signed_take_bit_eq_take_bit_shift take_bit_eq_mod)
  have n: "w AND 0b1111 = c \<longleftrightarrow> uint w mod 16 = uint c" for c by (simp add: word_uint_eq_iff low_nibble)
  have "(uint w + 8) mod 16 - 8 = (if uint w mod 16 < 8 then uint w mod 16 else uint w mod 16 - 16)" by presburger
  moreover have "0 \<le> uint w mod 16" "uint w mod 16 < 16" by simp_all
  ultimately show ?thesis unfolding s n wheel_def by auto
qed

lemma button_bits:
  "(b0 AND 0b111) OR push_bit 3 (drop_bit 4 b3 AND 0b11) = flags [bit b0 0, bit b0 1, bit b0 2, bit b3 4, bit b3 5]" for b0 b3 :: u8
  unfolding word8_bits less_8 by (auto simp: bit_simps bit_flags)

lemma mouse_event_report:
  assumes "length bs = 3 \<or> length bs = 4"
  shows "mouse_event (bs @ replicate (4 - length bs) 0) = (case mouse_report bs of [] \<Rightarrow> None | e # _ \<Rightarrow> Some e)"
proof -
  have n: "(bs @ replicate (4 - length bs) 0) ! i = bs ! i" if "i < 3" for i using assms that by (auto simp: nth_append)
  have n3: "(bs @ replicate (4 - length bs) 0) ! 3 = (if length bs = 4 then bs ! 3 else 0)"
    using assms by (auto simp: nth_append)
  show ?thesis
    using n[of 0] n[of 1] n[of 2]
    by (simp add: mouse_event_def mouse_report_def Let_def n3 wheel_nibble[simplified] button_bits[simplified] sign_extend[simplified])
qed

lemma handle_packet_ok:
  assumes "ps2_ok ps2 q" "q h = map (Pair True) bs @ tail" "length bs = (if has_extra_byte m then 4 else 3)"
  shows "\<exists>h1. handle_mouse_data ps2 m h = (m\<lparr>mouse_sent := mouse_sent m @ mouse_report bs\<rparr>, h1) \<and> q h1 = tail"
proof -
  obtain h1 where r: "read_bytes ps2 (length bs) h = (bs, h1)" "q h1 = tail"
    using read_bytes_ok[OF assms(1,2)] by (elim exE conjE)
  have "handle_mouse_data ps2 m h =
      (case mouse_event (bs @ replicate (4 - length bs) 0) of None \<Rightarrow> m | Some e \<Rightarrow> m\<lparr>mouse_sent := mouse_sent m @ [e]\<rparr>, h1)"
    using r(1) assms(3) by (simp add: handle_mouse_data_def Let_def)
  also have "\<dots> = (m\<lparr>mouse_sent := mouse_sent m @ mouse_report bs\<rparr>, h1)"
  proof -
    have "length bs = 3 \<or> length bs = 4" using assms(3) by (simp split: if_splits)
    then show ?thesis unfolding mouse_event_report by (simp add: mouse_report_def Let_def mouse_event_report)
  qed
  finally show ?thesis using r(2) by simp
qed

section \<open>All events that wait\<close>

datatype packet = FromKeyboard scan | FromMouse "u8 list"

fun packet_bytes :: "packet \<Rightarrow> (bool \<times> u8) list" where
  "packet_bytes (FromKeyboard s) = map (Pair False) (scan_bytes s)"
| "packet_bytes (FromMouse bs) = map (Pair True) bs"

fun packet_ok :: "bool \<Rightarrow> packet \<Rightarrow> bool" where
  "packet_ok extra (FromKeyboard s) \<longleftrightarrow> scan_ok s"
| "packet_ok extra (FromMouse bs) \<longleftrightarrow> length bs = (if extra then 4 else 3)"

fun key_scans :: "packet list \<Rightarrow> scan list" where
  "key_scans [] = []"
| "key_scans (FromKeyboard s # ps) = s # key_scans ps"
| "key_scans (FromMouse bs # ps) = key_scans ps"

fun mouse_reports :: "packet list \<Rightarrow> MouseEvent list" where
  "mouse_reports [] = []"
| "mouse_reports (FromKeyboard s # ps) = mouse_reports ps"
| "mouse_reports (FromMouse bs # ps) = mouse_report bs @ mouse_reports ps"

lemma fetch_none:
  assumes "ps2_ok ps2 q" "q h = []"
  shows "\<exists>h1. fetch_next_data ps2 km h = (False, km, h1) \<and> q h1 = []"
proof -
  obtain st h1 where st: "read_status ps2 h = (st, h1)" "q h1 = q h" "bit st 0 \<longleftrightarrow> q h \<noteq> []"
    by (rule ps2_status[OF assms(1)])
  then show ?thesis using assms(2) by (simp add: fetch_next_data_def)
qed

lemma fetch_packet:
  assumes "ps2_ok ps2 q" "q h = packet_bytes p @ tail" "packet_ok (has_extra_byte (mouse km)) p" "kb_ok hist (keyboard km)"
  shows "\<exists>km1 h1. fetch_next_data ps2 km h = (True, km1, h1) \<and> q h1 = tail
    \<and> kb_ok (rev (key_scans [p]) @ hist) (keyboard km1) \<and> has_extra_byte (mouse km1) = has_extra_byte (mouse km)
    \<and> mouse_sent (mouse km1) = mouse_sent (mouse km) @ mouse_reports [p]"
proof -
  obtain st h1 where st: "read_status ps2 h = (st, h1)" "q h1 = q h" "bit st 0 \<longleftrightarrow> q h \<noteq> []" "\<not> bit st 7"
    and m: "q h \<noteq> [] \<Longrightarrow> bit st 5 \<longleftrightarrow> fst (hd (q h))"
    by (rule ps2_status[OF assms(1)]) blast
  show ?thesis
  proof (cases p)
    case (FromKeyboard s)
    obtain kb1 h2 where k: "handle_keyboard_data ps2 (keyboard km) h1 = (kb1, h2)" "kb_ok (s # hist) kb1" "q h2 = tail"
      using handle_scan_ok[of ps2 q h1 s tail hist "keyboard km"] assms st(2) FromKeyboard by auto
    have "q h \<noteq> []" "\<not> fst (hd (q h))" using assms(2) FromKeyboard by (cases s; simp)+
    then show ?thesis using k st m FromKeyboard by (simp add: fetch_next_data_def)
  next
    case (FromMouse bs)
    obtain h2 where k: "handle_mouse_data ps2 (mouse km) h1 = ((mouse km)\<lparr>mouse_sent := mouse_sent (mouse km) @ mouse_report bs\<rparr>, h2)" "q h2 = tail"
      using handle_packet_ok[of ps2 q h1 bs tail "mouse km"] assms st(2) FromMouse by auto
    have "bs \<noteq> []" using assms(3) FromMouse by (auto split: if_splits)
    then have "q h \<noteq> []" "fst (hd (q h))" using assms(2) FromMouse by (cases bs; simp)+
    then show ?thesis using k st m FromMouse assms(4) by (simp add: fetch_next_data_def)
  qed
qed

lemma read_all_ok:
  assumes "ps2_ok ps2 q"
  shows "q h = concat (map packet_bytes ps) \<Longrightarrow> list_all (packet_ok (has_extra_byte (mouse km))) ps \<Longrightarrow> length ps < fuel \<Longrightarrow>
    kb_ok hist (keyboard km) \<Longrightarrow>
    \<exists>km1 h1. read_all_events fuel ps2 km h = Ret (km1, h1) \<and> q h1 = [] \<and> kb_ok (rev (key_scans ps) @ hist) (keyboard km1)
      \<and> mouse_sent (mouse km1) = mouse_sent (mouse km) @ mouse_reports ps"
proof (induction ps arbitrary: h km fuel hist)
  case Nil
  obtain n where n: "fuel = Suc n" using Nil.prems(3) by (cases fuel) simp_all
  show ?case using fetch_none[OF assms, of h km] Nil.prems n by auto
next
  case (Cons p ps)
  obtain n where n: "fuel = Suc n" using Cons.prems(3) by (cases fuel) simp_all
  obtain km1 h1 where f: "fetch_next_data ps2 km h = (True, km1, h1)" "q h1 = concat (map packet_bytes ps)"
    "kb_ok (rev (key_scans [p]) @ hist) (keyboard km1)" "has_extra_byte (mouse km1) = has_extra_byte (mouse km)"
    "mouse_sent (mouse km1) = mouse_sent (mouse km) @ mouse_reports [p]"
    using fetch_packet[OF assms, of h p "concat (map packet_bytes ps)" km hist] Cons.prems by auto
  obtain km2 h2 where r: "read_all_events n ps2 km1 h1 = Ret (km2, h2)" "q h2 = []"
    "kb_ok (rev (key_scans ps) @ (rev (key_scans [p]) @ hist)) (keyboard km2)"
    "mouse_sent (mouse km2) = mouse_sent (mouse km1) @ mouse_reports ps"
    using Cons.IH[OF f(2) _ _ f(3), of n] Cons.prems f(4) n by auto
  have "key_scans (p # ps) = key_scans [p] @ key_scans ps" "mouse_reports (p # ps) = mouse_reports [p] @ mouse_reports ps"
    by (cases p; simp)+
  then show ?case using f r n by simp
qed


definition queue_controller :: "(bool \<times> u8) list Ps2" where
  "queue_controller = \<lparr>
     read_status = (\<lambda>q. (case q of [] \<Rightarrow> 0 | (m, _) # _ \<Rightarrow> flags [True, False, False, False, False, m], q)),
     read_data = (\<lambda>q. case q of [] \<Rightarrow> (0, []) | (_, b) # bs \<Rightarrow> (b, bs))\<rparr>"

lemma queue_controller_ok: "ps2_ok queue_controller (\<lambda>q. q)"
  unfolding ps2_ok_def queue_controller_def by (auto simp: bit_flags split: list.splits)

text \<open>A capital letter with the shift key, a movement of the mouse between the two, and an arrow key.\<close>

definition some_packets :: "packet list" where
  "some_packets = [FromKeyboard (Plain 0x2A True), FromMouse [0x19, 0xFF, 0x03, 0x0F], FromKeyboard (Plain 0x1E True),
     FromKeyboard (Extended 0x48 True)]"


section \<open>From the driver to the user program\<close>

text \<open>What the broadcast queue does for a reader that it has not overtaken.\<close>

definition receiver_ok :: "('r \<Rightarrow> 'e option \<times> 'r) \<Rightarrow> ('r \<Rightarrow> 'e list) \<Rightarrow> bool" where
  "receiver_ok recv pend \<longleftrightarrow>
     (\<forall>r. (case pend r of
        [] \<Rightarrow> fst (recv r) = None \<and> pend (snd (recv r)) = []
      | e # es \<Rightarrow> fst (recv r) = Some e \<and> pend (snd (recv r)) = es))"

lemma recv_some:
  assumes "receiver_ok recv pend" "pend r = e # es"
  obtains r1 where "recv r = (Some e, r1)" "pend r1 = es"
proof -
  have "fst (recv r) = Some e \<and> pend (snd (recv r)) = es"
    using assms(1)[unfolded receiver_ok_def, rule_format, of r] assms(2) by simp
  then show thesis using that[of "snd (recv r)"] by (simp add: prod_eq_iff)
qed

lemma recv_none:
  assumes "receiver_ok recv pend" "pend r = []"
  obtains r1 where "recv r = (None, r1)" "pend r1 = []"
proof -
  have "fst (recv r) = None \<and> pend (snd (recv r)) = []"
    using assms(1)[unfolded receiver_ok_def, rule_format, of r] assms(2) by simp
  then show thesis using that[of "snd (recv r)"] by (simp add: prod_eq_iff)
qed

lemma copy_whole: "length bs = length buf \<Longrightarrow> copy_from_slice 0 bs buf = bs"
  by (rule nth_equalityI) (simp_all add: copy_from_slice_def)

lemma read_one:
  assumes "receiver_ok recv pend" "length buf = sz" "0 < sz" "\<And>e. length (as_bytes e) = sz"
  shows "pend r = e # es \<Longrightarrow> \<exists>r1. read_events sz as_bytes recv 0 buf r = (sz, as_bytes e, r1) \<and> pend r1 = es"
    "pend r = [] \<Longrightarrow> \<exists>r1. read_events sz as_bytes recv 0 buf r = (0, buf, r1) \<and> pend r1 = []"
proof -
  assume "pend r = e # es"
  then obtain r1 where r: "recv r = (Some e, r1)" "pend r1 = es" by (rule recv_some[OF assms(1)])
  have "read_events sz as_bytes recv 0 buf r = read_events sz as_bytes recv sz (as_bytes e) r1"
    using assms(2-4) by (subst read_events.simps) (simp add: r(1) copy_whole)
  also have "\<dots> = (sz, as_bytes e, r1)" using assms(3,4) by (subst read_events.simps) simp
  finally show "\<exists>r1. read_events sz as_bytes recv 0 buf r = (sz, as_bytes e, r1) \<and> pend r1 = es" using r(2) by simp
next
  assume "pend r = []"
  then obtain r1 where r: "recv r = (None, r1)" "pend r1 = []" by (rule recv_none[OF assms(1)])
  have "read_events sz as_bytes recv 0 buf r = (0, buf, r1)" using assms(2,3) by (subst read_events.simps) (simp add: r(1))
  then show "\<exists>r1. read_events sz as_bytes recv 0 buf r = (0, buf, r1) \<and> pend r1 = []" using r(2) by simp
qed

definition key_valid :: "Key \<Rightarrow> bool" where
  "key_valid k \<longleftrightarrow> unat (key_type k) < KEY_TYPES \<and> \<not> bit (key_modifiers k) 7"

definition event_valid :: "MouseEvent \<Rightarrow> bool" where
  "event_valid e \<longleftrightarrow> buttons e AND 0b11111 = buttons e"

lemma encoded_size [simp]: "length (Key_as_bytes k) = Key_BYTES_SIZE" "length (MouseEvent_as_bytes e) = MouseEvent_BYTES_SIZE"
  "0 < Key_BYTES_SIZE" "0 < MouseEvent_BYTES_SIZE" "0 \<noteq> Key_BYTES_SIZE" "0 \<noteq> MouseEvent_BYTES_SIZE"
  "Key_BYTES_SIZE \<noteq> 0" "MouseEvent_BYTES_SIZE \<noteq> 0"
  by (simp_all add: Key_as_bytes_def Key_BYTES_SIZE_def MouseEvent_as_bytes_def MouseEvent_BYTES_SIZE_def le_bytes_def)

lemma get_key_ok:
  assumes "receiver_ok recv pend"
  shows "pend r = k # ks \<Longrightarrow> key_valid k \<Longrightarrow> \<exists>r1. get_key_event recv r = Ret (Some k, r1) \<and> pend r1 = ks"
    "pend r = [] \<Longrightarrow> \<exists>r1. get_key_event recv r = Ret (None, r1) \<and> pend r1 = []"
  using read_one(1)[OF assms, of "replicate Key_BYTES_SIZE 0" Key_BYTES_SIZE Key_as_bytes r k ks] Key_roundtrip[of k]
    read_one(2)[OF assms, of "replicate Key_BYTES_SIZE 0" Key_BYTES_SIZE Key_as_bytes r]
  by (auto simp: get_key_event_def keyboard_read_def key_valid_def)

lemma get_mouse_ok:
  assumes "receiver_ok recv pend"
  shows "pend r = k # ks \<Longrightarrow> event_valid k \<Longrightarrow> \<exists>r1. get_mouse_event recv r = Ret (Some k, r1) \<and> pend r1 = ks"
    "pend r = [] \<Longrightarrow> \<exists>r1. get_mouse_event recv r = Ret (None, r1) \<and> pend r1 = []"
  using read_one(1)[OF assms, of "replicate MouseEvent_BYTES_SIZE 0" MouseEvent_BYTES_SIZE MouseEvent_as_bytes r k ks] MouseEvent_roundtrip[of k]
    read_one(2)[OF assms, of "replicate MouseEvent_BYTES_SIZE 0" MouseEvent_BYTES_SIZE MouseEvent_as_bytes r]
  by (auto simp: get_mouse_event_def mouse_read_def event_valid_def)

lemma iter_keys_ok:
  assumes "receiver_ok recv pend"
  shows "pend r = ks \<Longrightarrow> list_all key_valid ks \<Longrightarrow> length ks < n \<Longrightarrow> \<exists>r1. iter_keys n recv r = Ret (ks, r1) \<and> pend r1 = []"
proof (induction n arbitrary: r ks)
  case 0
  then show ?case by simp
next
  case (Suc n)
  show ?case
  proof (cases ks)
    case Nil
    then show ?thesis using get_key_ok(2)[OF assms, of r] Suc.prems(1) by auto
  next
    case (Cons k ks1)
    then obtain r1 where g: "get_key_event recv r = Ret (Some k, r1)" "pend r1 = ks1"
      using get_key_ok(1)[OF assms, of r k ks1] Suc.prems by auto
    then show ?thesis using Suc.IH[of r1 ks1] Suc.prems Cons by auto
  qed
qed

lemma iter_events_ok:
  assumes "receiver_ok recv pend"
  shows "pend r = es \<Longrightarrow> list_all event_valid es \<Longrightarrow> length es < n \<Longrightarrow> \<exists>r1. iter_events n recv r = Ret (es, r1) \<and> pend r1 = []"
proof (induction n arbitrary: r es)
  case 0
  then show ?case by simp
next
  case (Suc n)
  show ?case
  proof (cases es)
    case Nil
    then show ?thesis using get_mouse_ok(2)[OF assms, of r] Suc.prems(1) by auto
  next
    case (Cons e es1)
    then obtain r1 where g: "get_mouse_event recv r = Ret (Some e, r1)" "pend r1 = es1"
      using get_mouse_ok(1)[OF assms, of r e es1] Suc.prems by auto
    then show ?thesis using Suc.IH[of r1 es1] Suc.prems Cons by auto
  qed
qed

lemma key_numbers:
  "KeyType ''F12'' = 88" "KeyType ''_None1'' = 0" "KeyType ''_None2'' = 84" "KeyType ''_None3'' = 85" "KeyType ''_None4'' = 86"
  "KeyType ''LeftCtrl'' = 0x1D" "KeyType ''NumLock'' = 0x45"
  by code_simp+

lemma extended_names: "list_all (\<lambda>(_, n). n \<in> set KeyType_names) extended_keys"
  by code_simp

lemma position_less: "x \<in> set xs \<Longrightarrow> position x xs < length xs"
  by (induction xs) auto

lemma keys_valid:
  assumes "key_type_from_device c = Some k"
  shows "unat k < KEY_TYPES"
proof (cases "c AND 0x80 = 0")
  case True
  then have "k \<le> 88" using assms by (auto simp: key_type_from_device_def key_numbers split: if_splits)
  then show ?thesis by (simp add: KEY_TYPES_def word_le_nat_alt)
next
  case False
  then obtain n where n: "map_of extended_keys (c AND NOT 0x80) = Some n" and k: "k = KeyType n"
    using assms by (auto simp: key_type_from_device_def)
  have "n \<in> set KeyType_names" using extended_names map_of_SomeD[OF n] by (auto simp: list_all_iff)
  then have "position n KeyType_names < KEY_TYPES" using position_less key_tables(1) by metis
  then show ?thesis using k by (simp add: KeyType_def KEY_TYPES_def unat_of_nat)
qed

lemma reports_valid: "list_all key_valid (reports h)"
proof (induction h)
  case (Cons s h)
  have m: "\<not> bit (modifiers_of g) 7" for g by (simp add: modifiers_of_def bit_flags)
  have "list_all key_valid (report h s)"
    by (cases s) (auto simp: key_valid_def m keys_valid split: option.split)
  then show ?case using Cons by simp
qed simp

lemma mouse_reports_valid: "list_all event_valid (mouse_reports ps)"
proof -
  have "flags [a, b, c, d, e] AND 0b11111 = flags [a, b, c, d, e]" for a b c d e
    unfolding word8_bits bit_and_iff low_bits bit_flags by auto
  then have "list_all event_valid (mouse_report bs)" for bs by (simp add: mouse_report_def Let_def event_valid_def)
  then show ?thesis by (induction ps rule: mouse_reports.induct) simp_all
qed


definition list_recv :: "'e list \<Rightarrow> 'e option \<times> 'e list" where
  "list_recv es = (case es of [] \<Rightarrow> (None, []) | e # es1 \<Rightarrow> (Some e, es1))"

lemma list_recv_ok: "receiver_ok list_recv (\<lambda>es. es)"
  by (auto simp: receiver_ok_def list_recv_def split: list.split)

lemma report_length: "length (reports h) \<le> length h" "length (mouse_reports ps) \<le> length ps"
proof -
  show "length (reports h) \<le> length h"
  proof (induction h)
    case (Cons s h)
    have "length (report h s) \<le> 1" by (cases s) (auto split: option.split)
    then show ?case using Cons by simp
  qed simp
  have m: "length (mouse_report bs) \<le> 1" for bs by (simp add: mouse_report_def Let_def)
  show "length (mouse_reports ps) \<le> length ps"
  proof (induction ps rule: mouse_reports.induct)
    case (3 bs ps)
    then show ?case using add_le_mono[OF m[of bs] "3.IH"] by simp
  qed simp_all
qed


section \<open>Two limits of the driver\<close>

text \<open>Releasing one shift key clears the modifier although the other one is held.\<close>

lemma second_shift_lost:
  "modifiers_of [Plain 0x36 False, Plain 0x36 True, Plain 0x2A True] = 0"
  by (simp add: modifiers_of_def flags_def)

text \<open>
  The pause key sends E1 1D 45 E1 9D C5.  The prefix E1 is not recognised: the rest is reported as the
  left control key and as the num lock key, which is toggled.
\<close>

lemma pause_toggles_num_lock:
  "scan_byte 0x61 False = 0xE1"
  "reports [Plain 0x45 False, Plain 0x1D False, Plain 0x61 False, Plain 0x45 True, Plain 0x1D True, Plain 0x61 False]
   = [\<lparr>key_pressed = True, key_modifiers = CTRL, key_type = KeyType ''LeftCtrl''\<rparr>,
      \<lparr>key_pressed = True, key_modifiers = CTRL OR NUM_LOCK, key_type = KeyType ''NumLock''\<rparr>,
      \<lparr>key_pressed = False, key_modifiers = NUM_LOCK, key_type = KeyType ''LeftCtrl''\<rparr>,
      \<lparr>key_pressed = False, key_modifiers = NUM_LOCK, key_type = KeyType ''NumLock''\<rparr>]"
  by (simp_all add: scan_byte_def KEY_PRESSED_def modifiers_of_def flags_def key_type_from_device_def key_numbers
      CTRL_def NUM_LOCK_def)

end
