(* ===== verification/Scheduler.thy ===== *)
theory Scheduler
  imports Process Clock Link_Syscalls
begin

unbundle bit_operations_syntax

text \<open>
  Model of kernel/src/process/scheduler.rs on the one CPU the kernel starts, of the system calls of
  kernel/src/process/syscalls/mod.rs that reach it, and of the interrupts that enter it.

  The scheduler, its lock, the shutdown flag, the owner of the screen, the process id counter, the
  CPU and its floating point state form the \<open>kernel\<close>.  The lock is the \<open>Mutex\<close> of \<open>Spin_Locks\<close>,
  taken and released by its own steps, so that the nesting of disabled interrupts is exact.
  \<open>dropped\<close> lists the processes whose value has been dropped, oldest first; what the drop does to
  memory is \<open>process_drop\<close>.  The time and, among equal priorities, the choice of \<open>BinaryHeap::pop\<close>
  are arguments.
\<close>

section \<open>State\<close>

datatype ProcessState = Running | Scheduled | WaitingForPid pid | WaitingForTime ClockTime

record ('f, 'd) SchedulerProcess =
  sp_process :: "('f, 'd) Process"
  sp_state :: ProcessState
  priority_counter :: nat

record ('f, 'd) Scheduler =
  interrupt_initialized :: bool
  scheduled_processes :: "('f, 'd) SchedulerProcess list"
  running_waiting_procs :: "('f, 'd) SchedulerProcess btmap"
  exited_processes :: "('f, 'd) Process list"
  max_priority :: nat

definition U64_MAX :: nat where
  "U64_MAX = 2 ^ 64 - 1"

definition MIN_PRIORITY_VALUE :: nat where
  "MIN_PRIORITY_VALUE = 100"

definition Scheduler_new :: "('f, 'd) Scheduler" where
  "Scheduler_new = \<lparr>interrupt_initialized = False, scheduled_processes = [], running_waiting_procs = [],
     exited_processes = [], max_priority = U64_MAX\<rparr>"

text \<open>The fields of \<open>Cpu\<close> the scheduler uses, after the ones of the interrupt nesting.\<close>

record sched_cpu = cpu +
  cpu_context :: "ProcessContext option"
  process_id :: pid
  scheduling :: bool

record ('f, 'd) kernel =
  scheduler :: "('f, 'd) Scheduler"
  sched_lock :: shared_lock
  is_shutdown :: bool
  vga_owner :: vga
  next_pid :: pid
  this_cpu :: sched_cpu
  fpu :: FxSave
  dropped :: "('f, 'd) Process list"

abbreviation sp_id :: "('f, 'd) SchedulerProcess \<Rightarrow> pid" where
  "sp_id sp \<equiv> p_id (sp_process sp)"

section \<open>The lock of the scheduler\<close>

text \<open>\<open>lock\<close> and the drop of its guard, run to the end by a CPU nobody competes with.\<close>

definition lock_mutex :: "shared_lock \<Rightarrow> 'a cpu_scheme \<Rightarrow> 'a lock_step" where
  "lock_mutex l c =
     bind_exec (mutex_lock l c) (\<lambda>(l1, c1).
     bind_exec (acquire Mutex True False l1 c1) (\<lambda>(l2, c2).
     if pc c2 = Acquired then take_ownership Mutex l2 c2 else Panic OutOfFuel))"

definition unlock_mutex :: "shared_lock \<Rightarrow> 'a cpu_scheme \<Rightarrow> 'a lock_step" where
  "unlock_mutex l c = bind_exec (mutex_drop l c) (\<lambda>(l1, c1). unlock_and_leave l1 c1)"

definition lock_scheduler :: "('f, 'd) kernel \<Rightarrow> ('f, 'd) kernel exec" where
  "lock_scheduler k =
     bind_exec (lock_mutex (sched_lock k) (this_cpu k)) (\<lambda>(l, c). Ret (k\<lparr>sched_lock := l, this_cpu := c\<rparr>))"

definition unlock_scheduler :: "('f, 'd) kernel \<Rightarrow> ('f, 'd) kernel exec" where
  "unlock_scheduler k =
     bind_exec (unlock_mutex (sched_lock k) (this_cpu k)) (\<lambda>(l, c). Ret (k\<lparr>sched_lock := l, this_cpu := c\<rparr>))"

definition cpu_push_cli :: "('f, 'd) kernel \<Rightarrow> ('f, 'd) kernel exec" where
  "cpu_push_cli k = bind_exec (push_cli (this_cpu k)) (\<lambda>c. Ret (k\<lparr>this_cpu := c\<rparr>))"

definition cpu_pop_cli :: "('f, 'd) kernel \<Rightarrow> ('f, 'd) kernel exec" where
  "cpu_pop_cli k = bind_exec (pop_cli (this_cpu k)) (\<lambda>c. Ret (k\<lparr>this_cpu := c\<rparr>))"

section \<open>The run queue\<close>

text \<open>
  \<open>BinaryHeap\<close>: \<open>pop\<close> removes an element that no other exceeds; among equals the position
  is not specified and \<open>pick\<close> chooses it.
\<close>

definition heap_maxima :: "('f, 'd) SchedulerProcess list \<Rightarrow> nat list" where
  "heap_maxima q = filter (\<lambda>i. \<forall>x \<in> set q. priority_counter x \<le> priority_counter (q ! i)) [0..<length q]"

definition heap_pop ::
  "nat \<Rightarrow> ('f, 'd) SchedulerProcess list
     \<Rightarrow> (('f, 'd) SchedulerProcess \<times> ('f, 'd) SchedulerProcess list) option" where
  "heap_pop pick q =
     (if q = [] then None
      else let i = heap_maxima q ! (pick mod length (heap_maxima q)) in
        Some (q ! i, take i q @ drop (Suc i) q))"

definition reschedule_process :: "('f, 'd) SchedulerProcess \<Rightarrow> ('f, 'd) kernel \<Rightarrow> ('f, 'd) kernel exec" where
  "reschedule_process sp k =
     (let s = scheduler k in
      if is_shutdown k
      then bind_exec (process_exit 0xFF (vga_owner k) (sp_process sp)) (\<lambda>(v, p).
           Ret (k\<lparr>vga_owner := v, scheduler := s\<lparr>exited_processes := exited_processes s @ [p]\<rparr>\<rparr>))
      else Ret (k\<lparr>scheduler := s\<lparr>scheduled_processes :=
             scheduled_processes s @ [sp\<lparr>priority_counter := max_priority s, sp_state := Scheduled\<rparr>]\<rparr>\<rparr>))"

text \<open>\<open>push_process\<close> of the scheduler, and the function of that name that takes the lock.\<close>

definition scheduler_push_process :: "('f, 'd) Process \<Rightarrow> ('f, 'd) kernel \<Rightarrow> ('f, 'd) kernel exec" where
  "scheduler_push_process p k =
     reschedule_process
       \<lparr>sp_process = p, sp_state = Scheduled, priority_counter = max_priority (scheduler k)\<rparr> k"

definition push_process :: "('f, 'd) Process \<Rightarrow> ('f, 'd) kernel \<Rightarrow> ('f, 'd) kernel exec" where
  "push_process p k =
     bind_exec (lock_scheduler k) (\<lambda>k1.
     bind_exec (scheduler_push_process p k1) unlock_scheduler)"

definition reset_scheduled_processes_counters :: "('f, 'd) Scheduler \<Rightarrow> ('f, 'd) Scheduler" where
  "reset_scheduled_processes_counters s =
     s\<lparr>scheduled_processes := map (\<lambda>p. p\<lparr>priority_counter := U64_MAX\<rparr>) (scheduled_processes s)\<rparr>"

section \<open>Waking up\<close>

text \<open>
  The closure of \<open>retain_mut\<close> over the exited processes, for one running or waiting process: it
  returns whether the process is to be woken, the process, and the exited processes kept and
  dropped.
\<close>

fun retain_exits ::
  "('f, 'd) SchedulerProcess \<Rightarrow> bool \<Rightarrow> ('f, 'd) Process list
     \<Rightarrow> (bool \<times> ('f, 'd) SchedulerProcess \<times> ('f, 'd) Process list \<times> ('f, 'd) Process list) exec" where
  "retain_exits sp remove [] = Ret (remove, sp, [], [])"
| "retain_exits sp remove (e # es) =
     (let found_parent = (p_parent_id e = sp_id sp) in
      bind_exec (if found_parent then add_child_exit (p_id e) (p_exit_code e) (sp_process sp)
                 else Ret (sp_process sp)) (\<lambda>p1.
      bind_exec (if sp_state sp = WaitingForPid (p_id e)
                 then assert_exec (c_cs (p_context p1) AND 3 = 3)
                        (Ret (True, p1\<lparr>p_context := (p_context p1)\<lparr>c_rax := scast (p_exit_code e)\<rparr>\<rparr>))
                 else Ret (remove, p1)) (\<lambda>(remove1, p2).
      bind_exec (retain_exits (sp\<lparr>sp_process := p2\<rparr>) remove1 es) (\<lambda>(r, sp', kept, gone).
      Ret (r, sp', if found_parent then kept else e # kept, if found_parent then e # gone else gone)))))"

text \<open>
  \<open>extract_if\<close> over the running and waiting processes in the order of their ids: the processes to
  reschedule, the ones that stay, and the exited processes kept and dropped.
\<close>

fun wake_scan ::
  "ClockTime \<Rightarrow> ('f, 'd) SchedulerProcess btmap \<Rightarrow> ('f, 'd) Process list
     \<Rightarrow> (('f, 'd) SchedulerProcess list \<times> ('f, 'd) SchedulerProcess btmap
         \<times> ('f, 'd) Process list \<times> ('f, 'd) Process list) exec" where
  "wake_scan now [] exited = Ret ([], [], exited, [])"
| "wake_scan now ((i, sp) # m) exited =
     bind_exec (case sp_state sp of
         WaitingForTime t \<Rightarrow> Ret (t \<le> now, sp, exited, [])
       | Scheduled \<Rightarrow> Panic (Explicit ''We can't have Scheduled state here'')
       | _ \<Rightarrow> retain_exits sp False exited) (\<lambda>(remove, sp1, exited1, gone1).
     bind_exec (wake_scan now m exited1) (\<lambda>(woken, stay, exited2, gone2).
     Ret (if remove then sp1 # woken else woken, if remove then stay else (i, sp1) # stay,
          exited2, gone1 @ gone2)))"

fun reschedule_all :: "('f, 'd) SchedulerProcess list \<Rightarrow> ('f, 'd) kernel \<Rightarrow> ('f, 'd) kernel exec" where
  "reschedule_all [] k = Ret k"
| "reschedule_all (sp # sps) k = bind_exec (reschedule_process sp k) (reschedule_all sps)"

text \<open>The exits whose parent is in the run queue; every other one is forgotten.\<close>

fun give_exit ::
  "('f, 'd) Process \<Rightarrow> ('f, 'd) SchedulerProcess list \<Rightarrow> ('f, 'd) SchedulerProcess list exec" where
  "give_exit e [] = Ret []"
| "give_exit e (sp # sps) =
     bind_exec (if sp_id sp = p_parent_id e then add_child_exit (p_id e) (p_exit_code e) (sp_process sp)
                else Ret (sp_process sp)) (\<lambda>p.
     bind_exec (give_exit e sps) (\<lambda>sps'. Ret (sp\<lparr>sp_process := p\<rparr> # sps')))"

fun give_exits ::
  "('f, 'd) Process list \<Rightarrow> ('f, 'd) SchedulerProcess list \<Rightarrow> ('f, 'd) SchedulerProcess list exec" where
  "give_exits [] sps = Ret sps"
| "give_exits (e # es) sps = bind_exec (give_exit e sps) (give_exits es)"

definition try_wake_waiting_processes :: "ClockTime \<Rightarrow> ('f, 'd) kernel \<Rightarrow> ('f, 'd) kernel exec" where
  "try_wake_waiting_processes now k =
     (let s = scheduler k in
      bind_exec (wake_scan now (running_waiting_procs s) (exited_processes s)) (\<lambda>(woken, rw, exited, gone).
      bind_exec (reschedule_all woken
          (k\<lparr>scheduler := s\<lparr>running_waiting_procs := rw, exited_processes := exited\<rparr>,
             dropped := dropped k @ gone\<rparr>)) (\<lambda>k1.
      let s1 = scheduler k1 in
      bind_exec (give_exits (exited_processes s1) (scheduled_processes s1)) (\<lambda>sched.
      Ret (k1\<lparr>scheduler := s1\<lparr>scheduled_processes := sched, exited_processes := []\<rparr>,
              dropped := dropped k1 @ exited_processes s1\<rparr>)))))"

section \<open>Shutdown\<close>

fun exit_scheduled :: "vga \<Rightarrow> ('f, 'd) SchedulerProcess list \<Rightarrow> (vga \<times> ('f, 'd) Process list) exec" where
  "exit_scheduled v [] = Ret (v, [])"
| "exit_scheduled v (sp # sps) =
     bind_exec (process_exit 0 v (sp_process sp)) (\<lambda>(v1, p).
     bind_exec (exit_scheduled v1 sps) (\<lambda>(v2, ps). Ret (v2, p # ps)))"

fun exit_waiting ::
  "vga \<Rightarrow> ('f, 'd) SchedulerProcess btmap
     \<Rightarrow> (vga \<times> ('f, 'd) SchedulerProcess btmap \<times> ('f, 'd) Process list) exec" where
  "exit_waiting v [] = Ret (v, [], [])"
| "exit_waiting v ((i, sp) # m) =
     (if sp_state sp = Running
      then bind_exec (exit_waiting v m) (\<lambda>(v1, m1, ps). Ret (v1, (i, sp) # m1, ps))
      else bind_exec (process_exit 0 v (sp_process sp)) (\<lambda>(v1, p).
           bind_exec (exit_waiting v1 m) (\<lambda>(v2, m2, ps). Ret (v2, m2, p # ps))))"

definition exit_idle_processes :: "('f, 'd) kernel \<Rightarrow> ('f, 'd) kernel exec" where
  "exit_idle_processes k =
     (let s = scheduler k in
      bind_exec (exit_scheduled (vga_owner k) (scheduled_processes s)) (\<lambda>(v1, ps1).
      bind_exec (exit_waiting v1 (running_waiting_procs s)) (\<lambda>(v2, rw, ps2).
      Ret (k\<lparr>vga_owner := v2, scheduler := s\<lparr>scheduled_processes := [], running_waiting_procs := rw\<rparr>,
             dropped := dropped k @ ps1 @ ps2\<rparr>))))"

definition stop_scheduler :: "('f, 'd) kernel \<Rightarrow> ('f, 'd) kernel" where
  "stop_scheduler k = k\<lparr>is_shutdown := True\<rparr>"

section \<open>The scheduling loop\<close>

text \<open>The choice of the next process: lines 252 to 289 of \<open>schedule\<close>.\<close>

definition run_next :: "nat \<Rightarrow> ('f, 'd) kernel \<Rightarrow> ('f, 'd) kernel exec" where
  "run_next pick k =
     (let s = (if scheduled_processes (scheduler k) \<noteq> []
                  \<and> (\<forall>p \<in> set (scheduled_processes (scheduler k)). priority_counter p < MIN_PRIORITY_VALUE)
               then reset_scheduled_processes_counters (scheduler k) else scheduler k) in
      case heap_pop pick (scheduled_processes s) of
        None \<Rightarrow> Ret (k\<lparr>scheduler := s\<rparr>)
      | Some (next_proc, others) \<Rightarrow>
          assert_exec (sp_state next_proc = Scheduled)
         (bind_exec
            (if is_shutdown k
             then Ret (k\<lparr>scheduler := s\<lparr>scheduled_processes := others\<rparr>, dropped := dropped k @ [sp_process next_proc]\<rparr>)
             else bind_exec (usize_sub (priority_counter next_proc)
                               (6 - unat (PriorityLevel_to_u64 (p_priority (sp_process next_proc))))) (\<lambda>counter.
                  Ret (k\<lparr>scheduler := s\<lparr>scheduled_processes := others, max_priority := counter,
                           running_waiting_procs := bt_insert (sp_id next_proc)
                             (next_proc\<lparr>sp_state := Running, priority_counter := counter\<rparr>) (running_waiting_procs s)\<rparr>,
                         this_cpu := (this_cpu k)\<lparr>process_id := sp_id next_proc,
                           cpu_context := Some (p_context (sp_process next_proc)), scheduling := True\<rparr>\<rparr>)))
            cpu_pop_cli))"

datatype sched_outcome = Stop | EnterProcess | HaltCpu

definition schedule_iteration :: "ClockTime \<Rightarrow> nat \<Rightarrow> ('f, 'd) kernel \<Rightarrow> (sched_outcome \<times> ('f, 'd) kernel) exec" where
  "schedule_iteration now pick k =
     assert_exec (cpu_context (this_cpu k) = None)
    (bind_exec (lock_scheduler k) (\<lambda>k1.
     bind_exec (if is_shutdown k1 then exit_idle_processes k1 else Ret k1) (\<lambda>k2.
     bind_exec (cpu_push_cli k2) (\<lambda>k3.
     bind_exec (try_wake_waiting_processes now k3) (\<lambda>k4.
     bind_exec (run_next pick k4) (\<lambda>k5.
     bind_exec (unlock_scheduler k5) (\<lambda>k6.
     Ret (if is_shutdown k5 \<and> scheduled_processes (scheduler k5) = []
             \<and> running_waiting_procs (scheduler k5) = [] \<and> cpu_context (this_cpu k5) = None then Stop
          else if cpu_context (this_cpu k6) \<noteq> None then EnterProcess
          else HaltCpu, k6))))))))"

definition init_interrupt :: "('f, 'd) kernel \<Rightarrow> ('f, 'd) kernel exec" where
  "init_interrupt k =
     bind_exec (lock_scheduler k) (\<lambda>k1.
     unlock_scheduler (k1\<lparr>scheduler := (scheduler k1)\<lparr>interrupt_initialized := True\<rparr>\<rparr>))"

section \<open>The current process\<close>

definition with_current_process ::
  "(('f, 'd) Process \<Rightarrow> 'r \<times> ('f, 'd) Process) \<Rightarrow> ('f, 'd) kernel \<Rightarrow> ('r \<times> ('f, 'd) kernel) exec" where
  "with_current_process f k =
     bind_exec (lock_scheduler k) (\<lambda>k1.
     let s = scheduler k1; i = process_id (this_cpu k1) in
     case bt_get (running_waiting_procs s) i of
       None \<Rightarrow> Panic UnwrapNone
     | Some sp \<Rightarrow>
         assert_exec (sp_state sp = Running)
        (let (r, p) = f (sp_process sp) in
         bind_exec (unlock_scheduler (k1\<lparr>scheduler := s\<lparr>running_waiting_procs :=
             bt_insert i (sp\<lparr>sp_process := p\<rparr>) (running_waiting_procs s)\<rparr>\<rparr>)) (\<lambda>k2.
         Ret (r, k2))))"

definition with_process ::
  "pid \<Rightarrow> (('f, 'd) Process \<Rightarrow> 'r \<times> ('f, 'd) Process) \<Rightarrow> ('f, 'd) kernel \<Rightarrow> ('r \<times> ('f, 'd) kernel) exec" where
  "with_process pid f k =
     bind_exec (lock_scheduler k) (\<lambda>k1.
     let s = scheduler k1 in
     bind_exec (case bt_get (running_waiting_procs s) pid of
         Some sp \<Rightarrow> (let (r, p) = f (sp_process sp) in
           Ret (r, s\<lparr>running_waiting_procs := bt_insert pid (sp\<lparr>sp_process := p\<rparr>) (running_waiting_procs s)\<rparr>))
       | None \<Rightarrow>
           (case filter (\<lambda>i. sp_id (scheduled_processes s ! i) = pid) [0..<length (scheduled_processes s)] of
              [] \<Rightarrow> Panic UnwrapNone
            | i # _ \<Rightarrow> (let sp = scheduled_processes s ! i; (r, p) = f (sp_process sp) in
                Ret (r, s\<lparr>scheduled_processes := (scheduled_processes s)[i := sp\<lparr>sp_process := p\<rparr>]\<rparr>)))) (\<lambda>(r, s1).
     bind_exec (unlock_scheduler (k1\<lparr>scheduler := s1\<rparr>)) (\<lambda>k2. Ret (r, k2))))"

definition take_current_process :: "('f, 'd) kernel \<Rightarrow> (('f, 'd) SchedulerProcess \<times> ('f, 'd) kernel) exec" where
  "take_current_process k =
     bind_exec (lock_scheduler k) (\<lambda>k1.
     let s = scheduler k1; i = process_id (this_cpu k1) in
     case bt_get (running_waiting_procs s) i of
       None \<Rightarrow> Panic UnwrapNone
     | Some sp \<Rightarrow>
         bind_exec (unlock_scheduler (k1\<lparr>scheduler := s\<lparr>running_waiting_procs :=
             bt_remove i (running_waiting_procs s)\<rparr>\<rparr>)) (\<lambda>k2.
         assert_exec (sp_state sp = Running) (Ret (sp, k2))))"

text \<open>\<open>swap_context\<close> with the context of the CPU, which is then taken from it.\<close>

definition swap_and_take ::
  "InterruptAllSavedState \<Rightarrow> ('f, 'd) kernel \<Rightarrow> (ProcessContext \<times> InterruptAllSavedState \<times> ('f, 'd) kernel) exec" where
  "swap_and_take a k =
     (case cpu_context (this_cpu k) of
        None \<Rightarrow> Panic UnwrapNone
      | Some c \<Rightarrow> (let (f, c1, a1) = swap_context (fpu k) c a in
          Ret (c1, a1, k\<lparr>fpu := f, this_cpu := (this_cpu k)\<lparr>cpu_context := None\<rparr>\<rparr>)))"

definition exit_current_process ::
  "i32 \<Rightarrow> InterruptAllSavedState \<Rightarrow> ('f, 'd) kernel \<Rightarrow> (InterruptAllSavedState \<times> ('f, 'd) kernel) exec" where
  "exit_current_process exit_code a k =
     assert_exec (cpu_context (this_cpu k) \<noteq> None)
    (bind_exec (cpu_push_cli k) (\<lambda>k1.
     bind_exec (take_current_process k1) (\<lambda>(sp, k2).
     bind_exec (swap_and_take a k2) (\<lambda>(c, a1, k3).
     bind_exec (process_exit exit_code (vga_owner k3) ((sp_process sp)\<lparr>p_context := c\<rparr>)) (\<lambda>(v, p).
     bind_exec (lock_scheduler (k3\<lparr>vga_owner := v\<rparr>)) (\<lambda>k4.
     let s = scheduler k4 in
     bind_exec (unlock_scheduler (k4\<lparr>scheduler := s\<lparr>exited_processes := exited_processes s @ [p]\<rparr>\<rparr>)) (\<lambda>k5.
     bind_exec (cpu_pop_cli k5) (\<lambda>k6. Ret (a1, k6)))))))))"

text \<open>The closure of \<open>sleep_current_process\<close> and \<open>wait_for_pid\<close>, with the \<open>pop_cli\<close> after it.\<close>

definition park_current ::
  "ProcessState \<Rightarrow> InterruptAllSavedState \<Rightarrow> ('f, 'd) kernel \<Rightarrow> (InterruptAllSavedState \<times> ('f, 'd) kernel) exec" where
  "park_current st a k =
     bind_exec (lock_scheduler k) (\<lambda>k1.
     let i = process_id (this_cpu k1) in
     case bt_get (running_waiting_procs (scheduler k1)) i of
       None \<Rightarrow> Panic UnwrapNone
     | Some sp \<Rightarrow>
         assert_exec (sp_state sp = Running)
        (bind_exec (cpu_push_cli k1) (\<lambda>k2.
         bind_exec (swap_and_take a k2) (\<lambda>(c, a1, k3).
         let s = scheduler k3 in
         bind_exec (unlock_scheduler (k3\<lparr>scheduler := s\<lparr>running_waiting_procs :=
             bt_insert i (sp\<lparr>sp_state := st, sp_process := (sp_process sp)\<lparr>p_context := c\<rparr>\<rparr>)
               (running_waiting_procs s)\<rparr>\<rparr>)) (\<lambda>k4.
         bind_exec (cpu_pop_cli k4) (\<lambda>k5. Ret (a1, k5)))))))"

definition sleep_current_process ::
  "ClockTime \<Rightarrow> ClockTime \<Rightarrow> InterruptAllSavedState \<Rightarrow> ('f, 'd) kernel
     \<Rightarrow> (InterruptAllSavedState \<times> ('f, 'd) kernel) exec" where
  "sleep_current_process now time a k =
     assert_exec (cpu_context (this_cpu k) \<noteq> None)
    (bind_exec (clock_add now time) (\<lambda>deadline. park_current (WaitingForTime deadline) a k))"

definition yield_current_if_any ::
  "InterruptAllSavedState \<Rightarrow> ('f, 'd) kernel \<Rightarrow> (InterruptAllSavedState \<times> ('f, 'd) kernel) exec" where
  "yield_current_if_any a k =
     (if cpu_context (this_cpu k) = None \<or> scheduling (this_cpu k) then Ret (a, k)
      else bind_exec (cpu_push_cli k) (\<lambda>k1.
           bind_exec (take_current_process k1) (\<lambda>(sp, k2).
           bind_exec (swap_and_take a k2) (\<lambda>(c, a1, k3).
           bind_exec (lock_scheduler k3) (\<lambda>k4.
           bind_exec (reschedule_process (sp\<lparr>sp_process := (sp_process sp)\<lparr>p_context := c\<rparr>\<rparr>) k4) (\<lambda>k5.
           bind_exec (unlock_scheduler k5) (\<lambda>k6.
           bind_exec (cpu_pop_cli k6) (\<lambda>k7. Ret (a1, k7)))))))))"

definition is_process_running :: "pid \<Rightarrow> ('f, 'd) kernel \<Rightarrow> (bool \<times> ('f, 'd) kernel) exec" where
  "is_process_running pid k =
     bind_exec (lock_scheduler k) (\<lambda>k1.
     let found = (pid \<in> set (map fst (running_waiting_procs (scheduler k1))
                            @ map sp_id (scheduled_processes (scheduler k1)))) in
     bind_exec (unlock_scheduler k1) (\<lambda>k2. Ret (found, k2)))"

definition wait_for_pid ::
  "InterruptAllSavedState \<Rightarrow> pid \<Rightarrow> ('f, 'd) kernel \<Rightarrow> (bool \<times> InterruptAllSavedState \<times> ('f, 'd) kernel) exec" where
  "wait_for_pid a pid k =
     assert_exec (cpu_context (this_cpu k) \<noteq> None)
    (bind_exec (is_process_running pid k) (\<lambda>(process_found, k1).
     if \<not> process_found then Ret (False, a, k1)
     else bind_exec (park_current (WaitingForPid pid) a k1) (\<lambda>(a1, k2). Ret (True, a1, k2))))"

section \<open>System calls\<close>

type_synonym ('f, 'd) syscall_outcome = "(SyscallResult \<times> InterruptAllSavedState \<times> ('f, 'd) kernel) exec"

text \<open>\<open>to_arg_err!\<close> for the second argument, the only one that is checked here.\<close>

definition arg_err1 :: "SyscallArgError \<Rightarrow> SyscallError" where
  "arg_err1 e = InvalidArgument None (Some e) None None None None None"

definition sys_exit :: "InterruptAllSavedState \<Rightarrow> ('f, 'd) kernel \<Rightarrow> ('f, 'd) syscall_outcome" where
  "sys_exit a k =
     (let exit_code = (ucast (r_rcx (rest a)) :: i32) in
      bind_exec (exit_current_process exit_code a k) (\<lambda>(a1, k1). Ret (Inr (scast exit_code), a1, k1)))"

definition sys_wait_pid :: "InterruptAllSavedState \<Rightarrow> ('f, 'd) kernel \<Rightarrow> ('f, 'd) syscall_outcome" where
  "sys_wait_pid a k =
     (let pid = unat (r_rcx (rest a)); block = (r_rdx (rest a) \<noteq> 0) in
      bind_exec (with_current_process (get_child_exit pid) k) (\<lambda>(process_exit, k1).
      case process_exit of
        Some exit_code \<Rightarrow> Ret (Inr (scast exit_code), a, k1)
      | None \<Rightarrow>
          if \<not> block
          then bind_exec (is_process_running pid k1) (\<lambda>(running, k2).
               Ret (Inl (if running then ProcessStillRunning else PidNotFound), a, k2))
          else bind_exec (wait_for_pid a pid k1) (\<lambda>(ok, a1, k2).
               Ret (if ok then Inr 0 else Inl PidNotFound, a1, k2))))"

definition sys_sleep :: "ClockTime \<Rightarrow> InterruptAllSavedState \<Rightarrow> ('f, 'd) kernel \<Rightarrow> ('f, 'd) syscall_outcome" where
  "sys_sleep now a k =
     (let secs = unat (r_rcx (rest a)); nanosecs = unat (r_rdx (rest a)) in
      if nanosecs \<ge> NANOS_PER_SEC then Ret (Inl (arg_err1 InvalidNanoseconds), a, k)
      else bind_exec (sleep_current_process now (ClockTime nanosecs secs)
                        (a\<lparr>rest := (rest a)\<lparr>r_rax := 0\<rparr>\<rparr>) k) (\<lambda>(a1, k1).
           Ret (Inr 0, a1, k1)))"

definition sys_priority :: "InterruptAllSavedState \<Rightarrow> ('f, 'd) kernel \<Rightarrow> ('f, 'd) syscall_outcome" where
  "sys_priority a k =
     (let pid = unat (r_rcx (rest a)); level = r_rdx (rest a) in
      if level \<noteq> 0 \<and> PriorityLevel_from_u64 level = None then Ret (Inl (arg_err1 GeneralInvalid), a, k)
      else bind_exec (with_process pid (\<lambda>p.
               let p1 = (case PriorityLevel_from_u64 level of None \<Rightarrow> p | Some l \<Rightarrow> p\<lparr>p_priority := l\<rparr>) in
               (p_priority p1, p1)) k) (\<lambda>(priority, k1).
           Ret (Inr (PriorityLevel_to_u64 priority), a, k1)))"

text \<open>
  The end of \<open>handle_syscall\<close>, after the call itself: the result goes to \<open>rax\<close> of the state the
  interrupt returns with, and the process yields.
\<close>

definition finish_syscall :: "('f, 'd) syscall_outcome \<Rightarrow> (InterruptAllSavedState \<times> ('f, 'd) kernel) exec" where
  "finish_syscall r =
     bind_exec r (\<lambda>(result, a, k).
     bind_exec (syscall_result_to_u64 result) (\<lambda>v.
     yield_current_if_any (a\<lparr>rest := (rest a)\<lparr>r_rax := v\<rparr>\<rparr>) k))"

text \<open>
  The table of system calls: the four that reach the scheduler are the ones above; \<open>other\<close> stands
  for the rest of them.
\<close>

definition SYSCALLS ::
  "(nat \<Rightarrow> InterruptAllSavedState \<Rightarrow> ('f, 'd) kernel \<Rightarrow> ('f, 'd) syscall_outcome)
     \<Rightarrow> ClockTime \<Rightarrow> nat \<Rightarrow> InterruptAllSavedState \<Rightarrow> ('f, 'd) kernel \<Rightarrow> ('f, 'd) syscall_outcome" where
  "SYSCALLS other now n =
     (if n = 5 then sys_exit else if n = 9 then sys_wait_pid else if n = 17 then sys_sleep now
      else if n = 21 then sys_priority else other n)"

definition handle_syscall ::
  "(nat \<Rightarrow> InterruptAllSavedState \<Rightarrow> ('f, 'd) kernel \<Rightarrow> ('f, 'd) syscall_outcome)
     \<Rightarrow> ClockTime \<Rightarrow> InterruptAllSavedState \<Rightarrow> ('f, 'd) kernel \<Rightarrow> (InterruptAllSavedState \<times> ('f, 'd) kernel) exec" where
  "handle_syscall other now a k =
     (let n = unat (r_rax (rest a)) in
      finish_syscall (if n \<ge> NUM_SYSCALLS then Ret (Inl SyscallNotFound, a, k) else SYSCALLS other now n a k))"

section \<open>Interrupts\<close>

definition scheduler_interrupt_handler ::
  "InterruptAllSavedState \<Rightarrow> ('f, 'd) kernel \<Rightarrow> (InterruptAllSavedState \<times> ('f, 'd) kernel) exec" where
  "scheduler_interrupt_handler a k =
     assert_exec (f_cs (frame a) AND 3 = 0)
    (case cpu_context (this_cpu k) of
       None \<Rightarrow> Panic AssertFailed
     | Some c \<Rightarrow>
         assert_exec (scheduling (this_cpu k))
        (assert_exec (interrupts_disabled (this_cpu k))
           (let (f, c1, a1) = swap_context (fpu k) c a in
            Ret (a1, k\<lparr>fpu := f, this_cpu := (this_cpu k)\<lparr>scheduling := False, cpu_context := Some c1\<rparr>\<rparr>))))"

definition syscall_interrupt_handler ::
  "(nat \<Rightarrow> InterruptAllSavedState \<Rightarrow> ('f, 'd) kernel \<Rightarrow> ('f, 'd) syscall_outcome)
     \<Rightarrow> ClockTime \<Rightarrow> InterruptAllSavedState \<Rightarrow> ('f, 'd) kernel \<Rightarrow> (InterruptAllSavedState \<times> ('f, 'd) kernel) exec" where
  "syscall_interrupt_handler other now a k =
     assert_exec (f_cs (frame a) AND 3 = 3)
    (assert_exec (cpu_context (this_cpu k) \<noteq> None) (handle_syscall other now a k))"

text \<open>
  What the processor does around a handler: it saves the interrupt flag with the other flags, clears
  it (the descriptors are interrupt gates), and restores it from the state the handler returns.
\<close>

definition save_flags :: "sched_cpu \<Rightarrow> InterruptAllSavedState \<Rightarrow> InterruptAllSavedState" where
  "save_flags c a = a\<lparr>frame := (frame a)\<lparr>f_rflags :=
     (if interrupt_flag c then set_bit 9 (f_rflags (frame a)) else unset_bit 9 (f_rflags (frame a)))\<rparr>\<rparr>"

definition run_interrupt ::
  "(InterruptAllSavedState \<Rightarrow> ('f, 'd) kernel \<Rightarrow> (InterruptAllSavedState \<times> ('f, 'd) kernel) exec)
     \<Rightarrow> InterruptAllSavedState \<Rightarrow> ('f, 'd) kernel \<Rightarrow> (InterruptAllSavedState \<times> ('f, 'd) kernel) exec" where
  "run_interrupt handler a k =
     bind_exec (handler (save_flags (this_cpu k) a) (k\<lparr>this_cpu := (this_cpu k)\<lparr>interrupt_flag := False\<rparr>\<rparr>)) (\<lambda>(a1, k1).
     Ret (a1, k1\<lparr>this_cpu := (this_cpu k1)\<lparr>interrupt_flag := bit (f_rflags (frame a1)) 9\<rparr>\<rparr>))"

section \<open>The running kernel\<close>

text \<open>
  What can happen next: an iteration of the loop, a timer interrupt, a system call of the running
  process, the first process at boot, and the start of the shutdown.  The calls outside the
  scheduler are of two kinds: those that change the running process (\<open>CallTouch\<close>, by a function on it) and
  \<open>sys_spawn\<close>, which adds the process it has made (\<open>CallSpawn\<close>).
\<close>

datatype ('f, 'd) event =
    Schedule ClockTime nat InterruptAllSavedState
  | Timer InterruptAllSavedState
  | Call ClockTime InterruptAllSavedState
  | CallTouch "('f, 'd) Process \<Rightarrow> ('f, 'd) Process" SyscallResult InterruptAllSavedState
  | CallSpawn "('f, 'd) Process" InterruptAllSavedState
  | Boot "('f, 'd) Process"
  | Shutdown

definition other_touch ::
  "(('f, 'd) Process \<Rightarrow> ('f, 'd) Process) \<Rightarrow> SyscallResult \<Rightarrow> nat \<Rightarrow> InterruptAllSavedState \<Rightarrow> ('f, 'd) kernel
     \<Rightarrow> ('f, 'd) syscall_outcome" where
  "other_touch f r n a k = bind_exec (with_current_process (\<lambda>p. ((), f p)) k) (\<lambda>(_, k1). Ret (r, a, k1))"

definition other_spawn ::
  "('f, 'd) Process \<Rightarrow> nat \<Rightarrow> InterruptAllSavedState \<Rightarrow> ('f, 'd) kernel \<Rightarrow> ('f, 'd) syscall_outcome" where
  "other_spawn p n a k =
     bind_exec (push_process p (k\<lparr>next_pid := next_pid k + 1\<rparr>)) (\<lambda>k1. Ret (Inr (of_nat (p_id p)), a, k1))"

fun step :: "('f, 'd) event \<Rightarrow> ('f, 'd) kernel \<Rightarrow> ('f, 'd) kernel exec" where
  "step (Schedule now pick a) k =
     bind_exec (schedule_iteration now pick k) (\<lambda>(outcome, k1).
     if outcome = EnterProcess
     then bind_exec (run_interrupt scheduler_interrupt_handler a k1) (\<lambda>(_, k2). Ret k2)
     else Ret k1)"
| "step (Timer a) k = bind_exec (run_interrupt yield_current_if_any a k) (\<lambda>(_, k1). Ret k1)"
| "step (Call now a) k =
     bind_exec (run_interrupt (syscall_interrupt_handler (\<lambda>n a k. Ret (Inl SyscallNotFound, a, k)) now) a k)
       (\<lambda>(_, k1). Ret k1)"
| "step (CallTouch f r a) k =
     bind_exec (run_interrupt (syscall_interrupt_handler (other_touch f r) (ClockTime 0 0)) a k) (\<lambda>(_, k1). Ret k1)"
| "step (CallSpawn p a) k =
     bind_exec (run_interrupt (syscall_interrupt_handler (other_spawn p) (ClockTime 0 0)) a k) (\<lambda>(_, k1). Ret k1)"
| "step (Boot p) k = push_process p (k\<lparr>next_pid := next_pid k + 1\<rparr>)"
| "step Shutdown k = Ret (stop_scheduler k)"

definition scheduler_calls :: "nat set" where
  "scheduler_calls = {5, 9, 17, 21}"

definition new_process :: "('f, 'd) Process \<Rightarrow> ('f, 'd) kernel \<Rightarrow> bool" where
  "new_process p k \<longleftrightarrow> p_id p = next_pid k \<and> children_exits p = [] \<and> ctx_ok (p_context p) \<and> next_pid k < I64_MAX"

definition user_trap :: "InterruptAllSavedState \<Rightarrow> ('f, 'd) kernel \<Rightarrow> bool" where
  "user_trap a k \<longleftrightarrow> cpu_context (this_cpu k) \<noteq> None \<and> f_cs (frame a) AND 3 = 3"

text \<open>
  Which events can happen in a state.  The loop starts with interrupts enabled, and goes on when
  a process has given the CPU back or when an interrupt ends the \<open>hlt\<close> of an idle iteration, so an
  iteration needs enabled interrupts.  The shutdown is started by the interrupt of the power button
  or by a process that writes to the power device.  \<open>CallTouch\<close> is any change of the running process that leaves its
  identity, its saved registers and the exits of its children alone, with a result that is not a
  number with the top bit set.
\<close>

fun enabled :: "('f, 'd) event \<Rightarrow> ('f, 'd) kernel \<Rightarrow> bool" where
  "enabled (Schedule now pick a) k \<longleftrightarrow> cpu_context (this_cpu k) = None \<and> interrupt_flag (this_cpu k) \<and> f_cs (frame a) AND 3 = 0"
| "enabled (Timer a) k \<longleftrightarrow> interrupt_flag (this_cpu k)"
| "enabled (Call now a) k \<longleftrightarrow> user_trap a k
     \<and> (unat (r_rax (rest a)) \<in> scheduler_calls \<or> NUM_SYSCALLS \<le> unat (r_rax (rest a))) \<and> clock_ok now"
| "enabled (CallTouch f r a) k \<longleftrightarrow> user_trap a k \<and> unat (r_rax (rest a)) < NUM_SYSCALLS
     \<and> unat (r_rax (rest a)) \<notin> scheduler_calls \<and> is_ret (syscall_result_to_u64 r)
     \<and> (\<forall>p. p_id (f p) = p_id p \<and> p_parent_id (f p) = p_parent_id p \<and> p_context (f p) = p_context p
            \<and> children_exits (f p) = children_exits p)"
| "enabled (CallSpawn p a) k \<longleftrightarrow> user_trap a k \<and> unat (r_rax (rest a)) = 6 \<and> new_process p k"
| "enabled (Boot p) k \<longleftrightarrow> cpu_context (this_cpu k) = None \<and> new_process p k \<and> next_pid k = 0"
| "enabled Shutdown k \<longleftrightarrow> interrupt_flag (this_cpu k) \<or> cpu_context (this_cpu k) \<noteq> None"

definition boot_kernel :: "vga \<Rightarrow> FxSave \<Rightarrow> ('f, 'd) kernel" where
  "boot_kernel v f =
     \<lparr>scheduler = Scheduler_new, sched_lock = new_lock, is_shutdown = False, vga_owner = v, next_pid = 0,
      this_cpu = \<lparr>cpu_id = 0, n_cli = 0, old_interrupt_enable = False, interrupt_flag = True, pc = Idle,
        guards = 0, read_guards = 0, cpu_context = None, process_id = 0, scheduling = False\<rparr>,
      fpu = f, dropped = []\<rparr>"

inductive kernel_reach :: "('f, 'd) kernel \<Rightarrow> bool" where
  kernel_boot: "kernel_reach (boot_kernel v f)"
| kernel_step: "kernel_reach k \<Longrightarrow> enabled e k \<Longrightarrow> step e k = Ret k' \<Longrightarrow> kernel_reach k'"

end
