(* ===== verification/Scheduler_Proofs.thy ===== *)
theory Scheduler_Proofs
  imports Scheduler
begin

unbundle bit_operations_syntax

text \<open>
  The invariant of the running kernel and its preservation by every event: each process id that was
  given out is in exactly one place, at most one process runs and it is the one the CPU names, the
  lock of the scheduler is free between events, and the exits of children are recorded once.
\<close>

section \<open>Interrupt nesting around the lock\<close>

definition cli_in :: "'a cpu_scheme \<Rightarrow> 'a cpu_scheme" where
  "cli_in c = c\<lparr>n_cli := n_cli c + 1, interrupt_flag := False,
     old_interrupt_enable := (if n_cli c = 0 then interrupt_flag c else old_interrupt_enable c)\<rparr>"

definition cli_out :: "'a cpu_scheme \<Rightarrow> 'a cpu_scheme" where
  "cli_out c = c\<lparr>n_cli := n_cli c - 1,
     interrupt_flag := (n_cli c = 1 \<and> old_interrupt_enable c)\<rparr>"

text \<open>What a balanced section leaves behind: only the remembered interrupt flag changes.\<close>

definition cli_settle :: "'a cpu_scheme \<Rightarrow> 'a cpu_scheme" where
  "cli_settle c = c\<lparr>old_interrupt_enable := (if n_cli c = 0 then interrupt_flag c else old_interrupt_enable c)\<rparr>"

definition cli_ok :: "'a cpu_scheme \<Rightarrow> bool" where
  "cli_ok c \<longleftrightarrow> (0 < n_cli c \<longrightarrow> \<not> interrupt_flag c)"

lemma push_cli_eq: "cli_ok c \<Longrightarrow> n_cli c + 1 < usize_bound \<Longrightarrow> push_cli c = Ret (cli_in c)"
  by (cases c) (auto simp: push_cli_def cli_in_def cli_ok_def Let_def usize_bound_def)

lemma pop_cli_eq: "0 < n_cli c \<Longrightarrow> \<not> interrupt_flag c \<Longrightarrow> pop_cli c = Ret (cli_out c)"
  by (cases c) (auto simp: pop_cli_def cli_out_def Let_def)

lemma cli_in_facts [simp]:
  "n_cli (cli_in c) = n_cli c + 1" "\<not> interrupt_flag (cli_in c)" "cli_ok (cli_in c)"
  "pc (cli_in c) = pc c" "guards (cli_in c) = guards c" "cpu_id (cli_in c) = cpu_id c"
  by (simp_all add: cli_in_def cli_ok_def)

lemma cli_out_in: "cli_ok c \<Longrightarrow> cli_out (cli_in c) = cli_settle c"
  by (cases c) (auto simp: cli_in_def cli_out_def cli_settle_def cli_ok_def)

lemma cli_settle_facts [simp]:
  "n_cli (cli_settle c) = n_cli c" "interrupt_flag (cli_settle c) = interrupt_flag c" "cli_ok (cli_settle c) = cli_ok c"
  "pc (cli_settle c) = pc c" "guards (cli_settle c) = guards c" "cpu_id (cli_settle c) = cpu_id c"
  "cli_settle (cli_settle c) = cli_settle c" "cli_in (cli_settle c) = cli_in c"
  by (simp_all add: cli_settle_def cli_ok_def cli_in_def)

lemma cli_sched_facts [simp]:
  "cpu_context (cli_in c) = cpu_context c" "process_id (cli_in c) = process_id c" "scheduling (cli_in c) = scheduling c"
  "cpu_context (cli_out c) = cpu_context c" "process_id (cli_out c) = process_id c" "scheduling (cli_out c) = scheduling c"
  "cpu_context (cli_settle c) = cpu_context c" "process_id (cli_settle c) = process_id c"
  "scheduling (cli_settle c) = scheduling c"
  by (simp_all add: cli_in_def cli_out_def cli_settle_def)

text \<open>Between events the lock is free; \<open>locked\<close> is the state with the guard held.\<close>

definition cpu_ready :: "sched_cpu \<Rightarrow> bool" where
  "cpu_ready c \<longleftrightarrow> pc c = Idle \<and> guards c = 0 \<and> cpu_id c = 0"

lemma cpu_readyD: "cpu_ready c \<Longrightarrow> pc c = Idle" "cpu_ready c \<Longrightarrow> guards c = 0" "cpu_ready c \<Longrightarrow> cpu_id c = 0"
  by (simp_all add: cpu_ready_def)

definition room :: "sched_cpu \<Rightarrow> bool" where
  "room c \<longleftrightarrow> n_cli c + 2 < usize_bound"

definition held_lock :: shared_lock where
  "held_lock = new_lock\<lparr>state := WRITE_LOCKED, owner_cpu := 0\<rparr>"

definition in_lock :: "sched_cpu \<Rightarrow> sched_cpu" where
  "in_lock c = (cli_in c)\<lparr>guards := 1\<rparr>"

lemma lock_mutex_free:
  assumes "cpu_ready c" "cli_ok c" "n_cli c + 1 < usize_bound"
  shows "lock_mutex new_lock c = Ret (held_lock, in_lock c)"
  using assms by (simp add: lock_mutex_def mutex_lock_def push_cli_eq acquire_def try_write_lock_def take_ownership_def
      new_lock_def cpu_ready_def held_lock_def in_lock_def)

lemma unlock_mutex_held:
  assumes "pc c = Idle" "guards c = 1" "0 < n_cli c" "\<not> interrupt_flag c"
  shows "unlock_mutex held_lock c = Ret (new_lock, cli_out (c\<lparr>guards := 0\<rparr>))"
  using assms by (cases c) (auto simp: unlock_mutex_def mutex_drop_def unlock_and_leave_def write_unlock_def held_lock_def
      new_lock_def pop_cli_def cli_out_def Let_def)

lemma lock_scheduler_free:
  assumes "sched_lock k = new_lock" "cpu_ready (this_cpu k)" "cli_ok (this_cpu k)" "n_cli (this_cpu k) + 1 < usize_bound"
  shows "lock_scheduler k = Ret (k\<lparr>sched_lock := held_lock, this_cpu := in_lock (this_cpu k)\<rparr>)"
  using assms by (simp add: lock_scheduler_def lock_mutex_free)

lemma unlock_scheduler_held:
  assumes "sched_lock k = held_lock" "pc (this_cpu k) = Idle" "guards (this_cpu k) = 1" "0 < n_cli (this_cpu k)"
    and "\<not> interrupt_flag (this_cpu k)"
  shows "unlock_scheduler k = Ret (k\<lparr>sched_lock := new_lock, this_cpu := cli_out ((this_cpu k)\<lparr>guards := 0\<rparr>)\<rparr>)"
  using assms by (simp add: unlock_scheduler_def unlock_mutex_held)

lemma in_lock_facts [simp]:
  "pc (in_lock c) = pc c" "guards (in_lock c) = 1" "n_cli (in_lock c) = n_cli c + 1"
  "\<not> interrupt_flag (in_lock c)" "cpu_id (in_lock c) = cpu_id c"
  "cpu_context (in_lock c) = cpu_context c" "process_id (in_lock c) = process_id c"
  "scheduling (in_lock c) = scheduling c" "cli_ok (in_lock c)"
  by (simp_all add: in_lock_def cli_in_def cli_ok_def)

lemma cpu_ready_facts [simp]:
  "cpu_ready (cli_in c) = cpu_ready c" "cpu_ready (cli_settle c) = cpu_ready c"
  "cpu_ready (c\<lparr>cpu_context := x\<rparr>) = cpu_ready c" "cpu_ready (c\<lparr>scheduling := b\<rparr>) = cpu_ready c"
  "cpu_ready (c\<lparr>process_id := i\<rparr>) = cpu_ready c" "cpu_ready (c\<lparr>interrupt_flag := b\<rparr>) = cpu_ready c"
  "cli_ok (c\<lparr>cpu_context := x\<rparr>) = cli_ok c" "cli_ok (c\<lparr>scheduling := b\<rparr>) = cli_ok c"
  "cli_ok (c\<lparr>process_id := i\<rparr>) = cli_ok c" "cli_ok (c\<lparr>interrupt_flag := False\<rparr>)"
  by (simp_all add: cpu_ready_def cli_in_def cli_settle_def cli_ok_def)

lemma unlocked_cpu:
  "cpu_ready c \<Longrightarrow> cli_ok c \<Longrightarrow> cli_out ((in_lock c)\<lparr>guards := 0\<rparr>) = cli_settle c"
  by (cases c) (auto simp: in_lock_def cli_in_def cli_out_def cli_settle_def cli_ok_def cpu_ready_def)

definition calm :: "('f, 'd) kernel \<Rightarrow> bool" where
  "calm k \<longleftrightarrow> sched_lock k = new_lock \<and> cpu_ready (this_cpu k) \<and> cli_ok (this_cpu k) \<and> room (this_cpu k)"

lemmas section_simps = calm_def room_def lock_scheduler_free unlock_scheduler_held unlocked_cpu cpu_readyD Let_def

lemma with_current_process_eq:
  assumes "calm k" "bt_get (running_waiting_procs (scheduler k)) (process_id (this_cpu k)) = Some sp" "sp_state sp = Running"
  shows "with_current_process f k = Ret (fst (f (sp_process sp)),
    k\<lparr>scheduler := (scheduler k)\<lparr>running_waiting_procs := bt_insert (process_id (this_cpu k))
         (sp\<lparr>sp_process := snd (f (sp_process sp))\<rparr>) (running_waiting_procs (scheduler k))\<rparr>,
      this_cpu := cli_settle (this_cpu k)\<rparr>)"
  using assms by (cases k) (simp add: with_current_process_def section_simps split: prod.splits)

lemma take_current_process_eq:
  assumes "calm k" "bt_get (running_waiting_procs (scheduler k)) (process_id (this_cpu k)) = Some sp" "sp_state sp = Running"
  shows "take_current_process k = Ret (sp,
    k\<lparr>scheduler := (scheduler k)\<lparr>running_waiting_procs :=
         bt_remove (process_id (this_cpu k)) (running_waiting_procs (scheduler k))\<rparr>,
      this_cpu := cli_settle (this_cpu k)\<rparr>)"
  using assms by (cases k) (simp add: take_current_process_def section_simps)

lemma is_process_running_eq:
  assumes "calm k"
  shows "is_process_running pid k = Ret (pid \<in> fst ` set (running_waiting_procs (scheduler k))
      \<or> pid \<in> sp_id ` set (scheduled_processes (scheduler k)), k\<lparr>this_cpu := cli_settle (this_cpu k)\<rparr>)"
  using assms by (cases k) (simp add: is_process_running_def section_simps)

lemma push_process_eq:
  assumes "calm k"
  shows "push_process p k =
    (if is_shutdown k
     then bind_exec (process_exit 0xFF (vga_owner k) p) (\<lambda>(v, q).
       Ret (k\<lparr>vga_owner := v, scheduler := (scheduler k)\<lparr>exited_processes := exited_processes (scheduler k) @ [q]\<rparr>,
              this_cpu := cli_settle (this_cpu k)\<rparr>))
     else Ret (k\<lparr>scheduler := (scheduler k)\<lparr>scheduled_processes := scheduled_processes (scheduler k)
              @ [\<lparr>sp_process = p, sp_state = Scheduled, priority_counter = max_priority (scheduler k)\<rparr>]\<rparr>,
              this_cpu := cli_settle (this_cpu k)\<rparr>))"
  using assms by (cases k) (simp add: push_process_def scheduler_push_process_def reschedule_process_def section_simps
      process_exit_def vga_release_def assert_exec_def split: option.splits)

lemma cpu_push_cli_eq: "cli_ok (this_cpu k) \<Longrightarrow> n_cli (this_cpu k) + 1 < usize_bound
    \<Longrightarrow> cpu_push_cli k = Ret (k\<lparr>this_cpu := cli_in (this_cpu k)\<rparr>)"
  by (simp add: cpu_push_cli_def push_cli_eq)

lemma cpu_pop_cli_eq: "0 < n_cli (this_cpu k) \<Longrightarrow> \<not> interrupt_flag (this_cpu k)
    \<Longrightarrow> cpu_pop_cli k = Ret (k\<lparr>this_cpu := cli_out (this_cpu k)\<rparr>)"
  by (simp add: cpu_pop_cli_def pop_cli_eq)

text \<open>The two ends of a switch back to the kernel: the process loses the CPU and its registers are kept.\<close>

lemma parked_cpu:
  "cpu_ready c \<Longrightarrow> cli_ok c \<Longrightarrow>
    cli_out (cli_out ((cli_in (in_lock c))\<lparr>cpu_context := None, guards := 0\<rparr>)) = (cli_settle c)\<lparr>cpu_context := None\<rparr>"
  "cpu_ready c \<Longrightarrow> cli_ok c \<Longrightarrow> cli_out ((cli_in c)\<lparr>cpu_context := None\<rparr>) = (cli_settle c)\<lparr>cpu_context := None\<rparr>"
  by (cases c; auto simp: in_lock_def cli_in_def cli_out_def cli_settle_def cli_ok_def cpu_ready_def)+

lemma swap_and_take_eq:
  "cpu_context (this_cpu k) = Some c \<Longrightarrow> swap_and_take a k = Ret (saved_context (fpu k) a, snd (snd (swap_context (fpu k) c a)),
     k\<lparr>fpu := c_fxsave c, this_cpu := (this_cpu k)\<lparr>cpu_context := None\<rparr>\<rparr>)"
  using swap_context_saves[of "fpu k" c a] swap_context_fpu[of "fpu k" c a]
  by (cases "swap_context (fpu k) c a") (simp add: swap_and_take_def)

lemma park_current_eq:
  assumes "calm k" "bt_get (running_waiting_procs (scheduler k)) (process_id (this_cpu k)) = Some sp" "sp_state sp = Running"
    and "cpu_context (this_cpu k) = Some c"
  shows "park_current st a k = Ret (snd (snd (swap_context (fpu k) c a)),
    k\<lparr>scheduler := (scheduler k)\<lparr>running_waiting_procs := bt_insert (process_id (this_cpu k))
         (sp\<lparr>sp_state := st, sp_process := (sp_process sp)\<lparr>p_context := saved_context (fpu k) a\<rparr>\<rparr>)
         (running_waiting_procs (scheduler k))\<rparr>,
      fpu := c_fxsave c, this_cpu := (cli_settle (this_cpu k))\<lparr>cpu_context := None\<rparr>\<rparr>)"
proof -
  have "cli_out (cli_out ((cli_in (in_lock (this_cpu k)))\<lparr>cpu_context := None, guards := 0\<rparr>))
      = (cli_settle (this_cpu k))\<lparr>cpu_context := None\<rparr>"
    using parked_cpu(1)[of "this_cpu k"] assms(1) by (simp add: calm_def)
  then show ?thesis
    using assms
    by (cases k) (simp add: park_current_def section_simps cpu_push_cli_eq cpu_pop_cli_eq swap_and_take_eq cli_out_def)
qed

lemma cli_switch:
  assumes "cli_ok (c :: sched_cpu)"
  shows "cli_out ((cli_settle (cli_in c))\<lparr>cpu_context := None\<rparr>) = (cli_settle c)\<lparr>cpu_context := None\<rparr>"
    "cli_settle ((cli_settle (cli_in c))\<lparr>cpu_context := None\<rparr>) = (cli_settle (cli_in c))\<lparr>cpu_context := None\<rparr>"
    "cli_in ((cli_settle c)\<lparr>cpu_context := None\<rparr>) = (cli_in c)\<lparr>cpu_context := None\<rparr>"
  using assms by (cases c; auto simp: cli_in_def cli_out_def cli_settle_def cli_ok_def)+

lemma room_in: "n_cli c + 3 < usize_bound \<Longrightarrow> room (cli_in c)" "room c \<Longrightarrow> room (cli_settle c)"
  by (simp_all add: room_def)

lemma calm_in:
  assumes "calm k" "n_cli (this_cpu k) + 3 < usize_bound"
  shows "calm (k\<lparr>this_cpu := cli_in (this_cpu k)\<rparr>)"
    "cpu_push_cli k = Ret (k\<lparr>this_cpu := cli_in (this_cpu k)\<rparr>)"
  using assms by (simp_all add: calm_def room_in cpu_push_cli_eq)

text \<open>Taking the running process off the CPU, the common part of a yield and of an exit.\<close>

definition unload :: "ProcessContext \<Rightarrow> InterruptAllSavedState \<Rightarrow> ('f, 'd) kernel \<Rightarrow> ('f, 'd) kernel" where
  "unload c a k = k\<lparr>scheduler := (scheduler k)\<lparr>running_waiting_procs :=
        bt_remove (process_id (this_cpu k)) (running_waiting_procs (scheduler k))\<rparr>,
      fpu := c_fxsave c, this_cpu := (cli_settle (this_cpu k))\<lparr>cpu_context := None\<rparr>\<rparr>"

definition parked :: "('f, 'd) kernel \<Rightarrow> InterruptAllSavedState \<Rightarrow> ('f, 'd) SchedulerProcess \<Rightarrow> ('f, 'd) SchedulerProcess" where
  "parked k a sp = sp\<lparr>sp_process := (sp_process sp)\<lparr>p_context := saved_context (fpu k) a\<rparr>\<rparr>"

lemma reschedule_frame:
  "reschedule_process sp (k\<lparr>this_cpu := c\<rparr>) = bind_exec (reschedule_process sp k) (\<lambda>k1. Ret (k1\<lparr>this_cpu := c\<rparr>))"
  "reschedule_process sp (k\<lparr>sched_lock := l\<rparr>) = bind_exec (reschedule_process sp k) (\<lambda>k1. Ret (k1\<lparr>sched_lock := l\<rparr>))"
  by (auto simp: reschedule_process_def process_exit_def vga_release_def assert_exec_def Let_def split: option.splits)

lemma reschedule_keeps:
  "reschedule_process sp k = Ret k1 \<Longrightarrow> this_cpu k1 = this_cpu k \<and> sched_lock k1 = sched_lock k \<and> fpu k1 = fpu k
     \<and> next_pid k1 = next_pid k \<and> dropped k1 = dropped k \<and> is_shutdown k1 = is_shutdown k"
  by (auto simp: reschedule_process_def process_exit_def vga_release_def assert_exec_def Let_def
      split: option.splits if_splits)

lemma bind_cong_ret: "(\<And>x. m = Ret x \<Longrightarrow> f x = g x) \<Longrightarrow> bind_exec m f = bind_exec m g"
  by (cases m) auto

lemma reschedule_locked:
  assumes "calm k"
  shows "bind_exec (lock_scheduler k) (\<lambda>k1. bind_exec (reschedule_process sp k1) (\<lambda>k2. bind_exec (unlock_scheduler k2) f))
    = bind_exec (reschedule_process sp k) (\<lambda>k1. f (k1\<lparr>this_cpu := cli_settle (this_cpu k)\<rparr>))"
proof -
  have "lock_scheduler k = Ret (k\<lparr>sched_lock := held_lock, this_cpu := in_lock (this_cpu k)\<rparr>)"
    using assms by (simp add: section_simps)
  moreover have "bind_exec (unlock_scheduler (k1\<lparr>sched_lock := held_lock, this_cpu := in_lock (this_cpu k)\<rparr>)) f
      = f (k1\<lparr>this_cpu := cli_settle (this_cpu k)\<rparr>)" if "reschedule_process sp k = Ret k1" for k1
    using assms reschedule_keeps[OF that] by (cases k1) (simp add: section_simps)
  ultimately show ?thesis
    by (cases "reschedule_process sp k") (simp_all add: reschedule_frame)
qed

lemma yield_current_eq:
  assumes "calm k" "bt_get (running_waiting_procs (scheduler k)) (process_id (this_cpu k)) = Some sp" "sp_state sp = Running"
    and "cpu_context (this_cpu k) = Some c" "\<not> scheduling (this_cpu k)" "n_cli (this_cpu k) + 3 < usize_bound"
  shows "yield_current_if_any a k = bind_exec (reschedule_process (parked k a sp) (unload c a k))
      (\<lambda>k1. Ret (snd (snd (swap_context (fpu k) c a)), k1))"
proof -
  let ?c = "this_cpu k"
  let ?c3 = "(cli_settle (cli_in ?c))\<lparr>cpu_context := None\<rparr>"
  let ?k3 = "(unload c a k)\<lparr>this_cpu := ?c3\<rparr>"
  let ?r = "\<lambda>k1. Ret (snd (snd (swap_context (fpu k) c a)), k1)"
  have c: "cpu_ready ?c" "cli_ok ?c" "room ?c" using assms(1) by (simp_all add: calm_def)
  note k1 = calm_in[OF assms(1,6)]
  have calm3: "calm ?k3" using c assms(1,6) by (simp add: calm_def unload_def room_def)
  have pop: "cpu_pop_cli (k1\<lparr>this_cpu := ?c3\<rparr>) = Ret (k1\<lparr>this_cpu := (cli_settle ?c)\<lparr>cpu_context := None\<rparr>\<rparr>)"
    for k1 :: "('a, 'b) kernel"
    using c by (simp add: cpu_pop_cli_eq cli_switch)
  have keep: "k1\<lparr>this_cpu := (cli_settle ?c)\<lparr>cpu_context := None\<rparr>\<rparr> = k1"
    if "reschedule_process (parked k a sp) (unload c a k) = Ret k1" for k1
    using reschedule_keeps[OF that] by (cases k1) (simp add: unload_def)
  have "yield_current_if_any a k = bind_exec (lock_scheduler ?k3) (\<lambda>k4. bind_exec (reschedule_process (parked k a sp) k4)
      (\<lambda>k5. bind_exec (unlock_scheduler k5) (\<lambda>k6. bind_exec (cpu_pop_cli k6) ?r)))"
    using assms c
    by (simp add: yield_current_if_any_def k1 take_current_process_eq[OF k1(1)] swap_and_take_eq unload_def parked_def)
  also have "\<dots> = bind_exec (reschedule_process (parked k a sp) ?k3) (\<lambda>k1. bind_exec (cpu_pop_cli (k1\<lparr>this_cpu := ?c3\<rparr>)) ?r)"
    using c by (simp only: reschedule_locked[OF calm3]) (simp add: cli_switch)
  also have "\<dots> = bind_exec (reschedule_process (parked k a sp) (unload c a k)) ?r"
    by (cases "reschedule_process (parked k a sp) (unload c a k)") (simp_all add: reschedule_frame pop keep)
  finally show ?thesis .
qed

definition push_exited :: "('f, 'd) Process \<Rightarrow> ('f, 'd) kernel \<Rightarrow> ('f, 'd) kernel" where
  "push_exited p k = k\<lparr>scheduler := (scheduler k)\<lparr>exited_processes := exited_processes (scheduler k) @ [p]\<rparr>\<rparr>"

lemma exit_current_eq:
  assumes "calm k" "bt_get (running_waiting_procs (scheduler k)) (process_id (this_cpu k)) = Some sp" "sp_state sp = Running"
    and "cpu_context (this_cpu k) = Some c" "n_cli (this_cpu k) + 3 < usize_bound"
  shows "exit_current_process code a k = bind_exec (process_exit code (vga_owner k) (sp_process (parked k a sp)))
      (\<lambda>(v, p). Ret (snd (snd (swap_context (fpu k) c a)), push_exited p ((unload c a k)\<lparr>vga_owner := v\<rparr>)))"
proof -
  let ?c = "this_cpu k"
  let ?c3 = "(cli_settle (cli_in ?c))\<lparr>cpu_context := None\<rparr>"
  let ?k3 = "(unload c a k)\<lparr>this_cpu := ?c3\<rparr>"
  have c: "cpu_ready ?c" "cli_ok ?c" "room ?c" using assms(1) by (simp_all add: calm_def)
  note k1 = calm_in[OF assms(1,5)]
  have end_part: "bind_exec (lock_scheduler (?k3\<lparr>vga_owner := v\<rparr>)) (\<lambda>k4. bind_exec (unlock_scheduler (push_exited p k4))
        (\<lambda>k5. bind_exec (cpu_pop_cli k5) f)) = f (push_exited p ((unload c a k)\<lparr>vga_owner := v\<rparr>))" for v p f
  proof -
    have "calm (?k3\<lparr>vga_owner := v\<rparr>)" using c assms(1,5) by (simp add: calm_def unload_def room_def)
    then show ?thesis
      using c(1,2) by (cases k) (simp add: section_simps push_exited_def unload_def cli_switch cpu_pop_cli_eq)
  qed
  have "exit_current_process code a k = bind_exec (process_exit code (vga_owner k) (sp_process (parked k a sp)))
      (\<lambda>(v, p). bind_exec (lock_scheduler (?k3\<lparr>vga_owner := v\<rparr>)) (\<lambda>k4. bind_exec (unlock_scheduler (push_exited p k4))
        (\<lambda>k5. bind_exec (cpu_pop_cli k5) (\<lambda>k6. Ret (snd (snd (swap_context (fpu k) c a)), k6)))))"
    using assms c
    by (simp add: exit_current_process_def k1 take_current_process_eq[OF k1(1)] swap_and_take_eq unload_def parked_def
        push_exited_def Let_def)
  then show ?thesis by (simp only: end_part)
qed

section \<open>Waking up\<close>

text \<open>
  What holds of every process: the children whose exit it has recorded are among the dropped
  processes \<open>D\<close>, the recorded codes are not negative, and its saved registers can be loaded.  A process that waits for another one
  waits in a system call, so its registers are those of user mode.
\<close>

definition nonneg :: "i32 \<Rightarrow> bool" where
  "nonneg c \<longleftrightarrow> \<not> bit c 31"

definition proc_ok :: "pid set \<Rightarrow> ('f, 'd) Process \<Rightarrow> bool" where
  "proc_ok D p \<longleftrightarrow> bt_wf (children_exits p) \<and> fst ` set (children_exits p) \<subseteq> D \<and> ctx_ok (p_context p)
     \<and> (\<forall>x \<in> set (children_exits p). nonneg (snd x))"

definition waiter_ok :: "('f, 'd) SchedulerProcess \<Rightarrow> bool" where
  "waiter_ok sp \<longleftrightarrow> (\<forall>q. sp_state sp = WaitingForPid q \<longrightarrow> c_cs (p_context (sp_process sp)) AND 3 = 3)"

text \<open>What waking up leaves of a process alone.\<close>

definition follows :: "('f, 'd) SchedulerProcess \<Rightarrow> ('f, 'd) SchedulerProcess \<Rightarrow> bool" where
  "follows sp sp' \<longleftrightarrow> sp_id sp' = sp_id sp \<and> p_parent_id (sp_process sp') = p_parent_id (sp_process sp)
     \<and> sp_state sp' = sp_state sp \<and> (\<exists>v. p_context (sp_process sp') = (p_context (sp_process sp))\<lparr>c_rax := v\<rparr>)"

lemma ctx_rax_self: "\<exists>v. c = c\<lparr>c_rax := v\<rparr>"
  by (rule exI[of _ "c_rax c"]) simp

lemma follows_refl [simp]: "follows sp sp"
  by (simp add: follows_def ctx_rax_self)

lemma follows_trans: "follows a b \<Longrightarrow> follows b c \<Longrightarrow> follows a c"
  by (auto simp: follows_def)

lemma proc_ok_mono: "proc_ok D p \<Longrightarrow> D \<subseteq> D' \<Longrightarrow> proc_ok D' p"
  by (auto simp: proc_ok_def)

lemma proc_ok_get: "proc_ok D p \<Longrightarrow> q \<notin> D \<Longrightarrow> bt_get (children_exits p) q = None"
  by (auto simp: proc_ok_def map_of_eq_None_iff)

lemma add_child_exit_ok:
  assumes "proc_ok D p" "q \<notin> D" "nonneg code"
  shows "add_child_exit q code p = Ret (p\<lparr>children_exits := bt_insert q code (children_exits p)\<rparr>)"
    "proc_ok (insert q D) (p\<lparr>children_exits := bt_insert q code (children_exits p)\<rparr>)"
  using assms proc_ok_get[OF assms(1,2)]
  by (auto simp: add_child_exit_def bt_contains_def proc_ok_def set_bt_insert_wf)

lemma retain_exits_spec:
  assumes "proc_ok D (sp_process sp)" "waiter_ok sp" "distinct (map p_id es)" "D \<inter> p_id ` set es = {}"
    "\<forall>e \<in> set es. nonneg (p_exit_code e)"
  shows "\<exists>sp'. retain_exits sp rm es = Ret (rm \<or> (\<exists>e \<in> set es. sp_state sp = WaitingForPid (p_id e)), sp',
      filter (\<lambda>e. p_parent_id e \<noteq> sp_id sp) es, filter (\<lambda>e. p_parent_id e = sp_id sp) es)
    \<and> follows sp sp' \<and> waiter_ok sp'
    \<and> proc_ok (D \<union> p_id ` set (filter (\<lambda>e. p_parent_id e = sp_id sp) es)) (sp_process sp')
    \<and> (\<forall>e \<in> set es. p_parent_id e = sp_id sp \<longrightarrow> bt_get (children_exits (sp_process sp')) (p_id e) = Some (p_exit_code e))
    \<and> (\<forall>e \<in> set es. sp_state sp = WaitingForPid (p_id e) \<longrightarrow> c_rax (p_context (sp_process sp')) = scast (p_exit_code e))
    \<and> (\<forall>q. q \<notin> p_id ` set es \<longrightarrow> bt_get (children_exits (sp_process sp')) q = bt_get (children_exits (sp_process sp)) q)
    \<and> ((\<forall>e \<in> set es. sp_state sp \<noteq> WaitingForPid (p_id e)) \<longrightarrow> p_context (sp_process sp') = p_context (sp_process sp))"
  using assms
proof (induction es arbitrary: sp rm D)
  case Nil
  then show ?case by simp
next
  case (Cons e es)
  let ?par = "p_parent_id e = sp_id sp" and ?wt = "sp_state sp = WaitingForPid (p_id e)"
  define p1 where "p1 = (if ?par then (sp_process sp)\<lparr>children_exits := bt_insert (p_id e) (p_exit_code e)
      (children_exits (sp_process sp))\<rparr> else sp_process sp)"
  define p2 where "p2 = (if ?wt then p1\<lparr>p_context := (p_context p1)\<lparr>c_rax := scast (p_exit_code e)\<rparr>\<rparr> else p1)"
  define D1 where "D1 = (if ?par then insert (p_id e) D else D)"
  have eD: "p_id e \<notin> D" using Cons.prems(4) by auto
  have nn: "nonneg (p_exit_code e)" "\<forall>e \<in> set es. nonneg (p_exit_code e)" using Cons.prems(5) by simp_all
  note a = add_child_exit_ok[OF Cons.prems(1) eD nn(1)]
  have same: "p_id p2 = sp_id sp" "p_parent_id p2 = p_parent_id (sp_process sp)" "c_cs (p_context p2) = c_cs (p_context (sp_process sp))"
    by (auto simp: p2_def p1_def)
  have "proc_ok D1 p1" using a(2) Cons.prems(1) by (auto simp: p1_def D1_def)
  then have ok: "proc_ok D1 (sp_process (sp\<lparr>sp_process := p2\<rparr>))" by (auto simp: p2_def proc_ok_def ctx_ok_def)
  have w: "waiter_ok (sp\<lparr>sp_process := p2\<rparr>)" using Cons.prems(2) same by (simp add: waiter_ok_def)
  have "D1 \<inter> p_id ` set es = {}" using Cons.prems(3,4) by (auto simp: D1_def)
  from Cons.IH[OF ok w _ this nn(2), of "rm \<or> ?wt"] obtain sp' where
    r: "retain_exits (sp\<lparr>sp_process := p2\<rparr>) (rm \<or> ?wt) es = Ret ((rm \<or> ?wt) \<or> (\<exists>e \<in> set es. sp_state sp = WaitingForPid (p_id e)),
        sp', filter (\<lambda>e. p_parent_id e \<noteq> sp_id sp) es, filter (\<lambda>e. p_parent_id e = sp_id sp) es)"
    and f: "follows (sp\<lparr>sp_process := p2\<rparr>) sp'" "waiter_ok sp'"
    and p: "proc_ok (D1 \<union> p_id ` set (filter (\<lambda>e. p_parent_id e = sp_id sp) es)) (sp_process sp')"
    and ch: "\<forall>e \<in> set es. p_parent_id e = sp_id sp \<longrightarrow> bt_get (children_exits (sp_process sp')) (p_id e) = Some (p_exit_code e)"
    and rx: "\<forall>e \<in> set es. sp_state sp = WaitingForPid (p_id e) \<longrightarrow> c_rax (p_context (sp_process sp')) = scast (p_exit_code e)"
    and old: "\<forall>q. q \<notin> p_id ` set es \<longrightarrow> bt_get (children_exits (sp_process sp')) q = bt_get (children_exits p2) q"
    and cx: "(\<forall>e \<in> set es. sp_state sp \<noteq> WaitingForPid (p_id e)) \<longrightarrow> p_context (sp_process sp') = p_context p2"
    using same Cons.prems(3) by auto
  have "retain_exits sp rm (e # es) = Ret (rm \<or> (\<exists>e \<in> set (e # es). sp_state sp = WaitingForPid (p_id e)), sp',
      filter (\<lambda>e. p_parent_id e \<noteq> sp_id sp) (e # es), filter (\<lambda>e. p_parent_id e = sp_id sp) (e # es))"
    by (cases ?par; cases ?wt) (use a(1) r Cons.prems(2) in \<open>simp_all add: p1_def p2_def waiter_ok_def\<close>)
  moreover have "follows sp (sp\<lparr>sp_process := p2\<rparr>)"
    unfolding follows_def p2_def p1_def by (cases ?wt; cases ?par) (auto simp: ctx_rax_self)
  then have "follows sp sp'" using f(1) by (rule follows_trans)
  moreover have "proc_ok (D \<union> p_id ` set (filter (\<lambda>e. p_parent_id e = sp_id sp) (e # es))) (sp_process sp')"
    using p by (rule proc_ok_mono) (auto simp: D1_def)
  moreover have e_new: "p_id e \<notin> p_id ` set es" using Cons.prems(3) by auto
  have wf: "bt_wf (children_exits (sp_process sp))" using Cons.prems(1) by (simp add: proc_ok_def)
  have "bt_get (children_exits (sp_process sp')) (p_id e) = Some (p_exit_code e)" if ?par
    using old e_new that wf by (simp add: p2_def p1_def)
  moreover have "c_rax (p_context (sp_process sp')) = scast (p_exit_code e)" if ?wt
  proof -
    have "\<forall>e' \<in> set es. sp_state sp \<noteq> WaitingForPid (p_id e')" using e_new unfolding that by (auto simp: image_iff)
    then show ?thesis using cx that by (simp add: p2_def)
  qed
  moreover have "bt_get (children_exits (sp_process sp')) q = bt_get (children_exits (sp_process sp)) q"
    if "q \<notin> p_id ` set (e # es)" for q
    using old that wf by (simp add: p2_def p1_def)
  moreover have "p_context (sp_process sp') = p_context (sp_process sp)"
    if "\<forall>e \<in> set (e # es). sp_state sp \<noteq> WaitingForPid (p_id e)"
    using cx that by (simp add: p2_def p1_def)
  ultimately show ?case using f(2) ch rx by (intro exI[of _ sp']) simp
qed

text \<open>The processes outside the run queue, relative to the dropped ones.\<close>

definition entry_ok :: "pid set \<Rightarrow> nat \<times> ('f, 'd) SchedulerProcess \<Rightarrow> bool" where
  "entry_ok D x \<longleftrightarrow> sp_id (snd x) = fst x \<and> proc_ok D (sp_process (snd x)) \<and> waiter_ok (snd x) \<and> sp_state (snd x) \<noteq> Scheduled"

lemma entry_ok_mono: "entry_ok D x \<Longrightarrow> D \<subseteq> D' \<Longrightarrow> entry_ok D' x"
  by (auto simp: entry_ok_def proc_ok_mono)

text \<open>What the scan does to one entry: whether it wakes it, the entry after, and the exits it takes.\<close>

lemma wake_one:
  assumes "entry_ok D (i, sp)" "distinct (map p_id ex)" "D \<inter> p_id ` set ex = {}" "\<forall>e \<in> set ex. nonneg (p_exit_code e)"
  shows "\<exists>rm sp' ex1 gone1. (case sp_state sp of
         WaitingForTime t \<Rightarrow> Ret (t \<le> now, sp, ex, [])
       | Scheduled \<Rightarrow> Panic (Explicit ''We can't have Scheduled state here'')
       | _ \<Rightarrow> retain_exits sp False ex) = Ret (rm, sp', ex1, gone1)
    \<and> mset ex = mset ex1 + mset gone1 \<and> follows sp sp' \<and> entry_ok (D \<union> p_id ` set gone1) (i, sp')
    \<and> (rm \<longrightarrow> sp_state sp \<noteq> Running) \<and> (\<forall>e \<in> set gone1. p_parent_id e = i)
    \<and> (\<forall>t. sp_state sp = WaitingForTime t \<longrightarrow> sp' = sp \<and> rm = (t \<le> now))
    \<and> (\<forall>e \<in> set ex. sp_state sp = WaitingForPid (p_id e) \<longrightarrow> rm \<and> c_rax (p_context (sp_process sp')) = scast (p_exit_code e))"
proof -
  have ok: "proc_ok D (sp_process sp)" "waiter_ok sp" and i: "sp_id sp = i" "sp_state sp \<noteq> Scheduled"
    using assms(1) by (simp_all add: entry_ok_def)
  have part: "mset ex = mset (filter (\<lambda>e. p_parent_id e \<noteq> sp_id sp) ex) + mset (filter (\<lambda>e. p_parent_id e = sp_id sp) ex)"
    by (induction ex) auto
  obtain sp' where r: "retain_exits sp False ex = Ret (\<exists>e \<in> set ex. sp_state sp = WaitingForPid (p_id e), sp',
      filter (\<lambda>e. p_parent_id e \<noteq> sp_id sp) ex, filter (\<lambda>e. p_parent_id e = sp_id sp) ex)"
    and f: "follows sp sp'" "waiter_ok sp'" "proc_ok (D \<union> p_id ` set (filter (\<lambda>e. p_parent_id e = sp_id sp) ex)) (sp_process sp')"
    and x: "\<forall>e \<in> set ex. sp_state sp = WaitingForPid (p_id e) \<longrightarrow> c_rax (p_context (sp_process sp')) = scast (p_exit_code e)"
    using retain_exits_spec[OF ok assms(2-4), of False] by (elim exE conjE) simp
  have e': "entry_ok (D \<union> p_id ` set (filter (\<lambda>e. p_parent_id e = sp_id sp) ex)) (i, sp')"
    using f i by (auto simp: entry_ok_def follows_def)
  show ?thesis
  proof (cases "\<exists>t. sp_state sp = WaitingForTime t")
    case True
    then show ?thesis using assms(1) by auto
  next
    case False
    then have "(case sp_state sp of
         WaitingForTime t \<Rightarrow> Ret (t \<le> now, sp, ex, [])
       | Scheduled \<Rightarrow> Panic (Explicit ''We can't have Scheduled state here'')
       | _ \<Rightarrow> retain_exits sp False ex) = retain_exits sp False ex" using i(2) by (cases "sp_state sp") auto
    then show ?thesis
      using r f(1) x e' i(1) False part
      by (intro exI[of _ "\<exists>e \<in> set ex. sp_state sp = WaitingForPid (p_id e)"] exI[of _ sp']
          exI[of _ "filter (\<lambda>e. p_parent_id e \<noteq> sp_id sp) ex"] exI[of _ "filter (\<lambda>e. p_parent_id e = sp_id sp) ex"]) auto
  qed
qed

lemma wake_scan_spec:
  assumes "\<forall>x \<in> set m. entry_ok D x" "distinct (map p_id ex)" "D \<inter> p_id ` set ex = {}" "bt_wf m"
    "\<forall>e \<in> set ex. nonneg (p_exit_code e)"
  shows "\<exists>woken stay ex' gone. wake_scan now m ex = Ret (woken, stay, ex', gone)
    \<and> mset ex = mset ex' + mset gone
    \<and> mset (map fst m) = mset (map sp_id woken) + mset (map fst stay)
    \<and> (\<forall>sp' \<in> set woken. proc_ok (D \<union> p_id ` set gone) (sp_process sp')
          \<and> (\<exists>x \<in> set m. follows (snd x) sp' \<and> sp_state (snd x) \<noteq> Running))
    \<and> (\<forall>y \<in> set stay. entry_ok (D \<union> p_id ` set gone) y \<and> (\<exists>x \<in> set m. fst x = fst y \<and> follows (snd x) (snd y)))
    \<and> (\<forall>x \<in> set m. sp_state (snd x) = Running \<longrightarrow> (\<exists>y \<in> set stay. fst y = fst x \<and> follows (snd x) (snd y)))
    \<and> bt_wf stay
    \<and> (\<forall>x \<in> set m. \<forall>t. sp_state (snd x) = WaitingForTime t \<longrightarrow> (if t \<le> now then snd x \<in> set woken else x \<in> set stay))
    \<and> (\<forall>x \<in> set m. \<forall>e \<in> set ex. p_parent_id e = fst x \<and> sp_state (snd x) = WaitingForPid (p_id e) \<longrightarrow>
          (\<exists>sp' \<in> set woken. follows (snd x) sp' \<and> c_rax (p_context (sp_process sp')) = scast (p_exit_code e)))"
  using assms
proof (induction m arbitrary: ex)
  case Nil
  then show ?case by simp
next
  case (Cons y m)
  obtain i sp where y: "y = (i, sp)" by (cases y)
  have eo: "entry_ok D (i, sp)" and m: "\<forall>x \<in> set m. entry_ok D x" and wf: "bt_wf m" and lt: "\<forall>x \<in> set m. i < fst x"
    using Cons.prems(1,4) by (auto simp: y bt_wf_Cons)
  obtain rm sp' ex1 gone1 where one: "(case sp_state sp of
         WaitingForTime t \<Rightarrow> Ret (t \<le> now, sp, ex, [])
       | Scheduled \<Rightarrow> Panic (Explicit ''We can't have Scheduled state here'')
       | _ \<Rightarrow> retain_exits sp False ex) = Ret (rm, sp', ex1, gone1)"
    and ms: "mset ex = mset ex1 + mset gone1" and fo: "follows sp sp'" and eo': "entry_ok (D \<union> p_id ` set gone1) (i, sp')"
    and nr: "rm \<longrightarrow> sp_state sp \<noteq> Running" and par: "\<forall>e \<in> set gone1. p_parent_id e = i"
    and tm: "\<forall>t. sp_state sp = WaitingForTime t \<longrightarrow> sp' = sp \<and> rm = (t \<le> now)"
    and wt: "\<forall>e \<in> set ex. sp_state sp = WaitingForPid (p_id e) \<longrightarrow> rm \<and> c_rax (p_context (sp_process sp')) = scast (p_exit_code e)"
    using wake_one[OF eo Cons.prems(2,3,5), of now] by (elim exE conjE)
  have sub: "set ex1 \<subseteq> set ex" "set ex = set ex1 \<union> set gone1"
    using ms by (metis mset_subset_eq_add_left set_mset_mono set_mset_mset) (metis ms set_mset_mset set_mset_union)
  have "mset (map p_id ex) = mset (map p_id (ex1 @ gone1))" using ms by simp
  then have "distinct (map p_id (ex1 @ gone1))" using Cons.prems(2) by (metis mset_eq_imp_distinct_iff)
  then have d1: "distinct (map p_id ex1)" by simp
  have nn1: "\<forall>e \<in> set ex1. nonneg (p_exit_code e)" using Cons.prems(5) sub(1) by blast
  have "D \<inter> p_id ` set ex1 = {}" using Cons.prems(3) sub(1) by blast
  from Cons.IH[OF m d1 this wf nn1] obtain woken stay ex' gone where
    r: "wake_scan now m ex1 = Ret (woken, stay, ex', gone)" and ms2: "mset ex1 = mset ex' + mset gone"
    and ids: "mset (map fst m) = mset (map sp_id woken) + mset (map fst stay)"
    and wk: "\<forall>sp' \<in> set woken. proc_ok (D \<union> p_id ` set gone) (sp_process sp')
          \<and> (\<exists>x \<in> set m. follows (snd x) sp' \<and> sp_state (snd x) \<noteq> Running)"
    and st: "\<forall>y \<in> set stay. entry_ok (D \<union> p_id ` set gone) y \<and> (\<exists>x \<in> set m. fst x = fst y \<and> follows (snd x) (snd y))"
    and ru: "\<forall>x \<in> set m. sp_state (snd x) = Running \<longrightarrow> (\<exists>y \<in> set stay. fst y = fst x \<and> follows (snd x) (snd y))"
    and bw: "bt_wf stay"
    and tm2: "\<forall>x \<in> set m. \<forall>t. sp_state (snd x) = WaitingForTime t \<longrightarrow> (if t \<le> now then snd x \<in> set woken else x \<in> set stay)"
    and wt2: "\<forall>x \<in> set m. \<forall>e \<in> set ex1. p_parent_id e = fst x \<and> sp_state (snd x) = WaitingForPid (p_id e) \<longrightarrow>
          (\<exists>sp' \<in> set woken. follows (snd x) sp' \<and> c_rax (p_context (sp_process sp')) = scast (p_exit_code e))"
    by (elim exE conjE)
  let ?W = "if rm then sp' # woken else woken" and ?S = "if rm then stay else (i, sp') # stay" and ?g = "gone1 @ gone"
  have "wake_scan now (y # m) ex = Ret (?W, ?S, ex', ?g)" by (simp add: y one r)
  moreover have "mset ex = mset ex' + mset ?g" using ms ms2 by simp
  moreover have "sp_id sp' = i" using eo' by (simp add: entry_ok_def)
  then have "mset (map fst (y # m)) = mset (map sp_id ?W) + mset (map fst ?S)" using ids by (simp add: y)
  moreover have "\<forall>q \<in> set ?W. proc_ok (D \<union> p_id ` set ?g) (sp_process q)
      \<and> (\<exists>x \<in> set (y # m). follows (snd x) q \<and> sp_state (snd x) \<noteq> Running)"
  proof -
    have "proc_ok (D \<union> p_id ` set ?g) (sp_process sp')"
      using eo' by (auto simp: entry_ok_def intro: proc_ok_mono)
    moreover have "proc_ok (D \<union> p_id ` set ?g) (sp_process q)" if "q \<in> set woken" for q
      using wk that by (auto intro: proc_ok_mono)
    ultimately show ?thesis using wk nr fo by (auto simp: y)
  qed
  moreover have "\<forall>z \<in> set ?S. entry_ok (D \<union> p_id ` set ?g) z \<and> (\<exists>x \<in> set (y # m). fst x = fst z \<and> follows (snd x) (snd z))"
  proof -
    have "entry_ok (D \<union> p_id ` set ?g) (i, sp')" using eo' by (rule entry_ok_mono) auto
    moreover have "entry_ok (D \<union> p_id ` set ?g) z" if "z \<in> set stay" for z
      using st that by (auto intro: entry_ok_mono)
    ultimately show ?thesis using st fo by (auto simp: y)
  qed
  moreover have "\<forall>x \<in> set (y # m). sp_state (snd x) = Running \<longrightarrow> (\<exists>z \<in> set ?S. fst z = fst x \<and> follows (snd x) (snd z))"
    using ru nr fo by (auto simp: y)
  moreover have "\<forall>z \<in> set stay. i < fst z" using st lt by (metis (no_types))
  then have "bt_wf ?S" using bw by (simp add: bt_wf_Cons)
  moreover have "\<forall>x \<in> set (y # m). \<forall>t. sp_state (snd x) = WaitingForTime t \<longrightarrow> (if t \<le> now then snd x \<in> set ?W else x \<in> set ?S)"
    using tm tm2 by (auto simp: y)
  moreover have "\<forall>x \<in> set (y # m). \<forall>e \<in> set ex. p_parent_id e = fst x \<and> sp_state (snd x) = WaitingForPid (p_id e) \<longrightarrow>
      (\<exists>q \<in> set ?W. follows (snd x) q \<and> c_rax (p_context (sp_process q)) = scast (p_exit_code e))"
  proof (intro ballI impI)
    fix x e assume x: "x \<in> set (y # m)" and e: "e \<in> set ex" "p_parent_id e = fst x \<and> sp_state (snd x) = WaitingForPid (p_id e)"
    show "\<exists>q \<in> set ?W. follows (snd x) q \<and> c_rax (p_context (sp_process q)) = scast (p_exit_code e)"
    proof (cases "x = y")
      case True
      then show ?thesis using wt e fo by (auto simp: y)
    next
      case False
      then have xm: "x \<in> set m" using x by simp
      then have "p_parent_id e \<noteq> i" using lt e(2) by auto
      then have "e \<in> set ex1" using e(1) sub(2) par by auto
      then obtain q where "q \<in> set woken" "follows (snd x) q" "c_rax (p_context (sp_process q)) = scast (p_exit_code e)"
        using wt2 xm e(2) by meson
      then show ?thesis by auto
    qed
  qed
  ultimately show ?case by (intro exI[of _ ?W] exI[of _ ?S] exI[of _ ex'] exI[of _ ?g] conjI)
qed

lemma process_exit_ok:
  "p_id p < I64_MAX \<Longrightarrow> \<exists>v'. process_exit code v p = Ret (v', p\<lparr>p_exit_code := code\<rparr>)"
  by (cases v) (auto simp: process_exit_def vga_release_def)

definition rescheduled :: "nat \<Rightarrow> ('f, 'd) SchedulerProcess \<Rightarrow> ('f, 'd) SchedulerProcess" where
  "rescheduled mx sp = sp\<lparr>priority_counter := mx, sp_state := Scheduled\<rparr>"

lemma rescheduled_facts [simp]:
  "sp_process (rescheduled mx sp) = sp_process sp" "sp_state (rescheduled mx sp) = Scheduled"
  "priority_counter (rescheduled mx sp) = mx"
  by (simp_all add: rescheduled_def)

lemma reschedule_process_ok:
  assumes "sp_id sp < I64_MAX"
  shows "\<exists>v. reschedule_process sp k = Ret (k\<lparr>vga_owner := v, scheduler := (scheduler k)
    \<lparr>scheduled_processes := scheduled_processes (scheduler k)
        @ (if is_shutdown k then [] else [rescheduled (max_priority (scheduler k)) sp]),
     exited_processes := exited_processes (scheduler k)
        @ (if is_shutdown k then [(sp_process sp)\<lparr>p_exit_code := 0xFF\<rparr>] else [])\<rparr>\<rparr>)"
proof -
  obtain v where "process_exit 0xFF (vga_owner k) (sp_process sp) = Ret (v, (sp_process sp)\<lparr>p_exit_code := 0xFF\<rparr>)"
    using process_exit_ok[OF assms] by blast
  then show ?thesis
    by (cases "is_shutdown k"; cases k) (auto simp: reschedule_process_def rescheduled_def Let_def)
qed

lemma reschedule_all_ok:
  assumes "\<forall>sp \<in> set sps. sp_id sp < I64_MAX"
  shows "\<exists>v. reschedule_all sps k = Ret (k\<lparr>vga_owner := v, scheduler := (scheduler k)
    \<lparr>scheduled_processes := scheduled_processes (scheduler k)
        @ (if is_shutdown k then [] else map (rescheduled (max_priority (scheduler k))) sps),
     exited_processes := exited_processes (scheduler k)
        @ (if is_shutdown k then map (\<lambda>sp. (sp_process sp)\<lparr>p_exit_code := 0xFF\<rparr>) sps else [])\<rparr>\<rparr>)"
  using assms
proof (induction sps arbitrary: k)
  case Nil
  then show ?case by (cases k) auto
next
  case (Cons sp sps)
  have "sp_id sp < I64_MAX" using Cons.prems by simp
  from reschedule_process_ok[OF this, of k] obtain v where
    r: "reschedule_process sp k = Ret (k\<lparr>vga_owner := v, scheduler := (scheduler k)
    \<lparr>scheduled_processes := scheduled_processes (scheduler k)
        @ (if is_shutdown k then [] else [rescheduled (max_priority (scheduler k)) sp]),
     exited_processes := exited_processes (scheduler k)
        @ (if is_shutdown k then [(sp_process sp)\<lparr>p_exit_code := 0xFF\<rparr>] else [])\<rparr>\<rparr>)" (is "_ = Ret ?k1") by blast
  from Cons.IH[of ?k1] Cons.prems show ?case by (cases "is_shutdown k") (simp_all add: r)
qed

text \<open>The exits given to the run queue change nothing but the records of exits.\<close>

definition adopts :: "('f, 'd) SchedulerProcess \<Rightarrow> ('f, 'd) SchedulerProcess \<Rightarrow> bool" where
  "adopts sp sp' \<longleftrightarrow> (\<exists>ch. sp' = sp\<lparr>sp_process := (sp_process sp)\<lparr>children_exits := ch\<rparr>\<rparr>)"

lemma adopts_refl [simp]: "adopts sp sp"
  unfolding adopts_def by (rule exI[of _ "children_exits (sp_process sp)"]) simp

lemma adopts_exit [simp]: "adopts sp (sp\<lparr>sp_process := (sp_process sp)\<lparr>children_exits := ch\<rparr>\<rparr>)"
  by (auto simp: adopts_def)

lemma adopts_trans: "adopts a b \<Longrightarrow> adopts b c \<Longrightarrow> adopts a c"
  by (auto simp: adopts_def)

lemma adopts_lists:
  assumes "list_all2 adopts sps sps'"
  shows "map sp_id sps' = map sp_id sps" "map sp_state sps' = map sp_state sps"
    "map priority_counter sps' = map priority_counter sps"
  using assms by (induction rule: list_all2_induct) (auto simp: adopts_def)

lemma give_exit_ok:
  assumes "\<forall>sp \<in> set sps. proc_ok D (sp_process sp)" "p_id e \<notin> D" "nonneg (p_exit_code e)"
  shows "\<exists>sps'. give_exit e sps = Ret sps' \<and> list_all2 adopts sps sps'
    \<and> (\<forall>sp' \<in> set sps'. proc_ok (insert (p_id e) D) (sp_process sp'))"
  using assms(1)
proof (induction sps)
  case (Cons sp sps)
  then obtain sps' where s: "give_exit e sps = Ret sps'" "list_all2 adopts sps sps'"
    "\<forall>sp' \<in> set sps'. proc_ok (insert (p_id e) D) (sp_process sp')" by auto
  have ok: "proc_ok D (sp_process sp)" using Cons.prems by simp
  note a = add_child_exit_ok[OF ok assms(2,3)]
  show ?case
  proof (cases "sp_id sp = p_parent_id e")
    case True
    then show ?thesis using s a by auto
  next
    case False
    then show ?thesis using s proc_ok_mono[OF ok, of "insert (p_id e) D"] by auto
  qed
qed simp

lemma give_exits_ok:
  assumes "\<forall>sp \<in> set sps. proc_ok D (sp_process sp)" "D \<inter> p_id ` set es = {}" "distinct (map p_id es)"
    "\<forall>e \<in> set es. nonneg (p_exit_code e)"
  shows "\<exists>sps'. give_exits es sps = Ret sps' \<and> list_all2 adopts sps sps'
    \<and> (\<forall>sp' \<in> set sps'. proc_ok (D \<union> p_id ` set es) (sp_process sp'))"
  using assms
proof (induction es arbitrary: sps D)
  case Nil
  then show ?case by (simp add: list_all2_refl)
next
  case (Cons e es)
  have "p_id e \<notin> D" using Cons.prems(2) by auto
  moreover have "nonneg (p_exit_code e)" using Cons.prems(4) by simp
  ultimately obtain sps1 where
    s: "give_exit e sps = Ret sps1" "list_all2 adopts sps sps1" "\<forall>sp' \<in> set sps1. proc_ok (insert (p_id e) D) (sp_process sp')"
    using give_exit_ok[OF Cons.prems(1)] by blast
  have "insert (p_id e) D \<inter> p_id ` set es = {}" using Cons.prems(2,3) by auto
  from Cons.IH[OF s(3) this] obtain sps2 where
    "give_exits es sps1 = Ret sps2" "list_all2 adopts sps1 sps2"
    "\<forall>sp' \<in> set sps2. proc_ok (insert (p_id e) D \<union> p_id ` set es) (sp_process sp')"
    using Cons.prems(3,4) by auto
  then show ?case using s(1) list_all2_trans[OF adopts_trans s(2)] by auto
qed

section \<open>The invariant of the scheduler\<close>

definition all_ids :: "('f, 'd) kernel \<Rightarrow> pid list" where
  "all_ids k = map sp_id (scheduled_processes (scheduler k)) @ map fst (running_waiting_procs (scheduler k))
     @ map p_id (exited_processes (scheduler k)) @ map p_id (dropped k)"

definition sched_ok :: "('f, 'd) kernel \<Rightarrow> bool" where
  "sched_ok k \<longleftrightarrow>
     bt_wf (running_waiting_procs (scheduler k))
   \<and> (\<forall>x \<in> set (running_waiting_procs (scheduler k)). entry_ok (p_id ` set (dropped k)) x)
   \<and> (\<forall>sp \<in> set (scheduled_processes (scheduler k)). sp_state sp = Scheduled \<and> proc_ok (p_id ` set (dropped k)) (sp_process sp))
   \<and> (\<forall>e \<in> set (exited_processes (scheduler k)). nonneg (p_exit_code e))
   \<and> mset (all_ids k) = mset [0..<next_pid k] \<and> next_pid k \<le> I64_MAX"

lemma sched_okD:
  assumes "sched_ok k"
  shows "bt_wf (running_waiting_procs (scheduler k))"
    "\<And>x. x \<in> set (running_waiting_procs (scheduler k)) \<Longrightarrow> entry_ok (p_id ` set (dropped k)) x"
    "\<And>sp. sp \<in> set (scheduled_processes (scheduler k)) \<Longrightarrow> sp_state sp = Scheduled \<and> proc_ok (p_id ` set (dropped k)) (sp_process sp)"
    "distinct (all_ids k)" "set (all_ids k) = {0..<next_pid k}" "\<And>i. i \<in> set (all_ids k) \<Longrightarrow> i < I64_MAX"
    "mset (all_ids k) = mset [0..<next_pid k]" "next_pid k \<le> I64_MAX"
    "\<And>e. e \<in> set (exited_processes (scheduler k)) \<Longrightarrow> nonneg (p_exit_code e)"
proof -
  show m: "mset (all_ids k) = mset [0..<next_pid k]" and n: "next_pid k \<le> I64_MAX" using assms by (simp_all add: sched_ok_def)
  show "distinct (all_ids k)" using mset_eq_imp_distinct_iff[OF m] by simp
  show ids: "set (all_ids k) = {0..<next_pid k}" using mset_eq_setD[OF m] by simp
  show "\<And>i. i \<in> set (all_ids k) \<Longrightarrow> i < I64_MAX" using ids n by simp
qed (use assms in \<open>auto simp: sched_ok_def\<close>)

text \<open>What waking up keeps of the rest of the kernel.\<close>

definition same_cpu :: "('f, 'd) kernel \<Rightarrow> ('f, 'd) kernel \<Rightarrow> bool" where
  "same_cpu k k' \<longleftrightarrow> this_cpu k' = this_cpu k \<and> sched_lock k' = sched_lock k \<and> fpu k' = fpu k \<and> next_pid k' = next_pid k
     \<and> is_shutdown k' = is_shutdown k"

text \<open>The entries outside the run queue only disappear, and the running one stays.\<close>

definition entries_follow :: "('f, 'd) kernel \<Rightarrow> ('f, 'd) kernel \<Rightarrow> bool" where
  "entries_follow k k' \<longleftrightarrow>
     (\<forall>y \<in> set (running_waiting_procs (scheduler k')). \<exists>x \<in> set (running_waiting_procs (scheduler k)). fst x = fst y \<and> follows (snd x) (snd y))
   \<and> (\<forall>x \<in> set (running_waiting_procs (scheduler k)). sp_state (snd x) = Running \<longrightarrow>
        (\<exists>y \<in> set (running_waiting_procs (scheduler k')). fst y = fst x \<and> follows (snd x) (snd y)))"

text \<open>What the scan over the running and waiting processes has done.\<close>

definition scanned ::
  "ClockTime \<Rightarrow> ('f, 'd) kernel \<Rightarrow> ('f, 'd) SchedulerProcess list \<Rightarrow> ('f, 'd) SchedulerProcess btmap
     \<Rightarrow> ('f, 'd) Process list \<Rightarrow> ('f, 'd) Process list \<Rightarrow> bool" where
  "scanned now k woken stay ex' gone \<longleftrightarrow>
     (let m = running_waiting_procs (scheduler k); D = p_id ` set (dropped k) \<union> p_id ` set gone in
      mset (exited_processes (scheduler k)) = mset ex' + mset gone
    \<and> mset (map fst m) = mset (map sp_id woken) + mset (map fst stay)
    \<and> (\<forall>q \<in> set woken. proc_ok D (sp_process q) \<and> (\<exists>x \<in> set m. follows (snd x) q \<and> sp_state (snd x) \<noteq> Running))
    \<and> (\<forall>y \<in> set stay. entry_ok D y \<and> (\<exists>x \<in> set m. fst x = fst y \<and> follows (snd x) (snd y)))
    \<and> (\<forall>x \<in> set m. sp_state (snd x) = Running \<longrightarrow> (\<exists>y \<in> set stay. fst y = fst x \<and> follows (snd x) (snd y)))
    \<and> bt_wf stay
    \<and> (\<forall>x \<in> set m. \<forall>t. sp_state (snd x) = WaitingForTime t \<longrightarrow> (if t \<le> now then snd x \<in> set woken else x \<in> set stay))
    \<and> (\<forall>x \<in> set m. \<forall>e \<in> set (exited_processes (scheduler k)). p_parent_id e = fst x \<and> sp_state (snd x) = WaitingForPid (p_id e) \<longrightarrow>
          (\<exists>q \<in> set woken. follows (snd x) q \<and> c_rax (p_context (sp_process q)) = scast (p_exit_code e))))"

lemma wake_scan_ok:
  assumes "sched_ok k"
  shows "\<exists>woken stay ex' gone. wake_scan now (running_waiting_procs (scheduler k)) (exited_processes (scheduler k))
      = Ret (woken, stay, ex', gone) \<and> scanned now k woken stay ex' gone"
proof -
  let ?s = "scheduler k" and ?D = "p_id ` set (dropped k)"
  note ok = sched_okD[OF assms]
  have d: "distinct (map p_id (exited_processes ?s))" "?D \<inter> p_id ` set (exited_processes ?s) = {}"
    using ok(4) by (auto simp: all_ids_def)
  have eo: "\<forall>x \<in> set (running_waiting_procs ?s). entry_ok ?D x" using ok(2) by blast
  have nn: "\<forall>e \<in> set (exited_processes ?s). nonneg (p_exit_code e)" using ok(9) by blast
  show ?thesis unfolding scanned_def Let_def by (rule wake_scan_spec[OF eo d ok(1) nn])
qed

lemma scannedD:
  assumes "scanned now k woken stay ex' gone"
  shows "mset (exited_processes (scheduler k)) = mset ex' + mset gone"
    "mset (map fst (running_waiting_procs (scheduler k))) = mset (map sp_id woken) + mset (map fst stay)"
    "\<forall>q \<in> set woken. proc_ok (p_id ` set (dropped k) \<union> p_id ` set gone) (sp_process q)"
    "\<forall>y \<in> set stay. entry_ok (p_id ` set (dropped k) \<union> p_id ` set gone) y"
    "\<forall>y \<in> set stay. \<exists>x \<in> set (running_waiting_procs (scheduler k)). fst x = fst y \<and> follows (snd x) (snd y)"
    "\<forall>x \<in> set (running_waiting_procs (scheduler k)). sp_state (snd x) = Running \<longrightarrow> (\<exists>y \<in> set stay. fst y = fst x \<and> follows (snd x) (snd y))"
    "bt_wf stay"
    "\<forall>x \<in> set (running_waiting_procs (scheduler k)). \<forall>t. sp_state (snd x) = WaitingForTime t \<longrightarrow>
       (if t \<le> now then snd x \<in> set woken else x \<in> set stay)"
    "\<forall>x \<in> set (running_waiting_procs (scheduler k)). \<forall>e \<in> set (exited_processes (scheduler k)).
       p_parent_id e = fst x \<and> sp_state (snd x) = WaitingForPid (p_id e) \<longrightarrow>
          (\<exists>q \<in> set woken. follows (snd x) q \<and> c_rax (p_context (sp_process q)) = scast (p_exit_code e))"
  using assms unfolding scanned_def Let_def ball_conj_distrib by - (elim conjE, assumption)+

text \<open>The kernel once the woken processes are back in the run queue.\<close>

definition requeued ::
  "('f, 'd) SchedulerProcess list \<Rightarrow> ('f, 'd) SchedulerProcess btmap \<Rightarrow> ('f, 'd) Process list \<Rightarrow> ('f, 'd) Process list
     \<Rightarrow> vga \<Rightarrow> ('f, 'd) kernel \<Rightarrow> ('f, 'd) kernel" where
  "requeued woken stay ex' gone v k = k\<lparr>vga_owner := v, dropped := dropped k @ gone, scheduler := (scheduler k)
     \<lparr>running_waiting_procs := stay,
      scheduled_processes := scheduled_processes (scheduler k) @ (if is_shutdown k then [] else map (rescheduled (max_priority (scheduler k))) woken),
      exited_processes := ex' @ (if is_shutdown k then map (\<lambda>sp. (sp_process sp)\<lparr>p_exit_code := 0xFF\<rparr>) woken else [])\<rparr>\<rparr>"

lemma requeued_step:
  assumes "sched_ok k" "scanned now k woken stay ex' gone"
  shows "\<exists>v. reschedule_all woken (k\<lparr>scheduler := (scheduler k)\<lparr>running_waiting_procs := stay, exited_processes := ex'\<rparr>,
      dropped := dropped k @ gone\<rparr>) = Ret (requeued woken stay ex' gone v k)"
proof -
  have "set (map sp_id woken) \<subseteq> set (all_ids k)"
    using mset_eq_setD[of "map fst (running_waiting_procs (scheduler k))" "map sp_id woken @ map fst stay"]
      scannedD(2)[OF assms(2)] by (auto simp: all_ids_def)
  then have "\<forall>sp \<in> set woken. sp_id sp < I64_MAX" using sched_okD(6)[OF assms(1)] by auto
  from reschedule_all_ok[OF this, of "k\<lparr>scheduler := (scheduler k)\<lparr>running_waiting_procs := stay, exited_processes := ex'\<rparr>,
      dropped := dropped k @ gone\<rparr>"]
  show ?thesis by (cases k; cases "scheduler k") (simp add: requeued_def cong: if_cong)
qed

lemma requeued_facts:
  assumes "sched_ok k" "scanned now k woken stay ex' gone" "k2 = requeued woken stay ex' gone v k"
  shows "mset (all_ids k2) = mset [0..<next_pid k]"
    "\<forall>sp \<in> set (scheduled_processes (scheduler k2)). sp_state sp = Scheduled \<and> proc_ok (p_id ` set (dropped k2)) (sp_process sp)"
    "\<forall>e \<in> set (exited_processes (scheduler k2)). nonneg (p_exit_code e)"
proof -
  note ok = sched_okD[OF assms(1)] and sc = scannedD[OF assms(2)]
  let ?s = "scheduler k" and ?D2 = "p_id ` set (dropped k) \<union> p_id ` set gone"
  let ?new = "if is_shutdown k then [] else map (rescheduled (max_priority ?s)) woken"
  show "mset (all_ids k2) = mset [0..<next_pid k]"
    using ok(7) sc(1,2) by (simp add: all_ids_def assms(3) requeued_def multiset.map_comp comp_def ac_simps)
  have S2: "scheduled_processes (scheduler k2) = scheduled_processes ?s @ ?new" and D2: "p_id ` set (dropped k2) = ?D2"
    by (simp_all add: assms(3) requeued_def image_Un)
  have "\<forall>sp \<in> set ?new. sp_state sp = Scheduled \<and> proc_ok ?D2 (sp_process sp)" using sc(3) by simp
  moreover have "\<forall>sp \<in> set (scheduled_processes ?s). sp_state sp = Scheduled \<and> proc_ok ?D2 (sp_process sp)"
    using ok(3) by (blast intro: proc_ok_mono)
  ultimately show "\<forall>sp \<in> set (scheduled_processes (scheduler k2)). sp_state sp = Scheduled \<and> proc_ok (p_id ` set (dropped k2)) (sp_process sp)"
    unfolding S2 D2 set_append by blast
  have "set ex' \<subseteq> set (exited_processes ?s)" using sc(1) by (metis mset_subset_eq_add_left set_mset_mono set_mset_mset)
  then show "\<forall>e \<in> set (exited_processes (scheduler k2)). nonneg (p_exit_code e)"
    using ok(9) by (auto simp: assms(3) requeued_def nonneg_def split: if_splits)
qed

definition settled :: "('f, 'd) SchedulerProcess list \<Rightarrow> ('f, 'd) kernel \<Rightarrow> ('f, 'd) kernel" where
  "settled sched k = k\<lparr>scheduler := (scheduler k)\<lparr>scheduled_processes := sched, exited_processes := []\<rparr>,
     dropped := dropped k @ exited_processes (scheduler k)\<rparr>"

lemma settled_step:
  assumes "sched_ok k" "scanned now k woken stay ex' gone" "k2 = requeued woken stay ex' gone v k"
  shows "\<exists>sched. give_exits (exited_processes (scheduler k2)) (scheduled_processes (scheduler k2)) = Ret sched
    \<and> list_all2 adopts (scheduled_processes (scheduler k2)) sched \<and> sched_ok (settled sched k2)"
proof -
  note rq = requeued_facts[OF assms] and ok = sched_okD[OF assms(1)] and sc = scannedD[OF assms(2)]
  let ?D2 = "p_id ` set (dropped k2)" and ?E2 = "exited_processes (scheduler k2)"
  have dist: "distinct (all_ids k2)" using mset_eq_imp_distinct_iff[OF rq(1)] by simp
  then have dj: "set (map p_id ?E2) \<inter> set (map p_id (dropped k2)) = {}" "distinct (map p_id ?E2)"
    by (simp_all only: all_ids_def distinct_append)
  have E2: "?D2 \<inter> p_id ` set ?E2 = {}" using dj(1) by (simp only: set_map Int_commute)
  have P2: "\<forall>sp \<in> set (scheduled_processes (scheduler k2)). proc_ok ?D2 (sp_process sp)" using rq(2) by blast
  obtain sched where g: "give_exits ?E2 (scheduled_processes (scheduler k2)) = Ret sched"
    "list_all2 adopts (scheduled_processes (scheduler k2)) sched"
    "\<forall>sp' \<in> set sched. proc_ok (?D2 \<union> p_id ` set ?E2) (sp_process sp')"
    using give_exits_ok[OF P2 E2 dj(2) rq(3)] by (elim exE conjE)
  let ?k3 = "settled sched k2"
  have D3: "p_id ` set (dropped ?k3) = ?D2 \<union> p_id ` set ?E2" by (simp add: settled_def image_Un)
  have sid: "map sp_id sched = map sp_id (scheduled_processes (scheduler k2))"
    "set (map sp_state sched) = set (map sp_state (scheduled_processes (scheduler k2)))"
    using adopts_lists[OF g(2)] by simp_all
  then have "\<forall>sp \<in> set sched. sp_state sp = Scheduled" using rq(2) by auto
  moreover have "mset (all_ids ?k3) = mset (all_ids k2)" by (simp add: all_ids_def settled_def sid(1))
  moreover have "\<forall>y \<in> set stay. entry_ok (p_id ` set (dropped ?k3)) y"
  proof
    fix y assume y: "y \<in> set stay"
    have "p_id ` set (dropped k) \<union> p_id ` set gone \<subseteq> p_id ` set (dropped ?k3)"
      unfolding D3 by (auto simp: assms(3) requeued_def)
    then show "entry_ok (p_id ` set (dropped ?k3)) y" using sc(4) y entry_ok_mono by blast
  qed
  ultimately have "sched_ok ?k3"
    using g(3) rq(1) ok(8) sc(7) D3 by (simp add: sched_ok_def settled_def assms(3) requeued_def)
  then show ?thesis using g(1,2) by blast
qed

lemma try_wake_ok:
  assumes "sched_ok k"
  shows "\<exists>k' woken stay ex' gone v sched. try_wake_waiting_processes now k = Ret k' \<and> sched_ok k' \<and> same_cpu k k' \<and> entries_follow k k'
    \<and> scanned now k woken stay ex' gone \<and> k' = settled sched (requeued woken stay ex' gone v k)
    \<and> list_all2 adopts (scheduled_processes (scheduler (requeued woken stay ex' gone v k))) sched"
proof -
  obtain woken stay ex' gone where sc: "scanned now k woken stay ex' gone"
    and r: "wake_scan now (running_waiting_procs (scheduler k)) (exited_processes (scheduler k)) = Ret (woken, stay, ex', gone)"
    using wake_scan_ok[OF assms] by blast
  obtain v where v: "reschedule_all woken (k\<lparr>scheduler := (scheduler k)\<lparr>running_waiting_procs := stay, exited_processes := ex'\<rparr>,
      dropped := dropped k @ gone\<rparr>) = Ret (requeued woken stay ex' gone v k)"
    using requeued_step[OF assms sc] by blast
  let ?k2 = "requeued woken stay ex' gone v k"
  obtain sched where g: "give_exits (exited_processes (scheduler ?k2)) (scheduled_processes (scheduler ?k2)) = Ret sched"
    "list_all2 adopts (scheduled_processes (scheduler ?k2)) sched" "sched_ok (settled sched ?k2)"
    using settled_step[OF assms sc refl] by blast
  have "try_wake_waiting_processes now k = Ret (settled sched ?k2)"
    using r v g(1) by (simp add: try_wake_waiting_processes_def Let_def settled_def)
  moreover have "same_cpu k (settled sched ?k2)" by (simp add: same_cpu_def settled_def requeued_def)
  moreover have "entries_follow k (settled sched ?k2)"
    using scannedD(5,6)[OF sc] by (simp add: entries_follow_def settled_def requeued_def)
  ultimately show ?thesis using g(2,3) sc by blast
qed

end
