(* ===== verification/Scheduler_Run.thy ===== *)
theory Scheduler_Run
  imports Scheduler_Proofs
begin

unbundle bit_operations_syntax

text \<open>
  The kernel with its scheduler as a state machine: one iteration of the loop, the calls of the
  running process and the timer, each from any reachable state, and the properties of all of them.
\<close>

section \<open>The run queue\<close>

lemma heap_maxima_ex:
  assumes "q \<noteq> []"
  shows "heap_maxima q \<noteq> []"
proof -
  let ?m = "Max (priority_counter ` set q)"
  have "?m \<in> priority_counter ` set q" using assms by (intro Max_in) auto
  then obtain x where x: "x \<in> set q" "priority_counter x = ?m" by auto
  then obtain i where i: "i < length q" "q ! i = x" by (auto simp: in_set_conv_nth)
  have "\<forall>y \<in> set q. priority_counter y \<le> priority_counter (q ! i)" using x(2) i(2) by auto
  then show ?thesis using i(1) by (auto simp: heap_maxima_def filter_empty_conv)
qed

lemma heap_pop_spec:
  assumes "heap_pop pick q = Some (x, others)"
  shows "mset q = add_mset x (mset others)" "\<forall>y \<in> set q. priority_counter y \<le> priority_counter x"
proof -
  have q: "q \<noteq> []" using assms by (auto simp: heap_pop_def)
  let ?i = "heap_maxima q ! (pick mod length (heap_maxima q))"
  have "?i \<in> set (heap_maxima q)" using heap_maxima_ex[OF q] by (intro nth_mem) simp
  then have i: "?i < length q" "\<forall>y \<in> set q. priority_counter y \<le> priority_counter (q ! ?i)"
    by (auto simp: heap_maxima_def)
  have x: "x = q ! ?i" "others = take ?i q @ drop (Suc ?i) q" using assms q by (auto simp: heap_pop_def Let_def)
  show "\<forall>y \<in> set q. priority_counter y \<le> priority_counter x" using i(2) x(1) by simp
  have "mset q = mset (take ?i q @ q ! ?i # drop (Suc ?i) q)" using id_take_nth_drop[OF i(1)] by simp
  then show "mset q = add_mset x (mset others)" using x by simp
qed

lemma heap_pop_none: "heap_pop pick q = None \<longleftrightarrow> q = []"
  by (simp add: heap_pop_def Let_def)

lemma priority_decrement: "6 - unat (PriorityLevel_to_u64 p) \<le> 5" "1 \<le> 6 - unat (PriorityLevel_to_u64 p)"
  by (cases p; simp)+

text \<open>The queue as the loop reads it: the counters are set back when the best one is below the minimum.\<close>

definition refreshed :: "('f, 'd) Scheduler \<Rightarrow> ('f, 'd) Scheduler" where
  "refreshed s = (if scheduled_processes s \<noteq> [] \<and> (\<forall>p \<in> set (scheduled_processes s). priority_counter p < MIN_PRIORITY_VALUE)
     then reset_scheduled_processes_counters s else s)"

lemma refreshed_same [simp]:
  "running_waiting_procs (refreshed s) = running_waiting_procs s" "exited_processes (refreshed s) = exited_processes s"
  "map sp_process (scheduled_processes (refreshed s)) = map sp_process (scheduled_processes s)"
  "map sp_state (scheduled_processes (refreshed s)) = map sp_state (scheduled_processes s)"
  "scheduled_processes (refreshed s) = [] \<longleftrightarrow> scheduled_processes s = []"
  by (simp_all add: refreshed_def reset_scheduled_processes_counters_def comp_def)

lemma refreshed_ids [simp]: "map sp_id (scheduled_processes (refreshed s)) = map sp_id (scheduled_processes s)"
  by (simp add: refreshed_def reset_scheduled_processes_counters_def comp_def)

lemma refreshed_set:
  "x \<in> set (scheduled_processes (refreshed s)) \<Longrightarrow> \<exists>y \<in> set (scheduled_processes s). sp_process y = sp_process x \<and> sp_state y = sp_state x"
  by (auto simp: refreshed_def reset_scheduled_processes_counters_def split: if_splits)

lemma refreshed_top:
  assumes "heap_pop pick (scheduled_processes (refreshed s)) = Some (x, others)"
  shows "MIN_PRIORITY_VALUE \<le> priority_counter x"
proof (cases "\<forall>p \<in> set (scheduled_processes s). priority_counter p < MIN_PRIORITY_VALUE")
  case True
  have "x \<in> set (scheduled_processes (refreshed s))" using heap_pop_spec(1)[OF assms] by (metis set_mset_mset union_single_eq_member)
  then show ?thesis using True
    by (auto simp: refreshed_def reset_scheduled_processes_counters_def U64_MAX_def MIN_PRIORITY_VALUE_def split: if_splits)
next
  case False
  then obtain p where p: "p \<in> set (scheduled_processes s)" "MIN_PRIORITY_VALUE \<le> priority_counter p" by (auto simp: not_less)
  then have "refreshed s = s" by (auto simp: refreshed_def)
  then show ?thesis using heap_pop_spec(2)[OF assms] p le_trans by auto
qed

lemma run_next_unfold:
  "run_next pick k =
     (case heap_pop pick (scheduled_processes (refreshed (scheduler k))) of
        None \<Rightarrow> Ret (k\<lparr>scheduler := refreshed (scheduler k)\<rparr>)
      | Some (next_proc, others) \<Rightarrow>
          assert_exec (sp_state next_proc = Scheduled)
         (bind_exec
            (if is_shutdown k
             then Ret (k\<lparr>scheduler := (refreshed (scheduler k))\<lparr>scheduled_processes := others\<rparr>, dropped := dropped k @ [sp_process next_proc]\<rparr>)
             else bind_exec (usize_sub (priority_counter next_proc)
                               (6 - unat (PriorityLevel_to_u64 (p_priority (sp_process next_proc))))) (\<lambda>counter.
                  Ret (k\<lparr>scheduler := (refreshed (scheduler k))\<lparr>scheduled_processes := others, max_priority := counter,
                           running_waiting_procs := bt_insert (sp_id next_proc)
                             (next_proc\<lparr>sp_state := Running, priority_counter := counter\<rparr>) (running_waiting_procs (scheduler k))\<rparr>,
                         this_cpu := (this_cpu k)\<lparr>process_id := sp_id next_proc,
                           cpu_context := Some (p_context (sp_process next_proc)), scheduling := True\<rparr>\<rparr>)))
            cpu_pop_cli))"
  unfolding run_next_def refreshed_def[symmetric] Let_def by (simp only: refreshed_same(1))

text \<open>The kernel once the process \<open>sp\<close> of the queue has been chosen.\<close>

definition dispatched ::
  "('f, 'd) SchedulerProcess \<Rightarrow> ('f, 'd) SchedulerProcess list \<Rightarrow> ('f, 'd) kernel \<Rightarrow> ('f, 'd) kernel" where
  "dispatched sp others k =
     (let counter = priority_counter sp - (6 - unat (PriorityLevel_to_u64 (p_priority (sp_process sp)))) in
      k\<lparr>scheduler := (refreshed (scheduler k))\<lparr>scheduled_processes := others, max_priority := counter,
         running_waiting_procs := bt_insert (sp_id sp) (sp\<lparr>sp_state := Running, priority_counter := counter\<rparr>)
           (running_waiting_procs (scheduler k))\<rparr>,
        this_cpu := cli_out ((this_cpu k)\<lparr>process_id := sp_id sp, cpu_context := Some (p_context (sp_process sp)),
           scheduling := True\<rparr>)\<rparr>)"

lemma run_next_eq:
  assumes "\<not> is_shutdown k" "\<And>sp. sp \<in> set (scheduled_processes (scheduler k)) \<Longrightarrow> sp_state sp = Scheduled"
    and "0 < n_cli (this_cpu k)" "\<not> interrupt_flag (this_cpu k)"
    and "heap_pop pick (scheduled_processes (refreshed (scheduler k))) = Some (sp, others)"
  shows "run_next pick k = Ret (dispatched sp others k)"
proof -
  have "sp \<in> set (scheduled_processes (refreshed (scheduler k)))"
    using heap_pop_spec(1)[OF assms(5)] by (metis set_mset_mset union_single_eq_member)
  then have "sp_state sp = Scheduled" using refreshed_set assms(2) by metis
  moreover have "6 - unat (PriorityLevel_to_u64 (p_priority (sp_process sp))) \<le> priority_counter sp"
    using refreshed_top[OF assms(5)] priority_decrement(1)[of "p_priority (sp_process sp)"] by (simp add: MIN_PRIORITY_VALUE_def)
  ultimately show ?thesis
    using assms(1,3-5) by (simp add: run_next_unfold dispatched_def usize_sub_def cpu_pop_cli_eq Let_def)
qed

section \<open>Shutdown\<close>

lemma exit_scheduled_ok:
  "\<forall>sp \<in> set sps. sp_id sp < I64_MAX \<Longrightarrow>
     \<exists>v'. exit_scheduled v sps = Ret (v', map (\<lambda>sp. (sp_process sp)\<lparr>p_exit_code := 0\<rparr>) sps)"
proof (induction sps arbitrary: v)
  case (Cons sp sps)
  obtain v1 where 1: "process_exit 0 v (sp_process sp) = Ret (v1, (sp_process sp)\<lparr>p_exit_code := 0\<rparr>)"
    using process_exit_ok[of "sp_process sp"] Cons.prems by fastforce
  obtain v2 where "exit_scheduled v1 sps = Ret (v2, map (\<lambda>sp. (sp_process sp)\<lparr>p_exit_code := 0\<rparr>) sps)"
    using Cons.IH[of v1] Cons.prems by auto
  then show ?case by (simp add: 1)
qed simp

lemma exit_waiting_ok:
  "\<forall>x \<in> set m. sp_id (snd x) < I64_MAX \<and> sp_state (snd x) \<noteq> Running \<Longrightarrow>
     \<exists>v'. exit_waiting v m = Ret (v', [], map (\<lambda>x. (sp_process (snd x))\<lparr>p_exit_code := 0\<rparr>) m)"
proof (induction m arbitrary: v)
  case (Cons x m)
  obtain i sp where x: "x = (i, sp)" by (cases x)
  have sp: "sp_id sp < I64_MAX" "sp_state sp \<noteq> Running" using Cons.prems by (simp_all add: x)
  obtain v1 where 1: "process_exit 0 v (sp_process sp) = Ret (v1, (sp_process sp)\<lparr>p_exit_code := 0\<rparr>)"
    using process_exit_ok[OF sp(1)] by blast
  have "\<forall>x \<in> set m. sp_id (snd x) < I64_MAX \<and> sp_state (snd x) \<noteq> Running" using Cons.prems by simp
  from Cons.IH[OF this, of v1] obtain v2 where
    "exit_waiting v1 m = Ret (v2, [], map (\<lambda>x. (sp_process (snd x))\<lparr>p_exit_code := 0\<rparr>) m)" by blast
  then show ?case using sp(2) by (simp add: 1 x)
qed simp

definition no_running :: "('f, 'd) kernel \<Rightarrow> bool" where
  "no_running k \<longleftrightarrow> (\<forall>x \<in> set (running_waiting_procs (scheduler k)). sp_state (snd x) \<noteq> Running)"

text \<open>Between two processes nothing runs, so the shutdown ends every process.\<close>

lemma exit_idle_ok:
  assumes "sched_ok k" "no_running k"
  shows "\<exists>k'. exit_idle_processes k = Ret k' \<and> sched_ok k' \<and> same_cpu k k'
    \<and> scheduled_processes (scheduler k') = [] \<and> running_waiting_procs (scheduler k') = []"
proof -
  let ?s = "scheduler k"
  note ok = sched_okD[OF assms(1)]
  have "\<forall>sp \<in> set (scheduled_processes ?s). sp_id sp < I64_MAX" using ok(6) by (auto simp: all_ids_def)
  from exit_scheduled_ok[OF this] obtain v1 where
    1: "exit_scheduled (vga_owner k) (scheduled_processes ?s) = Ret (v1, map (\<lambda>sp. (sp_process sp)\<lparr>p_exit_code := 0\<rparr>) (scheduled_processes ?s))"
    by blast
  have ids: "map (\<lambda>x. sp_id (snd x)) (running_waiting_procs ?s) = map fst (running_waiting_procs ?s)"
    using ok(2) by (auto simp: entry_ok_def)
  have "set (map fst (running_waiting_procs ?s)) \<subseteq> set (all_ids k)" by (auto simp: all_ids_def)
  then have "\<forall>x \<in> set (running_waiting_procs ?s). sp_id (snd x) < I64_MAX \<and> sp_state (snd x) \<noteq> Running"
    using ok(2,6) assms(2) by (fastforce simp: no_running_def entry_ok_def)
  from exit_waiting_ok[OF this] obtain v2 where
    2: "exit_waiting v1 (running_waiting_procs ?s) = Ret (v2, [], map (\<lambda>x. (sp_process (snd x))\<lparr>p_exit_code := 0\<rparr>) (running_waiting_procs ?s))"
    by blast
  let ?k' = "k\<lparr>vga_owner := v2, scheduler := ?s\<lparr>scheduled_processes := [], running_waiting_procs := []\<rparr>,
     dropped := dropped k @ map (\<lambda>sp. (sp_process sp)\<lparr>p_exit_code := 0\<rparr>) (scheduled_processes ?s)
       @ map (\<lambda>x. (sp_process (snd x))\<lparr>p_exit_code := 0\<rparr>) (running_waiting_procs ?s)\<rparr>"
  have "exit_idle_processes k = Ret ?k'" by (simp add: exit_idle_processes_def Let_def 1 2)
  moreover have "mset (all_ids ?k') = mset (all_ids k)"
    by (simp add: all_ids_def comp_def ids flip: mset_map)
  then have "sched_ok ?k'" using ok(7-9) by (simp add: sched_ok_def)
  ultimately show ?thesis by (auto simp: same_cpu_def)
qed

section \<open>One iteration\<close>

lemma sched_ok_frame [simp]:
  "sched_ok (k\<lparr>this_cpu := c\<rparr>) = sched_ok k" "sched_ok (k\<lparr>sched_lock := l\<rparr>) = sched_ok k" "sched_ok (k\<lparr>fpu := f\<rparr>) = sched_ok k"
  "sched_ok (k\<lparr>vga_owner := v\<rparr>) = sched_ok k"
  "no_running (k\<lparr>this_cpu := c\<rparr>) = no_running k" "no_running (k\<lparr>sched_lock := l\<rparr>) = no_running k"
  "no_running (k\<lparr>fpu := f\<rparr>) = no_running k"
  by (simp_all add: sched_ok_def all_ids_def no_running_def)

text \<open>The process the CPU names is the one that runs, and no other does.\<close>

definition current :: "('f, 'd) kernel \<Rightarrow> bool" where
  "current k \<longleftrightarrow>
     (\<exists>sp. bt_get (running_waiting_procs (scheduler k)) (process_id (this_cpu k)) = Some sp \<and> sp_state sp = Running)
   \<and> (\<forall>x \<in> set (running_waiting_procs (scheduler k)). sp_state (snd x) = Running \<longrightarrow> fst x = process_id (this_cpu k))"

lemma dispatched_ok:
  assumes "sched_ok k" "no_running k" "heap_pop pick (scheduled_processes (refreshed (scheduler k))) = Some (sp, others)"
  shows "sched_ok (dispatched sp others k)" "current (dispatched sp others k)" "ctx_ok (p_context (sp_process sp))"
    "sp_id sp \<in> sp_id ` set (scheduled_processes (scheduler k))"
proof -
  let ?s = "scheduler k" and ?D = "p_id ` set (dropped k)" and ?m = "running_waiting_procs (scheduler k)"
  note ok = sched_okD[OF assms(1)]
  have q: "mset (scheduled_processes (refreshed ?s)) = add_mset sp (mset others)" using heap_pop_spec(1)[OF assms(3)] .
  then have qs: "set (scheduled_processes (refreshed ?s)) = insert sp (set others)" by (metis set_mset_add_mset_insert set_mset_mset)
  have all: "sp_state x = Scheduled \<and> proc_ok ?D (sp_process x)" if x: "x \<in> insert sp (set others)" for x
    using refreshed_set[of x ?s] ok(3) x unfolding qs by fastforce
  then have sp: "sp_state sp = Scheduled" "proc_ok ?D (sp_process sp)" by blast+
  then show "ctx_ok (p_context (sp_process sp))" by (simp add: proc_ok_def)
  have ids: "mset (map sp_id (scheduled_processes ?s)) = add_mset (sp_id sp) (mset (map sp_id others))"
    using q by (metis mset_map refreshed_ids image_mset_add_mset)
  then have "sp_id sp \<in> set (map sp_id (scheduled_processes ?s))" by (metis set_mset_mset union_single_eq_member)
  then show "sp_id sp \<in> sp_id ` set (scheduled_processes ?s)" by simp
  then have "sp_id sp \<notin> fst ` set ?m" using ok(4) by (auto simp: all_ids_def)
  then have fresh: "bt_get ?m (sp_id sp) = None" by (simp add: map_of_eq_None_iff)
  let ?new = "sp\<lparr>sp_state := Running, priority_counter := priority_counter sp - (6 - unat (PriorityLevel_to_u64 (p_priority (sp_process sp))))\<rparr>"
  let ?k = "dispatched sp others k"
  have m': "running_waiting_procs (scheduler ?k) = bt_insert (sp_id sp) ?new ?m" "scheduled_processes (scheduler ?k) = others"
    "exited_processes (scheduler ?k) = exited_processes ?s" "dropped ?k = dropped k" "process_id (this_cpu ?k) = sp_id sp" "next_pid ?k = next_pid k"
    by (simp_all add: dispatched_def Let_def)
  have set': "set (bt_insert (sp_id sp) ?new ?m) = insert (sp_id sp, ?new) {x \<in> set ?m. fst x \<noteq> sp_id sp}"
    using set_bt_insert_wf[OF ok(1)] .
  have "mset (all_ids ?k) = mset (all_ids k)"
    using ids bt_insert_fresh[OF fresh, of ?new] by (simp add: all_ids_def m')
  moreover have "entry_ok ?D (sp_id sp, ?new)" using sp by (simp add: entry_ok_def waiter_ok_def)
  ultimately show "sched_ok ?k"
    using ok(1,2,7-9) all unfolding sched_ok_def m' set' by simp
  show "current ?k"
    using assms(2) ok(1) unfolding current_def m' set' by (auto simp: no_running_def)
qed

text \<open>The loop between two processes: the CPU takes interrupts and nothing runs.\<close>

definition between :: "('f, 'd) kernel \<Rightarrow> bool" where
  "between k \<longleftrightarrow> sched_lock k = new_lock \<and> cpu_ready (this_cpu k) \<and> sched_ok k \<and> no_running k
     \<and> cpu_context (this_cpu k) = None \<and> n_cli (this_cpu k) = 0 \<and> interrupt_flag (this_cpu k)"

lemma wake_keeps:
  assumes "try_wake_waiting_processes now k = Ret k'" "sched_ok k" "no_running k"
  shows "sched_ok k'" "no_running k'" "same_cpu k k'" "exited_processes (scheduler k') = []"
    "is_shutdown k \<Longrightarrow> scheduled_processes (scheduler k) = [] \<Longrightarrow> running_waiting_procs (scheduler k) = []
       \<Longrightarrow> scheduled_processes (scheduler k') = [] \<and> running_waiting_procs (scheduler k') = []"
proof -
  obtain woken stay ex' gone v sched where w: "sched_ok k'" "same_cpu k k'" "entries_follow k k'"
    "k' = settled sched (requeued woken stay ex' gone v k)"
    "list_all2 adopts (scheduled_processes (scheduler (requeued woken stay ex' gone v k))) sched"
    using try_wake_ok[OF assms(2), of now] unfolding assms(1) exec.inject by (elim exE conjE) simp
  show "sched_ok k'" "same_cpu k k'" using w(1,2) .
  show "exited_processes (scheduler k') = []" using w(4) by (simp add: settled_def)
  have f: "\<forall>y \<in> set (running_waiting_procs (scheduler k')). \<exists>x \<in> set (running_waiting_procs (scheduler k)). fst x = fst y \<and> follows (snd x) (snd y)"
    using w(3) unfolding entries_follow_def by (rule conjunct1)
  show "no_running k'"
    unfolding no_running_def
  proof
    fix y assume "y \<in> set (running_waiting_procs (scheduler k'))"
    then obtain x where "x \<in> set (running_waiting_procs (scheduler k))" "follows (snd x) (snd y)" using f by blast
    then show "sp_state (snd y) \<noteq> Running" using assms(3) by (simp add: no_running_def follows_def)
  qed
  assume z: "is_shutdown k" "scheduled_processes (scheduler k) = []" "running_waiting_procs (scheduler k) = []"
  have "sched = []" using w(5) z by (simp add: requeued_def)
  moreover have "running_waiting_procs (scheduler k') = []"
    using f z(3) by (metis empty_iff empty_set last_in_set)
  ultimately show "scheduled_processes (scheduler k') = [] \<and> running_waiting_procs (scheduler k') = []"
    using w(4) by (simp add: settled_def)
qed

text \<open>The first part of an iteration, up to the choice of the next process.\<close>

definition iteration_head :: "ClockTime \<Rightarrow> ('f, 'd) kernel \<Rightarrow> ('f, 'd) kernel exec" where
  "iteration_head now k =
     bind_exec (lock_scheduler k) (\<lambda>k1.
     bind_exec (if is_shutdown k1 then exit_idle_processes k1 else Ret k1) (\<lambda>k2.
     bind_exec (cpu_push_cli k2) (try_wake_waiting_processes now)))"

lemma iteration_head_ok:
  assumes "between k"
  shows "\<exists>k'. iteration_head now k = Ret k' \<and> sched_ok k' \<and> no_running k' \<and> this_cpu k' = cli_in (in_lock (this_cpu k))
    \<and> sched_lock k' = held_lock \<and> is_shutdown k' = is_shutdown k
    \<and> exited_processes (scheduler k') = [] \<and> next_pid k' = next_pid k
    \<and> (is_shutdown k \<longrightarrow> scheduled_processes (scheduler k') = [] \<and> running_waiting_procs (scheduler k') = [])"
proof -
  let ?k1 = "k\<lparr>sched_lock := held_lock, this_cpu := in_lock (this_cpu k)\<rparr>"
  have b: "sched_lock k = new_lock" "cpu_ready (this_cpu k)" "sched_ok k" "no_running k" "n_cli (this_cpu k) = 0"
    using assms by (simp_all add: between_def)
  have lock: "lock_scheduler k = Ret ?k1"
    using b by (intro lock_scheduler_free) (simp_all add: cli_ok_def usize_bound_def)
  obtain k2 where k2: "(if is_shutdown k then exit_idle_processes ?k1 else Ret ?k1) = Ret k2" "sched_ok k2" "same_cpu ?k1 k2" "no_running k2"
    "is_shutdown k \<longrightarrow> scheduled_processes (scheduler k2) = [] \<and> running_waiting_procs (scheduler k2) = []"
  proof (cases "is_shutdown k")
    case True
    from exit_idle_ok[of ?k1] b obtain k' where "exit_idle_processes ?k1 = Ret k'" "sched_ok k'" "same_cpu ?k1 k'"
      "scheduled_processes (scheduler k') = []" "running_waiting_procs (scheduler k') = []" by auto
    then show ?thesis using that[of k'] True by (simp add: no_running_def)
  next
    case False
    then show ?thesis using that[of ?k1] b by (simp add: same_cpu_def)
  qed
  let ?k3 = "k2\<lparr>this_cpu := cli_in (this_cpu k2)\<rparr>"
  have push: "cpu_push_cli k2 = Ret ?k3" using k2(3) b by (intro cpu_push_cli_eq) (simp_all add: same_cpu_def usize_bound_def)
  have k3: "sched_ok ?k3" "no_running ?k3" using k2 by simp_all
  obtain k4 where k4: "try_wake_waiting_processes now ?k3 = Ret k4" using try_wake_ok[OF k3(1), of now] by (elim exE conjE)
  note w = wake_keeps[OF k4 k3]
  have "iteration_head now k = Ret k4" using lock k2(1) push k4 by (simp add: iteration_head_def)
  moreover have "this_cpu k4 = cli_in (in_lock (this_cpu k))" "sched_lock k4 = held_lock" "is_shutdown k4 = is_shutdown k"
    "next_pid k4 = next_pid k"
    using w(3) k2(3) by (simp_all add: same_cpu_def)
  moreover have "is_shutdown k \<longrightarrow> scheduled_processes (scheduler k4) = [] \<and> running_waiting_procs (scheduler k4) = []"
    using w(5) k2(3,5) by (simp add: same_cpu_def)
  ultimately show ?thesis using w(1,2,4) by blast
qed

lemma schedule_iteration_split:
  "schedule_iteration now pick k = assert_exec (cpu_context (this_cpu k) = None)
     (bind_exec (iteration_head now k) (\<lambda>k4.
      bind_exec (run_next pick k4) (\<lambda>k5.
      bind_exec (unlock_scheduler k5) (\<lambda>k6.
      Ret (if is_shutdown k5 \<and> scheduled_processes (scheduler k5) = []
             \<and> running_waiting_procs (scheduler k5) = [] \<and> cpu_context (this_cpu k5) = None then Stop
          else if cpu_context (this_cpu k6) \<noteq> None then EnterProcess
          else HaltCpu, k6)))))"
  by (simp add: schedule_iteration_def iteration_head_def bind_exec_assoc)

lemma enter_cpu:
  assumes "cpu_ready c" "n_cli c = 0" "interrupt_flag c"
    and "c' = cli_out ((cli_out ((cli_in (in_lock c))\<lparr>process_id := i, cpu_context := x, scheduling := True\<rparr>))\<lparr>guards := 0\<rparr>)"
  shows "cpu_ready c'" "n_cli c' = 0" "interrupt_flag c'" "process_id c' = i" "cpu_context c' = x" "scheduling c'"
  using assms by (cases c; simp add: in_lock_def cli_in_def cli_out_def cpu_ready_def)+

lemma halt_cpu:
  assumes "cpu_ready c" "n_cli c = 0" "interrupt_flag c" "c' = cli_out ((cli_in (in_lock c))\<lparr>guards := 0\<rparr>)"
  shows "cpu_ready c'" "n_cli c' = 1" "\<not> interrupt_flag c'" "cpu_context c' = cpu_context c"
  using assms by (cases c; simp add: in_lock_def cli_in_def cli_out_def cpu_ready_def)+

definition entered :: "('f, 'd) kernel \<Rightarrow> bool" where
  "entered k \<longleftrightarrow> sched_lock k = new_lock \<and> cpu_ready (this_cpu k) \<and> sched_ok k \<and> current k \<and> scheduling (this_cpu k)
     \<and> n_cli (this_cpu k) = 0 \<and> interrupt_flag (this_cpu k)
     \<and> (\<exists>sp. bt_get (running_waiting_procs (scheduler k)) (process_id (this_cpu k)) = Some sp
            \<and> cpu_context (this_cpu k) = Some (p_context (sp_process sp)) \<and> ctx_ok (p_context (sp_process sp)))"

definition halted :: "('f, 'd) kernel \<Rightarrow> bool" where
  "halted k \<longleftrightarrow> sched_lock k = new_lock \<and> cpu_ready (this_cpu k) \<and> sched_ok k \<and> no_running k
     \<and> cpu_context (this_cpu k) = None \<and> n_cli (this_cpu k) = 1 \<and> \<not> interrupt_flag (this_cpu k)"

lemma iteration_idle:
  assumes "between k" "iteration_head now k = Ret k4" "scheduled_processes (scheduler k4) = []"
    and "sched_ok k4" "no_running k4" "this_cpu k4 = cli_in (in_lock (this_cpu k))" "sched_lock k4 = held_lock"
    and "is_shutdown k4 = is_shutdown k" "is_shutdown k \<longrightarrow> running_waiting_procs (scheduler k4) = []"
  shows "\<exists>k'. schedule_iteration now pick k = Ret (if is_shutdown k then Stop else HaltCpu, k') \<and> halted k'
    \<and> scheduler k' = scheduler k4 \<and> dropped k' = dropped k4 \<and> next_pid k' = next_pid k4 \<and> is_shutdown k' = is_shutdown k"
proof -
  let ?c' = "cli_out ((cli_in (in_lock (this_cpu k)))\<lparr>guards := 0\<rparr>)"
  let ?k' = "k4\<lparr>sched_lock := new_lock, this_cpu := ?c'\<rparr>"
  have c: "cpu_ready (this_cpu k)" "n_cli (this_cpu k) = 0" "interrupt_flag (this_cpu k)" "cpu_context (this_cpu k) = None"
    using assms(1) by (simp_all add: between_def)
  note h = halt_cpu[OF c(1-3) refl]
  have "run_next pick k4 = Ret k4"
    using assms(3) by (cases k4) (simp add: run_next_unfold heap_pop_def refreshed_def)
  moreover have "unlock_scheduler k4 = Ret ?k'"
    using c(1) assms(6,7) by (subst unlock_scheduler_held) (simp_all add: cpu_ready_def cli_in_def)
  ultimately have "schedule_iteration now pick k = Ret (if is_shutdown k then Stop else HaltCpu, ?k')"
    using assms(2,3,6,8,9) c(4) h(4) by (simp add: schedule_iteration_split)
  moreover have "halted ?k'" using h c(4) assms(4,5) by (simp add: halted_def)
  ultimately show ?thesis using assms(3,8) by simp
qed

lemma iteration_enter:
  assumes "between k" "iteration_head now k = Ret k4" "scheduled_processes (scheduler k4) \<noteq> []"
    and "sched_ok k4" "no_running k4" "this_cpu k4 = cli_in (in_lock (this_cpu k))" "sched_lock k4 = held_lock"
    and "\<not> is_shutdown k4"
  shows "\<exists>k'. schedule_iteration now pick k = Ret (EnterProcess, k') \<and> entered k' \<and> \<not> is_shutdown k'
    \<and> process_id (this_cpu k') \<in> sp_id ` set (scheduled_processes (scheduler k4))"
proof -
  have c: "cpu_ready (this_cpu k)" "n_cli (this_cpu k) = 0" "interrupt_flag (this_cpu k)" "cpu_context (this_cpu k) = None"
    using assms(1) by (simp_all add: between_def)
  obtain sp others where pop: "heap_pop pick (scheduled_processes (refreshed (scheduler k4))) = Some (sp, others)"
    using assms(3) heap_pop_none[of pick "scheduled_processes (refreshed (scheduler k4))"] by (cases "heap_pop pick (scheduled_processes (refreshed (scheduler k4)))") auto
  note d = dispatched_ok[OF assms(4,5) pop]
  let ?k5 = "dispatched sp others k4"
  let ?c' = "cli_out ((this_cpu ?k5)\<lparr>guards := 0\<rparr>)"
  let ?k' = "?k5\<lparr>sched_lock := new_lock, this_cpu := ?c'\<rparr>"
  have run: "run_next pick k4 = Ret ?k5"
    using assms(6,8) sched_okD(3)[OF assms(4)] by (intro run_next_eq pop) simp_all
  have cpu5: "this_cpu ?k5 = cli_out ((cli_in (in_lock (this_cpu k)))\<lparr>process_id := sp_id sp,
      cpu_context := Some (p_context (sp_process sp)), scheduling := True\<rparr>)"
    by (simp add: dispatched_def Let_def assms(6))
  note e = enter_cpu[OF c(1-3) refl, of "Some (p_context (sp_process sp))" "sp_id sp", folded cpu5]
  have "unlock_scheduler ?k5 = Ret ?k'"
    using c(1) assms(7) by (subst unlock_scheduler_held)
      (simp_all add: cpu5, simp_all add: dispatched_def Let_def cpu_ready_def cli_in_def in_lock_def cli_out_def)
  then have "schedule_iteration now pick k = Ret (EnterProcess, ?k')"
    using assms(2,8) c(4) e(5) run by (simp add: schedule_iteration_split cpu5 dispatched_def Let_def)
  moreover have rw: "bt_get (running_waiting_procs (scheduler ?k5)) (sp_id sp) = Some (sp\<lparr>sp_state := Running,
      priority_counter := priority_counter sp - (6 - unat (PriorityLevel_to_u64 (p_priority (sp_process sp))))\<rparr>)"
    using sched_okD(1)[OF assms(4)] by (simp add: dispatched_def Let_def)
  have "current ?k'" using d(2) e(4) by (simp add: current_def dispatched_def Let_def)
  then have "entered ?k'" using e d(1,3) rw by (simp add: entered_def)
  moreover have "\<not> is_shutdown ?k'" using assms(8) by (simp add: dispatched_def Let_def)
  ultimately show ?thesis using e(4) d(4) by (intro exI[of _ ?k']) simp
qed

section \<open>The running process\<close>

text \<open>A process that is in none of the places of the scheduler, between two of them.\<close>

definition missing :: "('f, 'd) Process \<Rightarrow> ('f, 'd) kernel \<Rightarrow> bool" where
  "missing p k \<longleftrightarrow>
     bt_wf (running_waiting_procs (scheduler k))
   \<and> (\<forall>x \<in> set (running_waiting_procs (scheduler k)). entry_ok (p_id ` set (dropped k)) x)
   \<and> (\<forall>sp \<in> set (scheduled_processes (scheduler k)). sp_state sp = Scheduled \<and> proc_ok (p_id ` set (dropped k)) (sp_process sp))
   \<and> (\<forall>e \<in> set (exited_processes (scheduler k)). nonneg (p_exit_code e))
   \<and> add_mset (p_id p) (mset (all_ids k)) = mset [0..<next_pid k] \<and> next_pid k \<le> I64_MAX
   \<and> proc_ok (p_id ` set (dropped k)) p"

lemma missing_id: "missing p k \<Longrightarrow> p_id p < I64_MAX"
proof -
  assume m: "missing p k"
  have "p_id p \<in># mset [0..<next_pid k]" using m unfolding missing_def by (metis union_single_eq_member)
  then show ?thesis using m by (simp add: missing_def)
qed

lemma missing_exited:
  assumes "missing p k" "p_id q = p_id p" "nonneg (p_exit_code q)"
  shows "sched_ok (push_exited q k)"
  using assms by (simp add: sched_ok_def missing_def push_exited_def all_ids_def)

lemma missing_rescheduled:
  assumes "missing (sp_process sp) k"
  shows "\<exists>k'. reschedule_process sp k = Ret k' \<and> sched_ok k' \<and> same_cpu k k' \<and> running_waiting_procs (scheduler k') = running_waiting_procs (scheduler k)"
proof -
  obtain v where r: "reschedule_process sp k = Ret (k\<lparr>vga_owner := v, scheduler := (scheduler k)
    \<lparr>scheduled_processes := scheduled_processes (scheduler k) @ (if is_shutdown k then [] else [rescheduled (max_priority (scheduler k)) sp]),
     exited_processes := exited_processes (scheduler k) @ (if is_shutdown k then [(sp_process sp)\<lparr>p_exit_code := 0xFF\<rparr>] else [])\<rparr>\<rparr>)"
    (is "_ = Ret ?k'")
    using reschedule_process_ok[OF missing_id[OF assms]] by blast
  have "sched_ok ?k'"
    using assms by (cases "is_shutdown k") (simp_all add: sched_ok_def missing_def all_ids_def nonneg_def)
  then show ?thesis using r by (simp add: same_cpu_def)
qed

lemma unload_missing:
  assumes "sched_ok k" "bt_get (running_waiting_procs (scheduler k)) (process_id (this_cpu k)) = Some sp"
  shows "missing (sp_process (parked k a sp)) (unload c a k)"
proof -
  note ok = sched_okD[OF assms(1)]
  have in_m: "(process_id (this_cpu k), sp) \<in> set (running_waiting_procs (scheduler k))" using assms(2) bt_in_set[OF ok(1)] by simp
  then have e: "entry_ok (p_id ` set (dropped k)) (process_id (this_cpu k), sp)" using ok(2) by blast
  have "add_mset (process_id (this_cpu k)) (mset (all_ids (unload c a k))) = mset (all_ids k)"
    using bt_remove_mset[OF ok(1) assms(2)] by (simp add: all_ids_def unload_def)
  moreover have "proc_ok (p_id ` set (dropped k)) (sp_process (parked k a sp))" "p_id (sp_process (parked k a sp)) = process_id (this_cpu k)"
    using e by (simp_all add: parked_def entry_ok_def proc_ok_def)
  ultimately show ?thesis using ok(1-3,7-9) by (simp add: missing_def unload_def)
qed

lemma new_missing:
  assumes "sched_ok k" "new_process p k"
  shows "missing p (k\<lparr>next_pid := next_pid k + 1\<rparr>)"
proof -
  have n: "mset [0..<next_pid k + 1] = add_mset (next_pid k) (mset [0..<next_pid k])" by simp
  have "all_ids (k\<lparr>next_pid := next_pid k + 1\<rparr>) = all_ids k" by (simp add: all_ids_def)
  then show ?thesis using assms n by (simp add: missing_def sched_ok_def new_process_def proc_ok_def)
qed

text \<open>A process on the CPU, in user mode or in a handler it has entered.\<close>

definition on_cpu :: "('f, 'd) kernel \<Rightarrow> bool" where
  "on_cpu k \<longleftrightarrow> sched_lock k = new_lock \<and> cpu_ready (this_cpu k) \<and> sched_ok k \<and> current k
     \<and> \<not> scheduling (this_cpu k) \<and> n_cli (this_cpu k) = 0
     \<and> (\<exists>kc. cpu_context (this_cpu k) = Some kc \<and> bit (c_rflags kc) 9)"

definition off_cpu :: "('f, 'd) kernel \<Rightarrow> bool" where
  "off_cpu k \<longleftrightarrow> sched_lock k = new_lock \<and> cpu_ready (this_cpu k) \<and> sched_ok k \<and> no_running k
     \<and> cpu_context (this_cpu k) = None \<and> n_cli (this_cpu k) = 0"

definition to_kernel :: "InterruptAllSavedState \<Rightarrow> bool" where
  "to_kernel a \<longleftrightarrow> bit (f_rflags (frame a)) 9"

lemma on_cpu_calm: "on_cpu k \<Longrightarrow> calm k"
  by (simp add: on_cpu_def calm_def cli_ok_def room_def usize_bound_def)

lemma on_cpuE:
  assumes "on_cpu k"
  obtains sp kc where "calm k" "sched_ok k" "bt_get (running_waiting_procs (scheduler k)) (process_id (this_cpu k)) = Some sp"
    "sp_state sp = Running" "cpu_context (this_cpu k) = Some kc" "bit (c_rflags kc) 9" "\<not> scheduling (this_cpu k)"
    "n_cli (this_cpu k) + 3 < usize_bound"
  using assms on_cpu_calm[OF assms] that by (auto simp: on_cpu_def current_def usize_bound_def)

lemma swapped_to_kernel: "bit (c_rflags kc) 9 \<Longrightarrow> to_kernel (snd (snd (swap_context f kc a)))"
  by (simp add: to_kernel_def swap_context_def)

lemma unload_off:
  assumes "on_cpu k"
  shows "sched_lock (unload c a k) = new_lock" "cpu_ready (this_cpu (unload c a k))" "no_running (unload c a k)"
    "cpu_context (this_cpu (unload c a k)) = None" "n_cli (this_cpu (unload c a k)) = 0"
  using assms by (auto simp: on_cpu_def unload_def no_running_def current_def)

lemma yield_ok:
  assumes "on_cpu k"
  shows "\<exists>a1 k'. yield_current_if_any a k = Ret (a1, k') \<and> to_kernel a1 \<and> off_cpu k'"
proof -
  obtain sp kc where o: "calm k" "sched_ok k" "bt_get (running_waiting_procs (scheduler k)) (process_id (this_cpu k)) = Some sp"
    "sp_state sp = Running" "cpu_context (this_cpu k) = Some kc" "bit (c_rflags kc) 9" "\<not> scheduling (this_cpu k)"
    "n_cli (this_cpu k) + 3 < usize_bound" using assms by (rule on_cpuE)
  obtain k1 where k1: "reschedule_process (parked k a sp) (unload kc a k) = Ret k1" "sched_ok k1" "same_cpu (unload kc a k) k1"
    "running_waiting_procs (scheduler k1) = running_waiting_procs (scheduler (unload kc a k))"
    using missing_rescheduled[OF unload_missing[OF o(2,3)]] by blast
  then have "off_cpu k1" using unload_off[OF assms, of kc a] by (simp add: off_cpu_def same_cpu_def no_running_def)
  then show ?thesis using yield_current_eq[OF o(1,3-5,7,8)] k1(1) swapped_to_kernel[OF o(6)] by simp
qed

lemma yield_off: "cpu_context (this_cpu k) = None \<Longrightarrow> yield_current_if_any a k = Ret (a, k)"
  by (simp add: yield_current_if_any_def)

lemma exit_ok:
  assumes "on_cpu k" "nonneg code"
  shows "\<exists>a1 k'. exit_current_process code a k = Ret (a1, k') \<and> to_kernel a1 \<and> off_cpu k'"
proof -
  obtain sp kc where o: "calm k" "sched_ok k" "bt_get (running_waiting_procs (scheduler k)) (process_id (this_cpu k)) = Some sp"
    "sp_state sp = Running" "cpu_context (this_cpu k) = Some kc" "bit (c_rflags kc) 9" "\<not> scheduling (this_cpu k)"
    "n_cli (this_cpu k) + 3 < usize_bound" using assms(1) by (rule on_cpuE)
  let ?p = "(sp_process (parked k a sp))\<lparr>p_exit_code := code\<rparr>"
  note m = unload_missing[OF o(2,3), of a kc]
  obtain v where v: "process_exit code (vga_owner k) (sp_process (parked k a sp)) = Ret (v, ?p)"
    using process_exit_ok[OF missing_id[OF m]] by blast
  have "sched_ok (push_exited ?p (unload kc a k))" using missing_exited[OF m, of ?p] assms(2) by simp
  then have "off_cpu (push_exited ?p ((unload kc a k)\<lparr>vga_owner := v\<rparr>))"
    using unload_off[OF assms(1), of kc a] by (simp add: off_cpu_def push_exited_def no_running_def sched_ok_def all_ids_def)
  then show ?thesis using exit_current_eq[OF o(1,3-5,8)] v swapped_to_kernel[OF o(6)] by simp
qed

lemma bt_insert_keys: "bt_wf m \<Longrightarrow> bt_get m i = Some v \<Longrightarrow> map fst (bt_insert i v' m) = map fst m"
proof (induction m)
  case (Cons x m)
  obtain j w where x: "x = (j, w)" by (cases x)
  show ?case
  proof (cases "j = i")
    case False
    then have g: "bt_get m i = Some v" using Cons.prems by (simp add: x)
    then have "j < i" using Cons.prems(1) map_of_SomeD[OF g] by (auto simp: x bt_wf_Cons)
    then show ?thesis using Cons g by (simp add: x bt_wf_Cons)
  qed (use x in simp)
qed simp

definition put_entry :: "pid \<Rightarrow> ('f, 'd) SchedulerProcess \<Rightarrow> ('f, 'd) kernel \<Rightarrow> ('f, 'd) kernel" where
  "put_entry i sp k = k\<lparr>scheduler := (scheduler k)\<lparr>running_waiting_procs := bt_insert i sp (running_waiting_procs (scheduler k))\<rparr>\<rparr>"

lemma put_entry_ok:
  assumes "sched_ok k" "bt_get (running_waiting_procs (scheduler k)) i = Some sp" "entry_ok (p_id ` set (dropped k)) (i, sp')"
  shows "sched_ok (put_entry i sp' k)"
proof -
  note ok = sched_okD[OF assms(1)]
  have "all_ids (put_entry i sp' k) = all_ids k"
    using bt_insert_keys[OF ok(1) assms(2)] by (simp add: all_ids_def put_entry_def)
  moreover have "\<forall>x \<in> set (bt_insert i sp' (running_waiting_procs (scheduler k))). entry_ok (p_id ` set (dropped k)) x"
    using ok(2) assms(3) unfolding set_bt_insert_wf[OF ok(1)] by blast
  ultimately show ?thesis using ok(1,3,7-9) by (simp add: sched_ok_def put_entry_def)
qed

lemma current_entry:
  assumes "sched_ok k" "bt_get (running_waiting_procs (scheduler k)) i = Some sp"
  shows "entry_ok (p_id ` set (dropped k)) (i, sp)"
  using assms(2) bt_in_set[OF sched_okD(1)[OF assms(1)], of i sp] by (intro sched_okD(2)[OF assms(1)]) simp

lemma ucast_user: "(ucast (b :: u8) :: u64) AND 3 = 3 \<longleftrightarrow> b AND 3 = 3"
proof -
  have 1: "(ucast (b :: u8) :: u64) AND 3 = ucast (b AND 3)" by (simp add: unsigned_and_eq)
  have "(ucast (b AND 3) :: u64) = ucast (3 :: u8) \<longleftrightarrow> b AND 3 = 3"
    by (metis ucast_byte_up_down)
  then show ?thesis by (simp add: 1)
qed

lemma park_ok:
  assumes "on_cpu k" "st \<noteq> Running" "st \<noteq> Scheduled" "f_cs (frame a) AND 3 = 3"
  shows "\<exists>a1 k'. park_current st a k = Ret (a1, k') \<and> to_kernel a1 \<and> off_cpu k'"
proof -
  obtain sp kc where o: "calm k" "sched_ok k" "bt_get (running_waiting_procs (scheduler k)) (process_id (this_cpu k)) = Some sp"
    "sp_state sp = Running" "cpu_context (this_cpu k) = Some kc" "bit (c_rflags kc) 9" "\<not> scheduling (this_cpu k)"
    "n_cli (this_cpu k) + 3 < usize_bound" using assms(1) by (rule on_cpuE)
  let ?i = "process_id (this_cpu k)"
  let ?sp = "sp\<lparr>sp_state := st, sp_process := (sp_process sp)\<lparr>p_context := saved_context (fpu k) a\<rparr>\<rparr>"
  have "c_cs (saved_context (fpu k) a) AND 3 = 3" using assms(4) by (simp add: saved_context_def ucast_user)
  then have "entry_ok (p_id ` set (dropped k)) (?i, ?sp)"
    using current_entry[OF o(2,3)] assms(3) by (simp add: entry_ok_def proc_ok_def waiter_ok_def)
  note ok = put_entry_ok[OF o(2,3) this]
  have "no_running (put_entry ?i ?sp k)"
    using assms(1,2) set_bt_insert_wf[OF sched_okD(1)[OF o(2)], of ?i ?sp]
    by (auto simp: no_running_def put_entry_def on_cpu_def current_def)
  then have "off_cpu ((put_entry ?i ?sp k)\<lparr>fpu := c_fxsave kc, this_cpu := (cli_settle (this_cpu k))\<lparr>cpu_context := None\<rparr>\<rparr>)"
    using assms(1) ok by (simp add: off_cpu_def on_cpu_def put_entry_def)
  then show ?thesis
    using park_current_eq[OF o(1,3-5)] swapped_to_kernel[OF o(6)] by (simp add: put_entry_def)
qed

text \<open>Changes of the running process that keep its identity and its records in order.\<close>

lemma with_current_ok:
  assumes "on_cpu k" "\<And>p. p_id (snd (f p)) = p_id p" "\<And>p. p_context (snd (f p)) = p_context p"
    and "\<And>p. children_exits (snd (f p)) = children_exits p \<or> (\<exists>q. children_exits (snd (f p)) = bt_remove q (children_exits p))"
  shows "\<exists>sp k'. with_current_process f k = Ret (fst (f (sp_process sp)), k') \<and> on_cpu k'
    \<and> bt_get (running_waiting_procs (scheduler k)) (process_id (this_cpu k)) = Some sp \<and> proc_ok (p_id ` set (dropped k)) (sp_process sp)"
proof -
  obtain sp kc where o: "calm k" "sched_ok k" "bt_get (running_waiting_procs (scheduler k)) (process_id (this_cpu k)) = Some sp"
    "sp_state sp = Running" using assms(1) by (rule on_cpuE)
  let ?i = "process_id (this_cpu k)" and ?D = "p_id ` set (dropped k)"
  let ?sp = "sp\<lparr>sp_process := snd (f (sp_process sp))\<rparr>"
  have e: "entry_ok ?D (?i, sp)" using current_entry[OF o(2,3)] .
  then have p: "proc_ok ?D (sp_process sp)" by (simp add: entry_ok_def)
  have "proc_ok ?D (snd (f (sp_process sp)))"
    using assms(4)[of "sp_process sp"]
  proof (elim disjE exE)
    fix q assume "children_exits (snd (f (sp_process sp))) = bt_remove q (children_exits (sp_process sp))"
    then show ?thesis using p assms(3)[of "sp_process sp"] by (simp add: proc_ok_def) blast
  qed (use p assms(3)[of "sp_process sp"] in \<open>simp add: proc_ok_def\<close>)
  then have "entry_ok ?D (?i, ?sp)" using e assms(2,3) by (simp add: entry_ok_def waiter_ok_def)
  note ok = put_entry_ok[OF o(2,3) this]
  have wf: "bt_wf (running_waiting_procs (scheduler k))" using sched_okD(1)[OF o(2)] .
  have "current (put_entry ?i ?sp k)"
    using assms(1) o(4) wf set_bt_insert_wf[OF wf, of ?i ?sp] by (auto simp: current_def put_entry_def on_cpu_def)
  then have "on_cpu ((put_entry ?i ?sp k)\<lparr>this_cpu := cli_settle (this_cpu k)\<rparr>)"
    using assms(1) ok by (simp add: on_cpu_def put_entry_def current_def)
  then show ?thesis
    using with_current_process_eq[OF o(1,3,4), of f] o(3) p by (simp add: put_entry_def)
qed

lemma settle_on_cpu: "on_cpu k \<Longrightarrow> on_cpu (k\<lparr>this_cpu := cli_settle (this_cpu k)\<rparr>)"
  by (simp add: on_cpu_def current_def)

lemma is_running_ok:
  assumes "on_cpu k"
  shows "\<exists>b k'. is_process_running pid k = Ret (b, k') \<and> on_cpu k'"
  unfolding is_process_running_eq[OF on_cpu_calm[OF assms], of pid] using settle_on_cpu[OF assms] by blast

end
