(* ===== verification/Scheduler_Events.thy ===== *)
theory Scheduler_Events
  imports Scheduler_Run
begin

unbundle bit_operations_syntax

text \<open>
  The kernel as a state machine.  Every event is followed from the states the kernel can be in to
  the states it leaves; which events stop the kernel is known exactly, and the invariant of the
  scheduler holds in every reachable state.
\<close>

section \<open>Results of the scheduler's system calls\<close>

lemma to_kernel_rax [simp]: "to_kernel (a\<lparr>rest := r\<rparr>) = to_kernel a"
  by (simp add: to_kernel_def)

lemma scast_nonneg: "(scast (c :: i32) :: u64) AND msb64 = 0 \<longleftrightarrow> nonneg c"
proof
  assume "nonneg c"
  then show "(scast c :: u64) AND msb64 = 0"
    by (intro bit_eqI) (auto simp: bit_simps bit_signed_iff nonneg_def)
next
  assume z: "(scast c :: u64) AND msb64 = 0"
  have "\<not> bit ((scast c :: u64) AND msb64) 63" unfolding z by simp
  then show "nonneg c" by (simp add: bit_simps bit_signed_iff nonneg_def)
qed

lemma priority_result: "PriorityLevel_to_u64 p AND msb64 = 0"
  by (cases p) (simp_all add: msb64_def)

lemma arg_err1_result [simp]: "is_ret (bind_exec (syscall_err_upper (arg_err1 e)) (\<lambda>w. Ret (w OR msb64)))"
  by (simp add: arg_err1_def)

text \<open>A call has returned: to the process, or to the kernel after it took the process off the CPU.\<close>

definition call_ok :: "('f, 'd) syscall_outcome \<Rightarrow> bool" where
  "call_ok r \<longleftrightarrow> (\<exists>res a k. r = Ret (res, a, k) \<and> is_ret (syscall_result_to_u64 res) \<and> (on_cpu k \<or> off_cpu k \<and> to_kernel a))"

lemma call_okI:
  "r = Ret (res, a, k) \<Longrightarrow> is_ret (syscall_result_to_u64 res) \<Longrightarrow> on_cpu k \<or> off_cpu k \<and> to_kernel a \<Longrightarrow> call_ok r"
  by (auto simp: call_ok_def)

lemma finish_ok:
  assumes "call_ok r"
  shows "\<exists>a k. finish_syscall r = Ret (a, k) \<and> off_cpu k \<and> to_kernel a"
proof -
  obtain res a k v where r: "r = Ret (res, a, k)" "syscall_result_to_u64 res = Ret v" "on_cpu k \<or> off_cpu k \<and> to_kernel a"
    using assms by (auto simp: call_ok_def is_ret_iff)
  let ?a = "a\<lparr>rest := (rest a)\<lparr>r_rax := v\<rparr>\<rparr>"
  have f: "finish_syscall r = yield_current_if_any ?a k" using r(1,2) by (simp add: finish_syscall_def)
  show ?thesis
  proof (cases "on_cpu k")
    case True
    then show ?thesis unfolding f using yield_ok[OF True, of ?a] by blast
  next
    case False
    then have o: "off_cpu k" "to_kernel a" using r(3) by simp_all
    then have "yield_current_if_any ?a k = Ret (?a, k)" by (intro yield_off) (simp add: off_cpu_def)
    then show ?thesis unfolding f using o by simp
  qed
qed

lemma finish_panic: "r = Ret (res, a, k) \<Longrightarrow> \<not> is_ret (syscall_result_to_u64 res) \<Longrightarrow> \<not> is_ret (finish_syscall r)"
  by (cases "syscall_result_to_u64 res") (simp_all add: finish_syscall_def)

section \<open>The calls\<close>

lemma sys_exit_ok:
  assumes "on_cpu k"
  shows "is_ret (finish_syscall (sys_exit a k)) \<longleftrightarrow> nonneg (ucast (r_rcx (rest a)))"
    "nonneg (ucast (r_rcx (rest a))) \<Longrightarrow> call_ok (sys_exit a k)"
proof -
  let ?c = "ucast (r_rcx (rest a)) :: i32"
  show ok: "call_ok (sys_exit a k)" if n: "nonneg ?c"
  proof -
    obtain a1 k1 where "exit_current_process ?c a k = Ret (a1, k1)" "to_kernel a1" "off_cpu k1"
      using exit_ok[OF assms n, of a] by blast
    then show ?thesis
      using n scast_nonneg[of ?c] by (intro call_okI[of _ "Inr (scast ?c)" a1 k1]) (simp_all add: sys_exit_def)
  qed
  show "is_ret (finish_syscall (sys_exit a k)) \<longleftrightarrow> nonneg ?c"
  proof
    assume r: "is_ret (finish_syscall (sys_exit a k))"
    show "nonneg ?c"
    proof (rule ccontr)
      assume n: "\<not> nonneg ?c"
      then have "\<not> is_ret (finish_syscall (sys_exit a k))"
        using scast_nonneg[of ?c]
        by (cases "exit_current_process ?c a k") (auto simp: sys_exit_def finish_syscall_def)
      then show False using r by simp
    qed
  next
    assume "nonneg ?c"
    then show "is_ret (finish_syscall (sys_exit a k))" using finish_ok[OF ok] by (auto simp: is_ret_iff)
  qed
qed

lemma get_child_exit_facts [simp]:
  "p_id (snd (get_child_exit q p)) = p_id p" "p_context (snd (get_child_exit q p)) = p_context p"
  "children_exits (snd (get_child_exit q p)) = bt_remove q (children_exits p)"
  "fst (get_child_exit q p) = bt_get (children_exits p) q"
  by (simp_all add: get_child_exit_def)

lemma wait_for_pid_ok:
  assumes "on_cpu k" "f_cs (frame a) AND 3 = 3"
  shows "\<exists>b a1 k1. wait_for_pid a pid k = Ret (b, a1, k1) \<and> (on_cpu k1 \<or> off_cpu k1 \<and> to_kernel a1)"
proof -
  obtain b k1 where r: "is_process_running pid k = Ret (b, k1)" "on_cpu k1" using is_running_ok[OF assms(1)] by blast
  have c: "cpu_context (this_cpu k) \<noteq> None" using assms(1) by (auto simp: on_cpu_def)
  show ?thesis
  proof (cases b)
    case True
    obtain a1 k2 where "park_current (WaitingForPid pid) a k1 = Ret (a1, k2)" "to_kernel a1" "off_cpu k2"
      using park_ok[OF r(2) _ _ assms(2), of "WaitingForPid pid"] by auto
    then show ?thesis using r c True
      by (intro exI[of _ True] exI[of _ a1] exI[of _ k2]) (simp add: wait_for_pid_def)
  next
    case False
    then show ?thesis using r c
      by (intro exI[of _ False] exI[of _ a] exI[of _ k1]) (simp add: wait_for_pid_def)
  qed
qed

lemma sys_wait_pid_ok:
  assumes "on_cpu k" "f_cs (frame a) AND 3 = 3"
  shows "call_ok (sys_wait_pid a k)"
proof -
  let ?pid = "unat (r_rcx (rest a))"
  obtain p :: "('a, 'b) Process" and k1 where w: "with_current_process (get_child_exit ?pid) k = Ret (bt_get (children_exits p) ?pid, k1)"
    "on_cpu k1" "proc_ok (p_id ` set (dropped k)) p"
  proof -
    have ch: "children_exits (snd (get_child_exit ?pid p)) = children_exits p
        \<or> (\<exists>q. children_exits (snd (get_child_exit ?pid p)) = bt_remove q (children_exits p))" for p :: "('a, 'b) Process"
      by auto
    obtain p :: "('a, 'b) Process" and k1 where
      "with_current_process (get_child_exit ?pid) k = Ret (fst (get_child_exit ?pid p), k1)"
      "on_cpu k1" "proc_ok (p_id ` set (dropped k)) p"
      using with_current_ok[OF assms(1) get_child_exit_facts(1,2) ch] by blast
    then show thesis using that[of p k1] by simp
  qed
  show ?thesis
  proof (cases "bt_get (children_exits p) ?pid")
    case (Some code)
    then have "nonneg code" using w(3) map_of_SomeD[OF Some] by (auto simp: proc_ok_def)
    then show ?thesis
      using Some w scast_nonneg[of code] by (intro call_okI[of _ "Inr (scast code)" a k1]) (simp_all add: sys_wait_pid_def Let_def)
  next
    case None
    show ?thesis
    proof (cases "r_rdx (rest a) = 0")
      case True
      obtain b k2 where r: "is_process_running ?pid k1 = Ret (b, k2)" "on_cpu k2" using is_running_ok[OF w(2)] by blast
      then show ?thesis using None w True
        by (intro call_okI[of _ "Inl (if b then ProcessStillRunning else PidNotFound)" a k2]) (simp_all add: sys_wait_pid_def Let_def)
    next
      case False
      obtain b a1 k2 where r: "wait_for_pid a ?pid k1 = Ret (b, a1, k2)" "on_cpu k2 \<or> off_cpu k2 \<and> to_kernel a1"
        using wait_for_pid_ok[OF w(2) assms(2)] by blast
      then show ?thesis using None w False
        by (intro call_okI[of _ "if b then Inr 0 else Inl PidNotFound" a1 k2]) (simp_all add: sys_wait_pid_def Let_def)
    qed
  qed
qed

text \<open>A sleep returns unless its deadline is beyond the last second the clock can count.\<close>

lemma clock_add_ret:
  assumes "clock_ok a" "clock_ok b"
  shows "is_ret (clock_add a b) \<longleftrightarrow> seconds a + seconds b + (nanoseconds a + nanoseconds b) div 1000000000 < usize_bound"
proof -
  have "nanoseconds a + nanoseconds b < usize_bound"
    using assms by (simp add: clock_ok_def NANOS_PER_SEC_def usize_bound_def)
  then show ?thesis by (auto simp: clock_add_def usize_add_def)
qed

definition sleep_fits :: "ClockTime \<Rightarrow> InterruptAllSavedState \<Rightarrow> bool" where
  "sleep_fits now a \<longleftrightarrow> (let s = unat (r_rcx (rest a)); n = unat (r_rdx (rest a)) in
     NANOS_PER_SEC \<le> n \<or> seconds now + s + (nanoseconds now + n) div 1000000000 < usize_bound)"

lemma sys_sleep_ok:
  assumes "on_cpu k" "f_cs (frame a) AND 3 = 3" "clock_ok now"
  shows "is_ret (finish_syscall (sys_sleep now a k)) \<longleftrightarrow> sleep_fits now a" "sleep_fits now a \<Longrightarrow> call_ok (sys_sleep now a k)"
proof -
  let ?s = "unat (r_rcx (rest a))" and ?n = "unat (r_rdx (rest a))"
  let ?a = "a\<lparr>rest := (rest a)\<lparr>r_rax := 0\<rparr>\<rparr>"
  have c: "cpu_context (this_cpu k) \<noteq> None" using assms(1) by (auto simp: on_cpu_def)
  have small: "is_ret (clock_add now (ClockTime ?n ?s)) \<longleftrightarrow> sleep_fits now a" if "\<not> NANOS_PER_SEC \<le> ?n"
    using clock_add_ret[OF assms(3), of "ClockTime ?n ?s"] that by (simp add: sleep_fits_def Let_def clock_ok_def)
  show ok: "call_ok (sys_sleep now a k)" if f: "sleep_fits now a"
  proof (cases "NANOS_PER_SEC \<le> ?n")
    case True
    then show ?thesis
      using assms(1) by (intro call_okI[of _ "Inl (arg_err1 InvalidNanoseconds)" a k]) (simp_all add: sys_sleep_def Let_def)
  next
    case False
    then obtain d where d: "clock_add now (ClockTime ?n ?s) = Ret d" using small f by (auto simp: is_ret_iff)
    obtain a1 k1 where "park_current (WaitingForTime d) ?a k = Ret (a1, k1)" "to_kernel a1" "off_cpu k1"
      using park_ok[OF assms(1), of "WaitingForTime d" ?a] assms(2) by auto
    then show ?thesis using False d c
      by (intro call_okI[of _ "Inr 0" a1 k1]) (simp_all add: sys_sleep_def sleep_current_process_def Let_def)
  qed
  show "is_ret (finish_syscall (sys_sleep now a k)) \<longleftrightarrow> sleep_fits now a"
  proof (cases "sleep_fits now a")
    case True
    then show ?thesis using finish_ok[OF ok[OF True]] by (auto simp: is_ret_iff)
  next
    case False
    then have n: "\<not> NANOS_PER_SEC \<le> ?n" by (simp add: sleep_fits_def Let_def)
    then have "\<not> is_ret (clock_add now (ClockTime ?n ?s))" using small False by simp
    then show ?thesis using False n c
      by (cases "clock_add now (ClockTime ?n ?s)") (simp_all add: sys_sleep_def sleep_current_process_def finish_syscall_def Let_def)
  qed
qed

text \<open>Changes of any process by its id, in the run queue or outside.\<close>

definition known :: "pid \<Rightarrow> ('f, 'd) kernel \<Rightarrow> bool" where
  "known pid k \<longleftrightarrow> pid \<in> fst ` set (running_waiting_procs (scheduler k)) \<union> sp_id ` set (scheduled_processes (scheduler k))"

definition keeps :: "(('f, 'd) Process \<Rightarrow> 'r \<times> ('f, 'd) Process) \<Rightarrow> bool" where
  "keeps f \<longleftrightarrow> (\<forall>p. p_id (snd (f p)) = p_id p \<and> p_context (snd (f p)) = p_context p
     \<and> children_exits (snd (f p)) = children_exits p)"

lemma keeps_ok: "keeps f \<Longrightarrow> proc_ok D (snd (f p)) = proc_ok D p" "keeps f \<Longrightarrow> p_id (snd (f p)) = p_id p"
  by (simp_all add: keeps_def proc_ok_def)

lemma touch_entry_ok:
  assumes "sched_ok k" "bt_get (running_waiting_procs (scheduler k)) i = Some sp" "keeps f"
  shows "sched_ok (put_entry i (sp\<lparr>sp_process := snd (f (sp_process sp))\<rparr>) k)"
  using current_entry[OF assms(1,2)] assms(3)
  by (intro put_entry_ok[OF assms(1,2)]) (simp add: entry_ok_def keeps_ok waiter_ok_def keeps_def)

definition put_queued :: "nat \<Rightarrow> ('f, 'd) SchedulerProcess \<Rightarrow> ('f, 'd) kernel \<Rightarrow> ('f, 'd) kernel" where
  "put_queued i sp k = k\<lparr>scheduler := (scheduler k)\<lparr>scheduled_processes := (scheduled_processes (scheduler k))[i := sp]\<rparr>\<rparr>"

lemma touch_queued_ok:
  assumes "sched_ok k" "i < length (scheduled_processes (scheduler k))" "sp = scheduled_processes (scheduler k) ! i" "keeps f"
  shows "sched_ok (put_queued i (sp\<lparr>sp_process := snd (f (sp_process sp))\<rparr>) k)"
proof -
  let ?q = "scheduled_processes (scheduler k)" and ?sp = "sp\<lparr>sp_process := snd (f (sp_process sp))\<rparr>"
  note ok = sched_okD[OF assms(1)]
  have sp: "sp_state sp = Scheduled" "proc_ok (p_id ` set (dropped k)) (sp_process sp)" using ok(3)[of sp] assms(2,3) by simp_all
  have "map sp_id (?q[i := ?sp]) = map sp_id ?q" using assms(2-4) by (simp add: map_update keeps_ok list_update_same_conv)
  then have "all_ids (put_queued i ?sp k) = all_ids k" by (simp add: all_ids_def put_queued_def)
  moreover have "\<forall>x \<in> set (?q[i := ?sp]). sp_state x = Scheduled \<and> proc_ok (p_id ` set (dropped k)) (sp_process x)"
  proof
    fix x assume "x \<in> set (?q[i := ?sp])"
    then have "x = ?sp \<or> x \<in> set ?q" using set_update_subset_insert[of ?q i ?sp] by blast
    then show "sp_state x = Scheduled \<and> proc_ok (p_id ` set (dropped k)) (sp_process x)"
      using sp ok(3)[of x] assms(4) by (auto simp: keeps_ok)
  qed
  ultimately show ?thesis using ok(1,2,7-9) by (simp add: sched_ok_def put_queued_def)
qed

lemma on_cpu_update:
  assumes "on_cpu k" "sched_ok (k\<lparr>scheduler := s\<rparr>)"
    and "\<And>i. map_option sp_state (bt_get (running_waiting_procs s) i) = map_option sp_state (bt_get (running_waiting_procs (scheduler k)) i)"
  shows "on_cpu (k\<lparr>scheduler := s, this_cpu := cli_settle (this_cpu k)\<rparr>)"
proof -
  have wf: "bt_wf (running_waiting_procs s)" using sched_okD(1)[OF assms(2)] by simp
  have wk: "bt_wf (running_waiting_procs (scheduler k))" using assms(1) sched_okD(1) by (auto simp: on_cpu_def)
  let ?i = "process_id (this_cpu k)"
  have cur: "current k" using assms(1) by (simp add: on_cpu_def)
  obtain sp where "bt_get (running_waiting_procs s) ?i = Some sp" "sp_state sp = Running"
    using assms(3)[of ?i] cur by (cases "bt_get (running_waiting_procs s) ?i") (auto simp: current_def)
  moreover have "fst x = ?i" if x: "x \<in> set (running_waiting_procs s)" "sp_state (snd x) = Running" for x
  proof -
    have "bt_get (running_waiting_procs s) (fst x) = Some (snd x)" using bt_in_set[OF wf, of "fst x" "snd x"] x(1) by simp
    then obtain y where y: "bt_get (running_waiting_procs (scheduler k)) (fst x) = Some y" "sp_state y = Running"
      using assms(3)[of "fst x"] x(2) by (cases "bt_get (running_waiting_procs (scheduler k)) (fst x)") auto
    then have "(fst x, y) \<in> set (running_waiting_procs (scheduler k))" using bt_in_set[OF wk] by simp
    then show ?thesis using cur y(2) by (auto simp: current_def)
  qed
  ultimately have "current (k\<lparr>scheduler := s\<rparr>)" by (simp add: current_def)
  then show ?thesis using assms(1,2) by (simp add: on_cpu_def current_def)
qed

lemma bt_insert_state:
  assumes "bt_wf m" "bt_get m i = Some sp" "sp_state sp' = sp_state sp"
  shows "map_option sp_state (bt_get (bt_insert i sp' m) j) = map_option sp_state (bt_get m j)"
  using assms by simp

lemma with_process_entry:
  assumes "on_cpu k" "keeps f" "bt_get (running_waiting_procs (scheduler k)) pid = Some sp"
  shows "\<exists>k'. with_process pid f k = Ret (fst (f (sp_process sp)), k') \<and> on_cpu k'"
proof -
  let ?sp = "sp\<lparr>sp_process := snd (f (sp_process sp))\<rparr>"
  let ?s = "(scheduler k)\<lparr>running_waiting_procs := bt_insert pid ?sp (running_waiting_procs (scheduler k))\<rparr>"
  have ok: "sched_ok k" using assms(1) by (simp add: on_cpu_def)
  have "with_process pid f k = Ret (fst (f (sp_process sp)), k\<lparr>scheduler := ?s, this_cpu := cli_settle (this_cpu k)\<rparr>)"
    using on_cpu_calm[OF assms(1)] assms(3) by (cases k) (simp add: with_process_def section_simps split: prod.splits)
  moreover have "sched_ok (k\<lparr>scheduler := ?s\<rparr>)" using touch_entry_ok[OF ok assms(3,2)] by (simp add: put_entry_def)
  then have "on_cpu (k\<lparr>scheduler := ?s, this_cpu := cli_settle (this_cpu k)\<rparr>)"
    by (rule on_cpu_update[OF assms(1)]) (use bt_insert_state[OF sched_okD(1)[OF ok] assms(3), of ?sp] in simp)
  ultimately show ?thesis by blast
qed

lemma with_process_queued:
  assumes "on_cpu k" "keeps f" "bt_get (running_waiting_procs (scheduler k)) pid = None"
    and "pid \<in> sp_id ` set (scheduled_processes (scheduler k))"
  shows "\<exists>p k'. with_process pid f k = Ret (fst (f p), k') \<and> on_cpu k'"
proof -
  let ?q = "scheduled_processes (scheduler k)"
  obtain j where "j < length ?q" "sp_id (?q ! j) = pid" using assms(4) by (auto simp: in_set_conv_nth)
  then have "j \<in> set (filter (\<lambda>i. sp_id (?q ! i) = pid) [0..<length ?q])" by simp
  then have "filter (\<lambda>i. sp_id (?q ! i) = pid) [0..<length ?q] \<noteq> []" by (cases "filter (\<lambda>i. sp_id (?q ! i) = pid) [0..<length ?q]") simp_all
  then obtain i js where i: "filter (\<lambda>i. sp_id (?q ! i) = pid) [0..<length ?q] = i # js"
    by (cases "filter (\<lambda>i. sp_id (?q ! i) = pid) [0..<length ?q]") simp_all
  then have "i \<in> set (filter (\<lambda>i. sp_id (?q ! i) = pid) [0..<length ?q])" by simp
  then have li: "i < length ?q" by simp
  let ?sp = "(?q ! i)\<lparr>sp_process := snd (f (sp_process (?q ! i)))\<rparr>"
  let ?s = "(scheduler k)\<lparr>scheduled_processes := ?q[i := ?sp]\<rparr>"
  have ok: "sched_ok k" using assms(1) by (simp add: on_cpu_def)
  have "with_process pid f k = Ret (fst (f (sp_process (?q ! i))), k\<lparr>scheduler := ?s, this_cpu := cli_settle (this_cpu k)\<rparr>)"
    using on_cpu_calm[OF assms(1)] assms(3) i by (cases k) (simp add: with_process_def section_simps split: prod.splits)
  moreover have "sched_ok (k\<lparr>scheduler := ?s\<rparr>)" using touch_queued_ok[OF ok li refl assms(2)] by (simp add: put_queued_def)
  then have "on_cpu (k\<lparr>scheduler := ?s, this_cpu := cli_settle (this_cpu k)\<rparr>)"
    by (rule on_cpu_update[OF assms(1)]) simp
  ultimately show ?thesis by blast
qed

lemma with_process_ok:
  assumes "on_cpu k" "keeps f"
  shows "known pid k \<Longrightarrow> \<exists>p k'. with_process pid f k = Ret (fst (f p), k') \<and> on_cpu k'"
    "\<not> known pid k \<Longrightarrow> with_process pid f k = Panic UnwrapNone"
proof -
  show "\<exists>p k'. with_process pid f k = Ret (fst (f p), k') \<and> on_cpu k'" if "known pid k"
  proof (cases "bt_get (running_waiting_procs (scheduler k)) pid")
    case None
    then have "pid \<notin> fst ` set (running_waiting_procs (scheduler k))" by (simp add: map_of_eq_None_iff)
    then show ?thesis using that unfolding known_def by (intro with_process_queued[OF assms None]) blast
  next
    case (Some sp)
    show ?thesis using with_process_entry[OF assms Some] by blast
  qed
  assume n: "\<not> known pid k"
  have e: "filter (\<lambda>i. sp_id (scheduled_processes (scheduler k) ! i) = pid) [0..<length (scheduled_processes (scheduler k))] = []"
    using n unfolding known_def filter_empty_conv by (metis UnI2 atLeastLessThan_iff imageI nth_mem set_upt)
  have "bt_get (running_waiting_procs (scheduler k)) pid = None" using n by (simp add: known_def map_of_eq_None_iff)
  then show "with_process pid f k = Panic UnwrapNone"
    using on_cpu_calm[OF assms(1)] e by (cases k) (simp add: with_process_def section_simps)
qed

definition priority_fits :: "InterruptAllSavedState \<Rightarrow> ('f, 'd) kernel \<Rightarrow> bool" where
  "priority_fits a k \<longleftrightarrow> (let level = r_rdx (rest a) in
     level \<noteq> 0 \<and> PriorityLevel_from_u64 level = None \<or> known (unat (r_rcx (rest a))) k)"

lemma sys_priority_ok:
  assumes "on_cpu k"
  shows "is_ret (finish_syscall (sys_priority a k)) \<longleftrightarrow> priority_fits a k" "priority_fits a k \<Longrightarrow> call_ok (sys_priority a k)"
proof -
  let ?l = "r_rdx (rest a)" and ?pid = "unat (r_rcx (rest a))"
  let ?bad = "?l \<noteq> 0 \<and> PriorityLevel_from_u64 ?l = None"
  let ?f = "\<lambda>p :: ('a, 'b) Process. let p1 = (case PriorityLevel_from_u64 ?l of None \<Rightarrow> p | Some l \<Rightarrow> p\<lparr>p_priority := l\<rparr>) in (p_priority p1, p1)"
  have f: "keeps ?f" by (simp add: keeps_def Let_def split: option.splits)
  show ok: "call_ok (sys_priority a k)" if p: "priority_fits a k"
  proof (cases ?bad)
    case True
    then show ?thesis
      using assms by (intro call_okI[of _ "Inl (arg_err1 GeneralInvalid)" a k]) (simp_all add: sys_priority_def Let_def)
  next
    case False
    then have "known ?pid k" using p unfolding priority_fits_def Let_def by blast
    then obtain p k1 where w: "with_process ?pid ?f k = Ret (fst (?f p), k1)" "on_cpu k1"
      using with_process_ok(1)[OF assms f] by blast
    then have "sys_priority a k = Ret (Inr (PriorityLevel_to_u64 (fst (?f p))), a, k1)"
      using False by (simp only: sys_priority_def Let_def if_False bind_exec.simps prod.case)
    then show ?thesis
      using w(2) priority_result by (intro call_okI[of _ "Inr (PriorityLevel_to_u64 (fst (?f p)))" a k1]) simp_all
  qed
  show "is_ret (finish_syscall (sys_priority a k)) \<longleftrightarrow> priority_fits a k"
  proof (cases "priority_fits a k")
    case True
    then show ?thesis using finish_ok[OF ok[OF True]] by (auto simp: is_ret_iff)
  next
    case False
    then have n: "\<not> ?bad" "\<not> known ?pid k" unfolding priority_fits_def Let_def by blast+
    have "sys_priority a k = Panic UnwrapNone"
      using n(1) with_process_ok(2)[OF assms f n(2)] by (simp only: sys_priority_def Let_def if_False bind_exec.simps)
    then show ?thesis using False by (simp add: finish_syscall_def)
  qed
qed

section \<open>New processes\<close>

lemma push_process_resched:
  assumes "calm k"
  shows "push_process p k = bind_exec
     (reschedule_process \<lparr>sp_process = p, sp_state = Scheduled, priority_counter = max_priority (scheduler k)\<rparr> k)
     (\<lambda>k1. Ret (k1\<lparr>this_cpu := cli_settle (this_cpu k)\<rparr>))"
  unfolding push_process_eq[OF assms]
  by (cases "process_exit 0xFF (vga_owner k) p") (auto simp: reschedule_process_def Let_def)

lemma push_ok:
  assumes "calm k" "missing p k"
  shows "\<exists>k'. push_process p k = Ret k' \<and> sched_ok k' \<and> this_cpu k' = cli_settle (this_cpu k) \<and> sched_lock k' = sched_lock k
    \<and> running_waiting_procs (scheduler k') = running_waiting_procs (scheduler k)"
proof -
  let ?sp = "\<lparr>sp_process = p, sp_state = Scheduled, priority_counter = max_priority (scheduler k)\<rparr>"
  have "missing (sp_process ?sp) k" using assms(2) by simp
  from missing_rescheduled[OF this] obtain k1 where k1: "reschedule_process ?sp k = Ret k1" "sched_ok k1" "same_cpu k k1"
    "running_waiting_procs (scheduler k1) = running_waiting_procs (scheduler k)" by (elim exE conjE)
  then show ?thesis
    by (intro exI[of _ "k1\<lparr>this_cpu := cli_settle (this_cpu k)\<rparr>"]) (simp add: push_process_resched[OF assms(1)] same_cpu_def)
qed

lemma calm_pid [simp]: "calm (k\<lparr>next_pid := n\<rparr>) = calm k"
  by (simp add: calm_def)

lemma of_nat_small: "n < I64_MAX \<Longrightarrow> (of_nat n :: u64) AND msb64 = 0"
proof (rule bit_eqI)
  fix i assume "n < I64_MAX"
  then have "\<not> bit n 63" by (simp add: bit_iff_odd I64_MAX_def)
  then have "\<not> bit (of_nat n :: u64) 63" by (simp add: bit_simps)
  then show "bit ((of_nat n :: u64) AND msb64) i = bit (0 :: u64) i" by (auto simp: bit_simps)
qed

lemma other_spawn_ok:
  assumes "on_cpu k" "new_process p k"
  shows "call_ok (other_spawn p n a k)"
proof -
  have ok: "sched_ok k" using assms(1) by (simp add: on_cpu_def)
  let ?k = "k\<lparr>next_pid := next_pid k + 1\<rparr>"
  obtain k1 where k1: "push_process p ?k = Ret k1" "sched_ok k1" "this_cpu k1 = cli_settle (this_cpu k)" "sched_lock k1 = sched_lock k"
    "running_waiting_procs (scheduler k1) = running_waiting_procs (scheduler k)"
    using push_ok[OF _ new_missing[OF ok assms(2)]] on_cpu_calm[OF assms(1)] by auto
  have "on_cpu k1" using k1(2-5) assms(1) by (simp add: on_cpu_def current_def)
  moreover have "(of_nat (p_id p) :: u64) AND msb64 = 0" using assms(2) by (intro of_nat_small) (simp add: new_process_def)
  ultimately show ?thesis
    using k1(1) by (intro call_okI[of _ "Inr (of_nat (p_id p))" a k1]) (simp_all add: other_spawn_def)
qed

lemma other_touch_ok:
  assumes "on_cpu k" "is_ret (syscall_result_to_u64 r)"
    and "\<And>p. p_id (f p) = p_id p \<and> p_parent_id (f p) = p_parent_id p \<and> p_context (f p) = p_context p
            \<and> children_exits (f p) = children_exits p"
  shows "call_ok (other_touch f r n a k)"
proof -
  obtain k1 where "with_current_process (\<lambda>p. ((), f p)) k = Ret ((), k1)" "on_cpu k1"
    using with_current_ok[OF assms(1), of "\<lambda>p. ((), f p)"] assms(3) by auto
  then show ?thesis using assms(2) by (intro call_okI[of _ r a k1]) (simp_all add: other_touch_def)
qed

section \<open>Interrupts\<close>

lemma flag_frame [simp]:
  "on_cpu (k\<lparr>this_cpu := (this_cpu k)\<lparr>interrupt_flag := b\<rparr>\<rparr>) = on_cpu k"
  "known pid (k\<lparr>this_cpu := c\<rparr>) = known pid k"
  "new_process p (k\<lparr>this_cpu := c\<rparr>) = new_process p k"
  by (simp_all add: on_cpu_def current_def known_def new_process_def)

lemma save_flags_facts [simp]:
  "rest (save_flags c a) = rest a" "f_cs (frame (save_flags c a)) = f_cs (frame a)"
  "bit (f_rflags (frame (save_flags c a))) 9 = interrupt_flag c"
  by (simp_all add: save_flags_def bit_simps)

lemma off_cpu_between:
  "off_cpu k \<Longrightarrow> to_kernel a \<Longrightarrow> between (k\<lparr>this_cpu := (this_cpu k)\<lparr>interrupt_flag := bit (f_rflags (frame a)) 9\<rparr>\<rparr>)"
  by (simp add: between_def off_cpu_def to_kernel_def)

text \<open>A handler that takes the process off the CPU leads back to the loop.\<close>

lemma run_interrupt_back:
  assumes "\<exists>a1 k1. handler (save_flags (this_cpu k) a) (k\<lparr>this_cpu := (this_cpu k)\<lparr>interrupt_flag := False\<rparr>\<rparr>) = Ret (a1, k1)
      \<and> off_cpu k1 \<and> to_kernel a1"
  shows "\<exists>k'. bind_exec (run_interrupt handler a k) (\<lambda>(_, k1). Ret k1) = Ret k' \<and> between k'"
proof -
  obtain a1 k1 where h: "handler (save_flags (this_cpu k) a) (k\<lparr>this_cpu := (this_cpu k)\<lparr>interrupt_flag := False\<rparr>\<rparr>) = Ret (a1, k1)"
    "off_cpu k1" "to_kernel a1" using assms by (elim exE conjE)
  show ?thesis using off_cpu_between[OF h(2,3)] by (simp add: run_interrupt_def h(1))
qed

lemma enter_ok:
  assumes "entered k" "f_cs (frame a) AND 3 = 0"
  shows "\<exists>a1 k'. run_interrupt scheduler_interrupt_handler a k = Ret (a1, k') \<and> on_cpu k'
    \<and> (\<exists>sp. bt_get (running_waiting_procs (scheduler k')) (process_id (this_cpu k')) = Some sp
         \<and> saved_context (fpu k') a1 = p_context (sp_process sp))"
proof -
  let ?a = "save_flags (this_cpu k) a"
  obtain sp where sp: "bt_get (running_waiting_procs (scheduler k)) (process_id (this_cpu k)) = Some sp"
    "cpu_context (this_cpu k) = Some (p_context (sp_process sp))" "ctx_ok (p_context (sp_process sp))"
    using assms(1) by (auto simp: entered_def)
  let ?c = "p_context (sp_process sp)"
  let ?a1 = "snd (snd (swap_context (fpu k) ?c ?a))"
  let ?k' = "k\<lparr>fpu := c_fxsave ?c, this_cpu := (this_cpu k)\<lparr>interrupt_flag := bit (f_rflags (frame ?a1)) 9, scheduling := False,
      cpu_context := Some (saved_context (fpu k) ?a)\<rparr>\<rparr>"
  have "run_interrupt scheduler_interrupt_handler a k = Ret (?a1, ?k')"
    using assms sp(2) swap_context_saves[of "fpu k" ?c ?a] swap_context_fpu[of "fpu k" ?c ?a]
    by (cases "swap_context (fpu k) ?c ?a") (simp add: run_interrupt_def scheduler_interrupt_handler_def entered_def interrupts_disabled_def)
  moreover have "bit (c_rflags (saved_context (fpu k) ?a)) 9" using assms(1) by (simp add: saved_context_def entered_def)
  then have "on_cpu ?k'" using assms(1) by (simp add: on_cpu_def entered_def current_def)
  moreover have "saved_context (fpu ?k') ?a1 = ?c" using swap_context_loads[OF sp(3), of "fpu k" ?a] by simp
  ultimately show ?thesis using sp(1) by (intro exI[of _ ?a1] exI[of _ ?k']) simp
qed

section \<open>Every event\<close>

definition kernel_inv :: "('f, 'd) kernel \<Rightarrow> bool" where
  "kernel_inv k \<longleftrightarrow> between k \<or> on_cpu k \<or> halted k"

text \<open>The events that do not stop the kernel.\<close>

fun safe :: "('f, 'd) event \<Rightarrow> ('f, 'd) kernel \<Rightarrow> bool" where
  "safe (Call now a) k \<longleftrightarrow>
     (unat (r_rax (rest a)) = 5 \<longrightarrow> nonneg (ucast (r_rcx (rest a))))
   \<and> (unat (r_rax (rest a)) = 17 \<longrightarrow> sleep_fits now a)
   \<and> (unat (r_rax (rest a)) = 21 \<longrightarrow> priority_fits a k)"
| "safe _ k \<longleftrightarrow> True"

lemma on_cpu_context: "cpu_context (this_cpu k) \<noteq> None \<Longrightarrow> kernel_inv k \<Longrightarrow> on_cpu k"
  by (auto simp: kernel_inv_def between_def halted_def)

lemma call_step:
  assumes "on_cpu k" "f_cs (frame a) AND 3 = 3"
    and "call_ok (if NUM_SYSCALLS \<le> unat (r_rax (rest a)) then Ret (Inl SyscallNotFound, save_flags (this_cpu k) a, k\<lparr>this_cpu := (this_cpu k)\<lparr>interrupt_flag := False\<rparr>\<rparr>)
      else SYSCALLS other now (unat (r_rax (rest a))) (save_flags (this_cpu k) a) (k\<lparr>this_cpu := (this_cpu k)\<lparr>interrupt_flag := False\<rparr>\<rparr>))"
  shows "\<exists>k'. bind_exec (run_interrupt (syscall_interrupt_handler other now) a k) (\<lambda>(_, k1). Ret k1) = Ret k' \<and> between k'"
proof (rule run_interrupt_back)
  have c: "cpu_context (this_cpu k) \<noteq> None" using assms(1) by (auto simp: on_cpu_def)
  show "\<exists>a1 k1. syscall_interrupt_handler other now (save_flags (this_cpu k) a) (k\<lparr>this_cpu := (this_cpu k)\<lparr>interrupt_flag := False\<rparr>\<rparr>) = Ret (a1, k1)
      \<and> off_cpu k1 \<and> to_kernel a1"
    using finish_ok[OF assms(3)] assms(2) c by (simp add: syscall_interrupt_handler_def handle_syscall_def Let_def)
qed

lemma call_panics:
  assumes "on_cpu k" "f_cs (frame a) AND 3 = 3" "unat (r_rax (rest a)) < NUM_SYSCALLS"
    and "\<not> is_ret (finish_syscall (SYSCALLS other now (unat (r_rax (rest a))) (save_flags (this_cpu k) a) (k\<lparr>this_cpu := (this_cpu k)\<lparr>interrupt_flag := False\<rparr>\<rparr>)))"
  shows "\<not> is_ret (bind_exec (run_interrupt (syscall_interrupt_handler other now) a k) (\<lambda>(_, k1). Ret k1))"
proof -
  have c: "cpu_context (this_cpu k) \<noteq> None" using assms(1) by (auto simp: on_cpu_def)
  show ?thesis
    using assms(2-4) c
    by (cases "finish_syscall (SYSCALLS other now (unat (r_rax (rest a))) (save_flags (this_cpu k) a) (k\<lparr>this_cpu := (this_cpu k)\<lparr>interrupt_flag := False\<rparr>\<rparr>))")
      (simp_all add: run_interrupt_def syscall_interrupt_handler_def handle_syscall_def Let_def)
qed

lemma fits_flags [simp]:
  "sleep_fits now (save_flags c a) = sleep_fits now a"
  "priority_fits (save_flags c a) (k\<lparr>this_cpu := c'\<rparr>) = priority_fits a k"
  by (simp_all add: sleep_fits_def priority_fits_def)

lemma step_call:
  assumes "on_cpu k" "enabled (Call now a) k"
  shows "is_ret (step (Call now a) k) \<longleftrightarrow> safe (Call now a) k" "step (Call now a) k = Ret k' \<Longrightarrow> between k'"
proof -
  let ?n = "unat (r_rax (rest a))" and ?a = "save_flags (this_cpu k) a"
  let ?k = "k\<lparr>this_cpu := (this_cpu k)\<lparr>interrupt_flag := False\<rparr>\<rparr>"
  let ?o = "\<lambda>n a k. Ret (Inl SyscallNotFound, a, k)"
  have k: "on_cpu ?k" using assms(1) by simp
  have cs: "f_cs (frame a) AND 3 = 3" "f_cs (frame ?a) AND 3 = 3" and now: "clock_ok now"
    using assms(2) by (simp_all add: user_trap_def)
  consider "?n = 5" | "?n = 9" | "?n = 17" | "?n = 21" | "NUM_SYSCALLS \<le> ?n"
    using assms(2) by (auto simp: scheduler_calls_def)
  then have "call_ok (if NUM_SYSCALLS \<le> ?n then Ret (Inl SyscallNotFound, ?a, ?k) else SYSCALLS ?o now ?n ?a ?k)
     \<and> safe (Call now a) k
   \<or> ?n < NUM_SYSCALLS \<and> \<not> is_ret (finish_syscall (SYSCALLS ?o now ?n ?a ?k)) \<and> \<not> safe (Call now a) k"
  proof cases
    case 1
    then show ?thesis using sys_exit_ok[OF k, of ?a] by (auto simp: SYSCALLS_def NUM_SYSCALLS_def)
  next
    case 2
    then show ?thesis using sys_wait_pid_ok[OF k cs(2)] by (auto simp: SYSCALLS_def NUM_SYSCALLS_def)
  next
    case 3
    then show ?thesis using sys_sleep_ok[OF k cs(2) now] by (auto simp: SYSCALLS_def NUM_SYSCALLS_def)
  next
    case 4
    then show ?thesis using sys_priority_ok[OF k, of ?a] by (auto simp: SYSCALLS_def NUM_SYSCALLS_def)
  next
    case 5
    have "call_ok (Ret (Inl SyscallNotFound, ?a, ?k))" using k by (intro call_okI[OF refl]) simp_all
    then show ?thesis using 5 by (auto simp: NUM_SYSCALLS_def)
  qed
  then show "is_ret (step (Call now a) k) \<longleftrightarrow> safe (Call now a) k" "step (Call now a) k = Ret k' \<Longrightarrow> between k'"
    using call_step[OF assms(1) cs(1), of ?o now] call_panics[OF assms(1) cs(1), of ?o now] by auto
qed

lemma schedule_spec:
  assumes "between k"
  shows "\<exists>k'. schedule_iteration now pick k = Ret (EnterProcess, k') \<and> entered k' \<and> \<not> is_shutdown k
     \<or> schedule_iteration now pick k = Ret (if is_shutdown k then Stop else HaltCpu, k') \<and> halted k'
        \<and> scheduled_processes (scheduler k') = [] \<and> is_shutdown k' = is_shutdown k \<and> exited_processes (scheduler k') = []
        \<and> next_pid k' = next_pid k \<and> (is_shutdown k \<longrightarrow> running_waiting_procs (scheduler k') = [])"
proof -
  obtain k4 where k4: "iteration_head now k = Ret k4" "sched_ok k4" "no_running k4" "this_cpu k4 = cli_in (in_lock (this_cpu k))"
    "sched_lock k4 = held_lock" "is_shutdown k4 = is_shutdown k" "exited_processes (scheduler k4) = []" "next_pid k4 = next_pid k"
    "is_shutdown k \<longrightarrow> scheduled_processes (scheduler k4) = [] \<and> running_waiting_procs (scheduler k4) = []"
    using iteration_head_ok[OF assms, of now] by (elim exE conjE)
  show ?thesis
  proof (cases "scheduled_processes (scheduler k4) = []")
    case True
    have "is_shutdown k \<longrightarrow> running_waiting_procs (scheduler k4) = []" using k4(9) by blast
    then show ?thesis using iteration_idle[OF assms k4(1) True k4(2-6), of pick] True k4(7-9) by auto
  next
    case False
    then have "\<not> is_shutdown k4" using k4(6,9) by blast
    then show ?thesis using iteration_enter[OF assms k4(1) False k4(2-5), of pick] k4(6) by blast
  qed
qed

lemma step_schedule:
  assumes "kernel_inv k" "enabled (Schedule now pick a) k"
  shows "\<exists>k'. step (Schedule now pick a) k = Ret k' \<and> kernel_inv k'"
proof -
  have b: "between k" using assms by (auto simp: kernel_inv_def on_cpu_def halted_def)
  have cs: "f_cs (frame a) AND 3 = 0" using assms(2) by simp
  obtain k1 where "schedule_iteration now pick k = Ret (EnterProcess, k1) \<and> entered k1
     \<or> schedule_iteration now pick k = Ret (if is_shutdown k then Stop else HaltCpu, k1) \<and> halted k1"
    using schedule_spec[OF b, of now pick] by blast
  then show ?thesis
  proof
    assume e: "schedule_iteration now pick k = Ret (EnterProcess, k1) \<and> entered k1"
    obtain a1 k2 where "run_interrupt scheduler_interrupt_handler a k1 = Ret (a1, k2)" "on_cpu k2"
      using enter_ok[OF conjunct2[OF e] cs] by blast
    then show ?thesis using e by (simp add: kernel_inv_def)
  next
    assume "schedule_iteration now pick k = Ret (if is_shutdown k then Stop else HaltCpu, k1) \<and> halted k1"
    then show ?thesis by (auto simp: kernel_inv_def)
  qed
qed

lemma step_timer:
  assumes "kernel_inv k" "enabled (Timer a) k"
  shows "\<exists>k'. step (Timer a) k = Ret k' \<and> kernel_inv k'"
proof (cases "on_cpu k")
  case True
  then have "on_cpu (k\<lparr>this_cpu := (this_cpu k)\<lparr>interrupt_flag := False\<rparr>\<rparr>)" by simp
  from yield_ok[OF this, of "save_flags (this_cpu k) a"]
  have "\<exists>k'. bind_exec (run_interrupt yield_current_if_any a k) (\<lambda>(_, k1). Ret k1) = Ret k' \<and> between k'"
    by (intro run_interrupt_back) blast
  then show ?thesis by (auto simp: kernel_inv_def)
next
  case False
  then have b: "between k" using assms by (auto simp: kernel_inv_def halted_def)
  then have "run_interrupt yield_current_if_any a k = Ret (save_flags (this_cpu k) a, k)"
    using assms(2) by (cases k) (simp add: run_interrupt_def yield_current_if_any_def between_def)
  then show ?thesis using b by (simp add: kernel_inv_def)
qed

lemma step_boot:
  assumes "kernel_inv k" "enabled (Boot p) k"
  shows "\<exists>k'. step (Boot p) k = Ret k' \<and> kernel_inv k'"
proof -
  have k: "between k \<or> halted k" using assms by (auto simp: kernel_inv_def on_cpu_def)
  then have calm: "calm k" and ok: "sched_ok k"
    by (auto simp: between_def halted_def calm_def cli_ok_def room_def usize_bound_def)
  obtain k1 where k1: "push_process p (k\<lparr>next_pid := next_pid k + 1\<rparr>) = Ret k1" "sched_ok k1" "this_cpu k1 = cli_settle (this_cpu k)"
    "sched_lock k1 = sched_lock k" "running_waiting_procs (scheduler k1) = running_waiting_procs (scheduler k)"
    using push_ok[OF _ new_missing[OF ok, of p]] calm assms(2) by auto
  then have "between k1 \<or> halted k1" using k by (auto simp: between_def halted_def no_running_def)
  then show ?thesis using k1(1) by (auto simp: kernel_inv_def)
qed

lemma step_shutdown:
  "kernel_inv k \<Longrightarrow> \<exists>k'. step Shutdown k = Ret k' \<and> kernel_inv k'"
  by (auto simp: kernel_inv_def stop_scheduler_def between_def on_cpu_def halted_def sched_ok_def all_ids_def no_running_def current_def)

lemma step_other:
  assumes "kernel_inv k"
  shows "enabled (CallTouch f r a) k \<Longrightarrow> \<exists>k'. step (CallTouch f r a) k = Ret k' \<and> kernel_inv k'"
    "enabled (CallSpawn p a) k \<Longrightarrow> \<exists>k'. step (CallSpawn p a) k = Ret k' \<and> kernel_inv k'"
proof -
  let ?k = "k\<lparr>this_cpu := (this_cpu k)\<lparr>interrupt_flag := False\<rparr>\<rparr>"
  show "\<exists>k'. step (CallTouch f r a) k = Ret k' \<and> kernel_inv k'" if e: "enabled (CallTouch f r a) k"
  proof -
    have k: "on_cpu k" "on_cpu ?k" using on_cpu_context[OF _ assms] e by (auto simp: user_trap_def)
    have "call_ok (other_touch f r (unat (r_rax (rest a))) (save_flags (this_cpu k) a) ?k)" using e by (intro other_touch_ok[OF k(2)]) auto
    then have "\<exists>k'. bind_exec (run_interrupt (syscall_interrupt_handler (other_touch f r) (ClockTime 0 0)) a k) (\<lambda>(_, k1). Ret k1) = Ret k' \<and> between k'"
      using e by (intro call_step[OF k(1)]) (auto simp: user_trap_def SYSCALLS_def scheduler_calls_def)
    then show ?thesis by (auto simp: kernel_inv_def)
  qed
  show "\<exists>k'. step (CallSpawn p a) k = Ret k' \<and> kernel_inv k'" if e: "enabled (CallSpawn p a) k"
  proof -
    have k: "on_cpu k" "on_cpu ?k" using on_cpu_context[OF _ assms] e by (auto simp: user_trap_def)
    have "call_ok (other_spawn p (unat (r_rax (rest a))) (save_flags (this_cpu k) a) ?k)" using e by (intro other_spawn_ok[OF k(2)]) simp
    then have "\<exists>k'. bind_exec (run_interrupt (syscall_interrupt_handler (other_spawn p) (ClockTime 0 0)) a k) (\<lambda>(_, k1). Ret k1) = Ret k' \<and> between k'"
      using e by (intro call_step[OF k(1)]) (auto simp: user_trap_def SYSCALLS_def NUM_SYSCALLS_def)
    then show ?thesis by (auto simp: kernel_inv_def)
  qed
qed

lemma step_inv:
  assumes "kernel_inv k" "enabled e k"
  shows "is_ret (step e k) \<longleftrightarrow> safe e k" "step e k = Ret k' \<Longrightarrow> kernel_inv k'"
proof -
  have "(is_ret (step e k) \<longleftrightarrow> safe e k) \<and> (step e k = Ret k' \<longrightarrow> kernel_inv k')"
  proof (cases "\<exists>now a. e = Call now a")
    case True
    then obtain now a where e: "e = Call now a" by blast
    have "on_cpu k" using on_cpu_context[OF _ assms(1)] assms(2) by (auto simp: e user_trap_def)
    then show ?thesis using step_call[of k now a] assms(2) by (auto simp: e kernel_inv_def)
  next
    case False
    then have s: "safe e k" by (cases e) auto
    have "\<exists>k'. step e k = Ret k' \<and> kernel_inv k'"
    proof (cases e)
      case (Schedule now pick a)
      then show ?thesis using step_schedule[OF assms(1)] assms(2) by blast
    next
      case (Timer a)
      then show ?thesis using step_timer[OF assms(1)] assms(2) by blast
    next
      case (Call now a)
      then show ?thesis using False by blast
    next
      case (CallTouch f r a)
      then show ?thesis using step_other(1)[OF assms(1)] assms(2) by blast
    next
      case (CallSpawn p a)
      then show ?thesis using step_other(2)[OF assms(1)] assms(2) by blast
    next
      case (Boot p)
      then show ?thesis using step_boot[OF assms(1)] assms(2) by blast
    next
      case Shutdown
      then show ?thesis using step_shutdown[OF assms(1)] by blast
    qed
    then show ?thesis using s by auto
  qed
  then show "is_ret (step e k) \<longleftrightarrow> safe e k" "step e k = Ret k' \<Longrightarrow> kernel_inv k'" by blast+
qed

lemma boot_inv: "kernel_inv (boot_kernel v f)"
  by (simp add: kernel_inv_def between_def boot_kernel_def cpu_ready_def sched_ok_def all_ids_def no_running_def
      Scheduler_new_def I64_MAX_def)

lemma reach_inv: "kernel_reach k \<Longrightarrow> kernel_inv k"
  by (induction rule: kernel_reach.induct) (auto intro: boot_inv step_inv(2))

end
