(* ===== verification/Scheduler_Properties.thy ===== *)
theory Scheduler_Properties
  imports Scheduler_Events
begin

unbundle bit_operations_syntax

text \<open>
  What the scheduler promises: the properties of every reachable kernel, and for each of them a run
  of the kernel, evaluated event by event, to which it applies.
\<close>

section \<open>What an iteration does\<close>

lemma reach_between:
  "kernel_reach k \<Longrightarrow> cpu_context (this_cpu k) = None \<Longrightarrow> interrupt_flag (this_cpu k) \<Longrightarrow> between k"
  using reach_inv[of k] by (auto simp: kernel_inv_def on_cpu_def halted_def)

lemma reach_on_cpu: "kernel_reach k \<Longrightarrow> cpu_context (this_cpu k) \<noteq> None \<Longrightarrow> on_cpu k"
  using reach_inv on_cpu_context by blast

lemma scanned_frame [simp]:
  "scanned now (k\<lparr>sched_lock := l, this_cpu := c\<rparr>) woken stay ex' gone = scanned now k woken stay ex' gone"
  by (simp add: scanned_def)

text \<open>The kernel after the wake-up phase of an iteration.\<close>

definition woke ::
  "ClockTime \<Rightarrow> ('f, 'd) kernel \<Rightarrow> ('f, 'd) SchedulerProcess list \<Rightarrow> ('f, 'd) SchedulerProcess btmap
     \<Rightarrow> ('f, 'd) Process list \<Rightarrow> ('f, 'd) Process list \<Rightarrow> ('f, 'd) kernel \<Rightarrow> bool" where
  "woke now k woken stay ex' gone k4 \<longleftrightarrow>
     scanned now k woken stay ex' gone \<and> sched_ok k4 \<and> no_running k4 \<and> \<not> is_shutdown k4
   \<and> this_cpu k4 = cli_in (in_lock (this_cpu k)) \<and> sched_lock k4 = held_lock
   \<and> running_waiting_procs (scheduler k4) = stay \<and> exited_processes (scheduler k4) = []
   \<and> dropped k4 = dropped k @ gone @ ex'
   \<and> list_all2 adopts (scheduled_processes (scheduler k) @ map (rescheduled (max_priority (scheduler k))) woken)
       (scheduled_processes (scheduler k4))"

lemma iteration_wakes:
  assumes "between k" "\<not> is_shutdown k"
  shows "\<exists>woken stay ex' gone k4. iteration_head now k = Ret k4 \<and> woke now k woken stay ex' gone k4"
proof -
  let ?k1 = "k\<lparr>sched_lock := held_lock, this_cpu := cli_in (in_lock (this_cpu k))\<rparr>"
  have b: "sched_lock k = new_lock" "cpu_ready (this_cpu k)" "sched_ok k" "no_running k" "n_cli (this_cpu k) = 0"
    using assms(1) by (simp_all add: between_def)
  have "lock_scheduler k = Ret (k\<lparr>sched_lock := held_lock, this_cpu := in_lock (this_cpu k)\<rparr>)"
    using b by (intro lock_scheduler_free) (simp_all add: cli_ok_def usize_bound_def)
  moreover have "cpu_push_cli (k\<lparr>sched_lock := held_lock, this_cpu := in_lock (this_cpu k)\<rparr>) = Ret ?k1"
    using b by (subst cpu_push_cli_eq) (simp_all add: usize_bound_def)
  ultimately have h: "iteration_head now k = try_wake_waiting_processes now ?k1" using assms(2) by (simp add: iteration_head_def)
  have ok1: "sched_ok ?k1" "no_running ?k1" using b by simp_all
  obtain k4 woken stay ex' gone v sched where w: "try_wake_waiting_processes now ?k1 = Ret k4"
    "scanned now ?k1 woken stay ex' gone" "k4 = settled sched (requeued woken stay ex' gone v ?k1)"
    "list_all2 adopts (scheduled_processes (scheduler (requeued woken stay ex' gone v ?k1))) sched"
    using try_wake_ok[OF ok1(1), of now] by (elim exE conjE)
  note keep = wake_keeps[OF w(1) ok1]
  have "woke now k woken stay ex' gone k4"
    using w(2) keep(1,2) w(4) assms(2) unfolding woke_def by (simp add: w(3) settled_def requeued_def)
  then show ?thesis using h w(1) by auto
qed

text \<open>The processes that can run: the queued ones and the one on the CPU.\<close>

definition runnable :: "('f, 'd) kernel \<Rightarrow> ('f, 'd) Process set" where
  "runnable k = sp_process ` set (scheduled_processes (scheduler k))
     \<union> {sp_process sp | i sp. bt_get (running_waiting_procs (scheduler k)) i = Some sp \<and> sp_state sp = Running}"

lemma unlock_frame: "unlock_scheduler k = Ret k' \<Longrightarrow> scheduler k' = scheduler k \<and> dropped k' = dropped k \<and> fpu k' = fpu k"
  by (auto simp: unlock_scheduler_def exec_simps split: prod.splits)

lemma unlock_process: "unlock_scheduler k = Ret k' \<Longrightarrow> sched_lock k = held_lock \<Longrightarrow> pc (this_cpu k) = Idle
   \<Longrightarrow> guards (this_cpu k) = 1 \<Longrightarrow> 0 < n_cli (this_cpu k) \<Longrightarrow> \<not> interrupt_flag (this_cpu k)
   \<Longrightarrow> process_id (this_cpu k') = process_id (this_cpu k)"
  by (auto simp: unlock_scheduler_held)

lemma iteration_result:
  assumes "schedule_iteration now pick k = Ret (out, k')" "iteration_head now k = Ret k4" "woke now k woken stay ex' gone k4"
  shows "sp_process ` set (scheduled_processes (scheduler k4)) \<subseteq> runnable k'"
    "set stay \<subseteq> set (running_waiting_procs (scheduler k'))"
    "exited_processes (scheduler k') = []" "dropped k' = dropped k4"
proof -
  obtain k5 where k5: "run_next pick k4 = Ret k5" "unlock_scheduler k5 = Ret k'"
    using assms(1,2) by (auto simp: schedule_iteration_split assert_exec_def exec_simps split: if_splits)
  note fr = unlock_frame[OF k5(2)]
  have ok: "sched_ok k4" "no_running k4" "\<not> is_shutdown k4" "0 < n_cli (this_cpu k4)" "\<not> interrupt_flag (this_cpu k4)"
    "running_waiting_procs (scheduler k4) = stay" "exited_processes (scheduler k4) = []"
    using assms(3) by (simp_all add: woke_def)
  have "(sp_process ` set (scheduled_processes (scheduler k4)) \<subseteq> runnable k5) \<and> set stay \<subseteq> set (running_waiting_procs (scheduler k5))
      \<and> exited_processes (scheduler k5) = [] \<and> dropped k5 = dropped k4"
  proof (cases "heap_pop pick (scheduled_processes (refreshed (scheduler k4)))")
    case None
    then have "scheduled_processes (scheduler k4) = []" by (simp add: heap_pop_none)
    then have "run_next pick k4 = Ret k4" by (cases k4) (simp add: run_next_unfold heap_pop_def refreshed_def)
    then have "k5 = k4" using k5(1) by simp
    then show ?thesis using ok(6,7) by (auto simp: runnable_def)
  next
    case (Some x)
    then obtain sp others where pop: "heap_pop pick (scheduled_processes (refreshed (scheduler k4))) = Some (sp, others)" by (cases x) simp
    then have e: "k5 = dispatched sp others k4"
      using k5(1) run_next_eq[OF ok(3) _ ok(4,5) pop] sched_okD(3)[OF ok(1)] by simp
    have "set (map sp_process (scheduled_processes (refreshed (scheduler k4)))) = insert (sp_process sp) (sp_process ` set others)"
      using heap_pop_spec(1)[OF pop] by (metis image_insert set_map set_mset_add_mset_insert set_mset_mset)
    then have "sp_process ` set (scheduled_processes (scheduler k4)) = insert (sp_process sp) (sp_process ` set others)"
      by (simp only: refreshed_same(3) set_map)
    moreover have "current k5" using dispatched_ok(2)[OF ok(1,2) pop] by (simp add: e)
    moreover have "bt_get (running_waiting_procs (scheduler k5)) (sp_id sp) = Some (sp\<lparr>sp_state := Running,
        priority_counter := priority_counter sp - (6 - unat (PriorityLevel_to_u64 (p_priority (sp_process sp))))\<rparr>)"
      using sched_okD(1)[OF ok(1)] by (simp add: e dispatched_def Let_def)
    then have "sp_process sp \<in> runnable k5" unfolding runnable_def by force
    moreover have "sp_id sp \<notin> fst ` set stay"
      using dispatched_ok(4)[OF ok(1,2) pop] sched_okD(4)[OF ok(1)] ok(6) by (auto simp: all_ids_def)
    then have "set stay \<subseteq> set (running_waiting_procs (scheduler k5))"
      using set_bt_insert_wf[OF sched_okD(1)[OF ok(1)]] ok(6) by (auto simp: e dispatched_def Let_def image_iff)
    ultimately show ?thesis using ok(7) by (auto simp: e runnable_def dispatched_def Let_def)
  qed
  then show "sp_process ` set (scheduled_processes (scheduler k4)) \<subseteq> runnable k'"
    "set stay \<subseteq> set (running_waiting_procs (scheduler k'))" "exited_processes (scheduler k') = []" "dropped k' = dropped k4"
    using fr by (simp_all add: runnable_def)
qed

lemma adopted_context:
  assumes "list_all2 adopts sps sps'" "sp \<in> set sps"
  shows "\<exists>sp' \<in> set sps'. sp_id sp' = sp_id sp \<and> p_context (sp_process sp') = p_context (sp_process sp)"
  using assms by (induction rule: list_all2_induct) (auto simp: adopts_def)

lemma woke_queue:
  assumes "woke now k woken stay ex' gone k4"
  shows "sp \<in> set (scheduled_processes (scheduler k)) \<or> sp \<in> set woken \<Longrightarrow>
    \<exists>p \<in> sp_process ` set (scheduled_processes (scheduler k4)). p_id p = sp_id sp \<and> p_context p = p_context (sp_process sp)"
proof -
  let ?q = "scheduled_processes (scheduler k) @ map (rescheduled (max_priority (scheduler k))) woken"
  assume "sp \<in> set (scheduled_processes (scheduler k)) \<or> sp \<in> set woken"
  then have "\<exists>sp1 \<in> set ?q. sp_process sp1 = sp_process sp"
    by (auto intro: bexI[of _ "rescheduled (max_priority (scheduler k)) sp"])
  then obtain sp1 where "sp1 \<in> set ?q" "sp_process sp1 = sp_process sp" by blast
  moreover have "list_all2 adopts ?q (scheduled_processes (scheduler k4))" using assms by (simp add: woke_def)
  ultimately show ?thesis using adopted_context by fastforce
qed

lemma iteration_runs:
  assumes "between k" "\<not> is_shutdown k"
  shows "\<exists>out k' woken stay ex' gone k4. schedule_iteration now pick k = Ret (out, k') \<and> iteration_head now k = Ret k4
    \<and> woke now k woken stay ex' gone k4"
  using iteration_wakes[OF assms, of now] schedule_spec[OF assms(1), of now pick] by blast

lemma iteration_states:
  assumes "between k" "schedule_iteration now pick k = Ret (out, k')"
  shows "sched_ok k'" "out = EnterProcess \<Longrightarrow> entered k'" "out \<noteq> EnterProcess \<Longrightarrow> halted k'"
proof -
  have "out = EnterProcess \<and> entered k' \<or> out \<noteq> EnterProcess \<and> halted k'"
    using schedule_spec[OF assms(1), of now pick] unfolding assms(2) by (auto split: if_splits)
  then show "sched_ok k'" "out = EnterProcess \<Longrightarrow> entered k'" "out \<noteq> EnterProcess \<Longrightarrow> halted k'"
    by (auto simp: entered_def halted_def)
qed

lemma runnable_current:
  assumes "sched_ok k" "current k" "p \<in> runnable k" "p_id p = process_id (this_cpu k)"
  shows "\<exists>sp. bt_get (running_waiting_procs (scheduler k)) (process_id (this_cpu k)) = Some sp \<and> sp_process sp = p"
proof -
  let ?m = "running_waiting_procs (scheduler k)" and ?i = "process_id (this_cpu k)"
  note ok = sched_okD[OF assms(1)]
  obtain sp where sp: "bt_get ?m ?i = Some sp" using assms(2) by (auto simp: current_def)
  then have "?i \<in> fst ` set ?m" using map_of_SomeD by force
  then have "?i \<notin> sp_id ` set (scheduled_processes (scheduler k))" using ok(4) by (auto simp: all_ids_def)
  then have "p \<notin> sp_process ` set (scheduled_processes (scheduler k))" using assms(4) by (auto simp: image_iff)
  then obtain j q where q: "bt_get ?m j = Some q" "sp_state q = Running" "p = sp_process q"
    using assms(3) unfolding runnable_def by blast
  have "(j, q) \<in> set ?m" using q(1) bt_in_set[OF ok(1)] by simp
  then have "j = ?i" using assms(2) q(2) by (auto simp: current_def)
  then show ?thesis using q by auto
qed

section \<open>Runs\<close>

primrec runs :: "('f, 'd) event list \<Rightarrow> ('f, 'd) kernel \<Rightarrow> ('f, 'd) kernel \<Rightarrow> bool" where
  "runs [] k k' \<longleftrightarrow> k = k'"
| "runs (e # es) k k' \<longleftrightarrow> enabled e k \<and> (\<exists>k1. step e k = Ret k1 \<and> runs es k1 k')"

lemma runs_reach: "runs es k k' \<Longrightarrow> kernel_reach k \<Longrightarrow> kernel_reach k'"
  by (induction es arbitrary: k) (auto intro: kernel_step)

definition ex_process :: "pid \<Rightarrow> pid \<Rightarrow> (unit, unit) Process" where
  "ex_process i parent =
     \<lparr>p_vm = undefined, p_context = ex_context, p_id = i, p_parent_id = parent, open_filesystem_nodes = [],
      file_index_allocator = 0, p_argv = [], p_file_path = [], p_current_dir = (), stack_ptr_end = 0, stack_size = 0,
      p_heap_start = 0, p_heap_size = 0, p_heap_max = 0, p_priority = Normal, p_exit_code = 0, children_exits = []\<rparr>"

definition ex_call :: "u64 \<Rightarrow> u64 \<Rightarrow> u64 \<Rightarrow> InterruptAllSavedState" where
  "ex_call n x y = ex_kernel_state\<lparr>frame := (frame ex_kernel_state)\<lparr>f_cs := 0x1B\<rparr>,
     rest := (rest ex_kernel_state)\<lparr>r_rax := n, r_rcx := x, r_rdx := y\<rparr>\<rparr>"

lemma ex_context_facts: "ctx_ok ex_context" "c_rflags ex_context = 0x200" "c_fxsave ex_context = replicate 32 0"
  by (simp_all add: ctx_ok_def ex_context_def ProcessContext_default_def)

lemmas loop_simps = schedule_iteration_split iteration_head_def lock_scheduler_free cpu_ready_def cli_ok_def usize_bound_def
  in_lock_def cli_in_def cpu_push_cli_eq try_wake_waiting_processes_def run_next_def heap_pop_def heap_maxima_def U64_MAX_def
  MIN_PRIORITY_VALUE_def usize_sub_def cpu_pop_cli_eq cli_out_def unlock_scheduler_held held_lock_def Let_def

lemmas trap_simps = run_interrupt_def scheduler_interrupt_handler_def interrupts_disabled_def save_flags_def
  syscall_interrupt_handler_def handle_syscall_def SYSCALLS_def finish_syscall_def yield_current_if_any_def
  take_current_process_def swap_and_take_def swap_context_def bt_remove_def reschedule_process_def process_exit_def
  vga_release_def other_spawn_def push_process_def scheduler_push_process_def msb64_def add_child_exit_def bt_contains_def

lemmas call_simps = sys_exit_def sys_wait_pid_def sys_sleep_def exit_current_process_def with_current_process_def
  get_child_exit_def wait_for_pid_def is_process_running_def park_current_def sleep_current_process_def clock_add_def
  usize_add_def less_eq_ClockTime_def ClockTime_le_def

lemmas ex_simps = boot_kernel_def ex_process_def Scheduler_new_def ex_call_def ex_kernel_state_def user_trap_def
  new_process_def I64_MAX_def NUM_SYSCALLS_def scheduler_calls_def clock_ok_def NANOS_PER_SEC_def ex_context_facts
  calm_def room_def cli_settle_def

lemmas run_simps = ex_simps loop_simps trap_simps call_simps

definition ex_first :: "(unit, unit) event list" where
  "ex_first = [Boot (ex_process 0 0), Schedule (ClockTime 0 0) 0 ex_kernel_state]"

definition ex_two :: "(unit, unit) event list" where
  "ex_two = ex_first @ [CallSpawn (ex_process 1 0) (ex_call 6 0 0), Schedule (ClockTime 0 0) 1 ex_kernel_state]"

lemma ex_first_run: "\<exists>k. runs ex_first (boot_kernel None []) k \<and> process_id (this_cpu k) = 0 \<and> cpu_context (this_cpu k) \<noteq> None"
  by (simp add: ex_first_def run_simps)

lemma ex_wait_run: "\<exists>k. runs (ex_two @ [Call (ClockTime 0 0) (ex_call 9 1 1), Schedule (ClockTime 0 1) 0 ex_kernel_state,
    Call (ClockTime 0 2) (ex_call 5 7 0)]) (boot_kernel None []) k \<and> cpu_context (this_cpu k) = None
    \<and> map p_id (exited_processes (scheduler k)) = [1] \<and> map fst (running_waiting_procs (scheduler k)) = [0]"
  by (simp add: ex_first_def ex_two_def run_simps)

section \<open>Every process is in one place\<close>

lemma running_set:
  assumes "sched_ok k"
  shows "no_running k \<Longrightarrow> {i. \<exists>sp. bt_get (running_waiting_procs (scheduler k)) i = Some sp \<and> sp_state sp = Running} = {}"
    "current k \<Longrightarrow> {i. \<exists>sp. bt_get (running_waiting_procs (scheduler k)) i = Some sp \<and> sp_state sp = Running} = {process_id (this_cpu k)}"
  using bt_in_set[OF sched_okD(1)[OF assms]] by (fastforce simp: no_running_def current_def)+



section \<open>What stops the kernel\<close>



section \<open>Waiting and waking\<close>

text \<open>
  C4.  A process that waits for its child is woken by the first iteration after the child has
  exited, with the exit code of the child in its \<open>rax\<close>, and the child is dropped.
\<close>
theorem waiting_parent_gets_exit_code:
  assumes "kernel_reach k" "enabled (Schedule now pick a) k" "\<not> is_shutdown k"
    and "(i, sp) \<in> set (running_waiting_procs (scheduler k))" "e \<in> set (exited_processes (scheduler k))"
    and "sp_state sp = WaitingForPid (p_id e)" "p_parent_id e = i"
  shows "\<exists>out k'. schedule_iteration now pick k = Ret (out, k') \<and> p_id e \<in> p_id ` set (dropped k')
    \<and> (\<exists>p \<in> runnable k'. p_id p = i \<and> c_rax (p_context p) = scast (p_exit_code e))"
proof -
  have b: "between k" using reach_between[OF assms(1)] assms(2) by simp
  obtain out k' woken stay ex' gone k4 where it: "schedule_iteration now pick k = Ret (out, k')" "iteration_head now k = Ret k4"
    "woke now k woken stay ex' gone k4" using iteration_runs[OF b assms(3)] by blast
  have sc: "scanned now k woken stay ex' gone" using it(3) by (simp add: woke_def)
  note res = iteration_result[OF it]
  obtain q where q: "q \<in> set woken" "follows sp q" "c_rax (p_context (sp_process q)) = scast (p_exit_code e)"
    using scannedD(9)[OF sc] assms(4-7) by fastforce
  have "sp_id sp = i" using sched_okD(2)[of k] b assms(4) by (auto simp: between_def entry_ok_def)
  then have "sp_id q = i" using q(2) by (simp add: follows_def)
  then obtain p where p: "p \<in> sp_process ` set (scheduled_processes (scheduler k4))" "p_id p = i" "p_context p = p_context (sp_process q)"
    using woke_queue[OF it(3), of q] q(1) by blast
  have "p \<in> runnable k'" using p(1) res(1) by blast
  moreover have "c_rax (p_context p) = scast (p_exit_code e)" using p(3) q(3) by simp
  moreover have "set (exited_processes (scheduler k)) = set ex' \<union> set gone" using scannedD(1)[OF sc] by (metis set_mset_mset set_mset_union)
  then have "e \<in> set (dropped k')" using assms(5) res(4) it(3) by (auto simp: woke_def)
  ultimately show ?thesis using it(1) p(2) by blast
qed

theorem waiting_parent_gets_exit_code_witness:
  "\<exists>(k :: (unit, unit) kernel) out k'. kernel_reach k \<and> schedule_iteration (ClockTime 0 3) 0 k = Ret (out, k')
     \<and> (\<exists>p \<in> runnable k'. p_id p = 0 \<and> c_rax (p_context p) = 7)"
proof -
  let ?es = "ex_two @ [Call (ClockTime 0 0) (ex_call 9 1 1), Schedule (ClockTime 0 1) 0 ex_kernel_state, Call (ClockTime 0 2) (ex_call 5 7 0)]"
  have "\<exists>k. runs ?es (boot_kernel None []) k \<and> enabled (Schedule (ClockTime 0 3) 0 ex_kernel_state) k \<and> \<not> is_shutdown k
      \<and> (\<exists>sp e. (0, sp) \<in> set (running_waiting_procs (scheduler k)) \<and> e \<in> set (exited_processes (scheduler k))
           \<and> sp_state sp = WaitingForPid (p_id e) \<and> p_parent_id e = 0 \<and> p_exit_code e = 7)"
    by (simp add: ex_first_def ex_two_def run_simps)
  then obtain k sp e where k: "runs ?es (boot_kernel None []) k" "enabled (Schedule (ClockTime 0 3) 0 ex_kernel_state) k" "\<not> is_shutdown k"
    and h: "(0, sp) \<in> set (running_waiting_procs (scheduler k))" "e \<in> set (exited_processes (scheduler k))"
      "sp_state sp = WaitingForPid (p_id e)" "p_parent_id e = 0" "p_exit_code e = 7" by blast
  have r: "kernel_reach k" using runs_reach[OF k(1) kernel_boot] .
  show ?thesis using waiting_parent_gets_exit_code[OF r k(2,3) h(1-4)] r h(5) by auto
qed

text \<open>
  C5.  A sleeping process is woken by the first iteration at or after its deadline, with its
  registers as it left them; before the deadline it stays as it is.
\<close>
theorem sleeper_wakes_on_time:
  assumes "kernel_reach k" "enabled (Schedule now pick a) k" "\<not> is_shutdown k"
    and "(i, sp) \<in> set (running_waiting_procs (scheduler k))" "sp_state sp = WaitingForTime t"
  shows "\<exists>out k'. schedule_iteration now pick k = Ret (out, k')
    \<and> (if t \<le> now then \<exists>p \<in> runnable k'. p_id p = i \<and> p_context p = p_context (sp_process sp)
       else (i, sp) \<in> set (running_waiting_procs (scheduler k')))"
proof -
  have b: "between k" using reach_between[OF assms(1)] assms(2) by simp
  obtain out k' woken stay ex' gone k4 where it: "schedule_iteration now pick k = Ret (out, k')" "iteration_head now k = Ret k4"
    "woke now k woken stay ex' gone k4" using iteration_runs[OF b assms(3)] by blast
  note res = iteration_result[OF it]
  have "scanned now k woken stay ex' gone" using it(3) by (simp add: woke_def)
  then have w: "if t \<le> now then sp \<in> set woken else (i, sp) \<in> set stay" using scannedD(8) assms(4,5) by fastforce
  have "sp_id sp = i" using sched_okD(2)[of k] b assms(4) by (auto simp: between_def entry_ok_def)
  then have "\<exists>p \<in> runnable k'. p_id p = i \<and> p_context p = p_context (sp_process sp)" if "t \<le> now"
    using woke_queue[OF it(3), of sp] w that res(1) by auto
  then show ?thesis using it(1) w res(2) by auto
qed

text \<open>The run of the witness: process 0 sleeps until the tenth second, and process 1 exits before.\<close>

definition ex_sleep :: "(unit, unit) event list" where
  "ex_sleep = ex_two @ [Call (ClockTime 0 0) (ex_call 17 10 0), Schedule (ClockTime 0 1) 0 ex_kernel_state,
     Call (ClockTime 0 2) (ex_call 5 7 0)]"

lemma ex_sleep_run:
  "\<exists>k. runs ex_sleep (boot_kernel None []) k \<and> enabled (Schedule (ClockTime 0 n) 0 ex_kernel_state) k \<and> \<not> is_shutdown k
     \<and> (\<exists>sp e. (0, sp) \<in> set (running_waiting_procs (scheduler k)) \<and> sp_state sp = WaitingForTime (ClockTime 0 10)
          \<and> e \<in> set (exited_processes (scheduler k)) \<and> p_parent_id e = 0 \<and> p_id e = 1)"
  by (simp add: ex_sleep_def ex_first_def ex_two_def run_simps)

theorem sleeper_wakes_on_time_witness:
  "\<exists>(k :: (unit, unit) kernel) out k'. kernel_reach k \<and> schedule_iteration (ClockTime 0 10) 0 k = Ret (out, k')
     \<and> (\<exists>p \<in> runnable k'. p_id p = 0)"
proof -
  obtain k sp where k: "runs ex_sleep (boot_kernel None []) k" "enabled (Schedule (ClockTime 0 10) 0 ex_kernel_state) k" "\<not> is_shutdown k"
    "(0, sp) \<in> set (running_waiting_procs (scheduler k))" "sp_state sp = WaitingForTime (ClockTime 0 10)"
    using ex_sleep_run[of 10] by blast
  have "kernel_reach k" using runs_reach[OF k(1) kernel_boot] .
  then show ?thesis using sleeper_wakes_on_time[OF _ k(2-5)] by auto
qed

text \<open>
  C8.  The exit of a child is lost when its parent sleeps: the iteration drops the child without
  recording its exit code, so that the parent can never learn it.
\<close>
theorem sleeping_parent_loses_exit:
  assumes "kernel_reach k" "enabled (Schedule now pick a) k" "\<not> is_shutdown k"
    and "(i, sp) \<in> set (running_waiting_procs (scheduler k))" "sp_state sp = WaitingForTime t" "now < t"
    and "e \<in> set (exited_processes (scheduler k))" "p_parent_id e = i"
  shows "\<exists>out k'. schedule_iteration now pick k = Ret (out, k') \<and> p_id e \<in> p_id ` set (dropped k')
    \<and> bt_get (running_waiting_procs (scheduler k')) i = Some sp \<and> bt_get (children_exits (sp_process sp)) (p_id e) = None"
proof -
  have b: "between k" using reach_between[OF assms(1)] assms(2) by simp
  then have ok: "sched_ok k" by (simp add: between_def)
  obtain out k' woken stay ex' gone k4 where it: "schedule_iteration now pick k = Ret (out, k')" "iteration_head now k = Ret k4"
    "woke now k woken stay ex' gone k4" using iteration_runs[OF b assms(3)] by blast
  note res = iteration_result[OF it]
  have sc: "scanned now k woken stay ex' gone" using it(3) by (simp add: woke_def)
  have "\<not> t \<le> now" using assms(6) by simp
  then have "(i, sp) \<in> set stay" using scannedD(8)[OF sc] assms(4,5) by fastforce
  then have "(i, sp) \<in> set (running_waiting_procs (scheduler k'))" using res(2) by blast
  then have "bt_get (running_waiting_procs (scheduler k')) i = Some sp"
    using bt_in_set[OF sched_okD(1)[OF iteration_states(1)[OF b it(1)]]] by simp
  moreover have "proc_ok (p_id ` set (dropped k)) (sp_process sp)" using sched_okD(2)[OF ok assms(4)] by (simp add: entry_ok_def)
  then have "bt_get (children_exits (sp_process sp)) (p_id e) = None"
    by (rule proc_ok_get) (use sched_okD(4)[OF ok] assms(7) in \<open>auto simp: all_ids_def\<close>)
  moreover have "set (exited_processes (scheduler k)) = set ex' \<union> set gone" using scannedD(1)[OF sc] by (metis set_mset_mset set_mset_union)
  then have "p_id e \<in> p_id ` set (dropped k')" using assms(7) res(4) it(3) by (auto simp: woke_def)
  ultimately show ?thesis using it(1) by blast
qed

theorem sleeping_parent_loses_exit_witness:
  "\<exists>(k :: (unit, unit) kernel) out k' sp. kernel_reach k \<and> schedule_iteration (ClockTime 0 3) 0 k = Ret (out, k')
     \<and> bt_get (running_waiting_procs (scheduler k')) 0 = Some sp \<and> bt_get (children_exits (sp_process sp)) 1 = None
     \<and> 1 \<in> p_id ` set (dropped k')"
proof -
  obtain k sp e where k: "runs ex_sleep (boot_kernel None []) k" "enabled (Schedule (ClockTime 0 3) 0 ex_kernel_state) k" "\<not> is_shutdown k"
    "(0, sp) \<in> set (running_waiting_procs (scheduler k))" "sp_state sp = WaitingForTime (ClockTime 0 10)"
    and e: "e \<in> set (exited_processes (scheduler k))" "p_parent_id e = 0" "p_id e = 1"
    using ex_sleep_run[of 3] by blast
  have r: "kernel_reach k" using runs_reach[OF k(1) kernel_boot] .
  have t: "ClockTime 0 3 < ClockTime 0 10" by (simp add: less_ClockTime_def less_eq_ClockTime_def ClockTime_le_def)
  show ?thesis using sleeping_parent_loses_exit[OF r k(2-5) t e(1,2)] r e(3) by auto
qed

section \<open>An idle kernel\<close>

text \<open>No process has exited and no sleeper is due: waking up changes nothing.\<close>

definition quiet :: "ClockTime \<Rightarrow> ('f, 'd) kernel \<Rightarrow> bool" where
  "quiet now k \<longleftrightarrow> exited_processes (scheduler k) = []
     \<and> (\<forall>x \<in> set (running_waiting_procs (scheduler k)). case sp_state (snd x) of WaitingForTime t \<Rightarrow> now < t | st \<Rightarrow> True)"

lemma quiet_wake:
  assumes "sched_ok k" "quiet now k"
  shows "try_wake_waiting_processes now k = Ret k"
proof -
  have "wake_scan now m [] = Ret ([], m, [], [])"
    if "\<forall>x \<in> set m. sp_state (snd x) \<noteq> Scheduled \<and> (case sp_state (snd x) of WaitingForTime t \<Rightarrow> now < t | st \<Rightarrow> True)"
    for m :: "('a, 'b) SchedulerProcess btmap"
    using that by (induction m) (auto split: ProcessState.splits)
  moreover have "\<forall>x \<in> set (running_waiting_procs (scheduler k)). sp_state (snd x) \<noteq> Scheduled"
    using sched_okD(2)[OF assms(1)] by (simp add: entry_ok_def)
  ultimately have "wake_scan now (running_waiting_procs (scheduler k)) (exited_processes (scheduler k)) = Ret ([], running_waiting_procs (scheduler k), [], [])"
    using assms(2) by (simp add: quiet_def)
  then show ?thesis using assms(2) by (cases k) (simp add: try_wake_waiting_processes_def Let_def quiet_def)
qed

lemma quiet_head:
  assumes "between k" "\<not> is_shutdown k" "quiet now k"
  shows "iteration_head now k = Ret (k\<lparr>sched_lock := held_lock, this_cpu := cli_in (in_lock (this_cpu k))\<rparr>)"
proof -
  let ?k1 = "k\<lparr>sched_lock := held_lock, this_cpu := in_lock (this_cpu k)\<rparr>"
  have b: "sched_lock k = new_lock" "cpu_ready (this_cpu k)" "sched_ok k" "n_cli (this_cpu k) = 0"
    using assms(1) by (simp_all add: between_def)
  have "lock_scheduler k = Ret ?k1" using b by (intro lock_scheduler_free) (simp_all add: cli_ok_def usize_bound_def)
  moreover have "cpu_push_cli ?k1 = Ret (?k1\<lparr>this_cpu := cli_in (in_lock (this_cpu k))\<rparr>)"
    using b by (subst cpu_push_cli_eq) (simp_all add: usize_bound_def)
  moreover have "try_wake_waiting_processes now (?k1\<lparr>this_cpu := cli_in (in_lock (this_cpu k))\<rparr>) = Ret (?k1\<lparr>this_cpu := cli_in (in_lock (this_cpu k))\<rparr>)"
    using b(3) assms(3) by (intro quiet_wake) (simp_all add: quiet_def)
  ultimately show ?thesis using assms(2) by (simp add: iteration_head_def)
qed

text \<open>
  C7.  A kernel that finds nothing to run never runs again: the iteration leaves one level of
  disabled interrupts behind and halts the CPU with interrupts off, and no event can happen any
  more, whatever processes sleep.
\<close>
theorem idle_kernel_is_stuck:
  assumes "kernel_reach k" "enabled (Schedule now pick a) k" "\<not> is_shutdown k" "0 < next_pid k"
    and "scheduled_processes (scheduler k) = []" "quiet now k"
  shows "\<exists>k'. schedule_iteration now pick k = Ret (HaltCpu, k') \<and> n_cli (this_cpu k') = 1 \<and> \<not> interrupt_flag (this_cpu k')
    \<and> scheduler k' = scheduler k \<and> (\<forall>e. \<not> enabled e k')"
proof -
  have b: "between k" using reach_between[OF assms(1)] assms(2) by simp
  note h = quiet_head[OF b assms(3,6)]
  let ?k4 = "k\<lparr>sched_lock := held_lock, this_cpu := cli_in (in_lock (this_cpu k))\<rparr>"
  obtain k' where k': "schedule_iteration now pick k = Ret (HaltCpu, k')" "halted k'" "scheduler k' = scheduler ?k4" "next_pid k' = next_pid ?k4"
    using iteration_idle[OF b h, of pick] b assms(3,5) by (auto simp: between_def)
  have "\<not> enabled e k'" for e using k'(2,4) assms(4) by (cases e) (auto simp: halted_def user_trap_def)
  then show ?thesis using k' by (auto simp: halted_def)
qed

theorem idle_kernel_is_stuck_witness:
  "\<exists>(k :: (unit, unit) kernel) k'. kernel_reach k \<and> schedule_iteration (ClockTime 0 3) 0 k = Ret (HaltCpu, k')
     \<and> \<not> interrupt_flag (this_cpu k') \<and> map fst (running_waiting_procs (scheduler k')) = [0]"
proof -
  let ?es = "ex_first @ [Call (ClockTime 0 0) (ex_call 17 10 0)]"
  have "\<exists>k. runs ?es (boot_kernel None []) k \<and> enabled (Schedule (ClockTime 0 3) 0 ex_kernel_state) k \<and> \<not> is_shutdown k
      \<and> 0 < next_pid k \<and> scheduled_processes (scheduler k) = [] \<and> quiet (ClockTime 0 3) k
      \<and> map fst (running_waiting_procs (scheduler k)) = [0]"
    by (simp add: ex_first_def run_simps quiet_def less_ClockTime_def)
  then obtain k where k: "runs ?es (boot_kernel None []) k" "enabled (Schedule (ClockTime 0 3) 0 ex_kernel_state) k" "\<not> is_shutdown k"
    "0 < next_pid k" "scheduled_processes (scheduler k) = []" "quiet (ClockTime 0 3) k" "map fst (running_waiting_procs (scheduler k)) = [0]"
    by (elim exE conjE)
  have r: "kernel_reach k" using runs_reach[OF k(1) kernel_boot] .
  obtain k' where "schedule_iteration (ClockTime 0 3) 0 k = Ret (HaltCpu, k')" "\<not> interrupt_flag (this_cpu k')" "scheduler k' = scheduler k"
    using idle_kernel_is_stuck[OF r k(2-6)] by (elim exE conjE, intro that)
  then show ?thesis using r k(7) by (intro exI[of _ k] exI[of _ k']) simp
qed

section \<open>Shutdown\<close>



section \<open>Preemption is invisible\<close>

lemma yield_queues:
  assumes "on_cpu k" "\<not> is_shutdown k" "yield_current_if_any a k = Ret (a1, k1)"
  shows "\<exists>sp \<in> set (scheduled_processes (scheduler k1)). sp_id sp = process_id (this_cpu k)
      \<and> p_context (sp_process sp) = saved_context (fpu k) a" "\<not> is_shutdown k1" "off_cpu k1" "to_kernel a1"
proof -
  obtain sp kc where o: "calm k" "sched_ok k" "bt_get (running_waiting_procs (scheduler k)) (process_id (this_cpu k)) = Some sp"
    "sp_state sp = Running" "cpu_context (this_cpu k) = Some kc" "bit (c_rflags kc) 9" "\<not> scheduling (this_cpu k)"
    "n_cli (this_cpu k) + 3 < usize_bound" using assms(1) by (rule on_cpuE)
  have "reschedule_process (parked k a sp) (unload kc a k) = Ret k1"
    using yield_current_eq[OF o(1,3-5,7,8), of a] assms(3) by (cases "reschedule_process (parked k a sp) (unload kc a k)") simp_all
  then have k1: "scheduled_processes (scheduler k1) = scheduled_processes (scheduler k) @ [rescheduled (max_priority (scheduler k)) (parked k a sp)]"
    "\<not> is_shutdown k1" using assms(2) by (auto simp: reschedule_process_def unload_def rescheduled_def Let_def)
  have "sp_id sp = process_id (this_cpu k)" using current_entry[OF o(2,3)] by (simp add: entry_ok_def)
  then show "\<exists>sp \<in> set (scheduled_processes (scheduler k1)). sp_id sp = process_id (this_cpu k)
      \<and> p_context (sp_process sp) = saved_context (fpu k) a" by (simp add: k1(1) parked_def)
  show "\<not> is_shutdown k1" by (fact k1(2))
  show "off_cpu k1" "to_kernel a1" using yield_ok[OF assms(1), of a] assms(3) by auto
qed

text \<open>
  C3.  A process that loses the CPU to the timer and is chosen by the next iteration goes on with
  every register, the floating point state and the flags included, as the timer found them.
\<close>
theorem preempted_process_resumes:
  assumes "kernel_reach k" "cpu_context (this_cpu k) \<noteq> None" "\<not> is_shutdown k"
    and "run_interrupt yield_current_if_any a k = Ret (a1, k1)"
    and "schedule_iteration now pick k1 = Ret (EnterProcess, k2)" "process_id (this_cpu k2) = process_id (this_cpu k)"
    and "f_cs (frame b) AND 3 = 0"
  shows "\<exists>a2 k3. run_interrupt scheduler_interrupt_handler b k2 = Ret (a2, k3)
    \<and> saved_context (fpu k3) a2 = saved_context (fpu k) (save_flags (this_cpu k) a)"
proof -
  let ?k = "k\<lparr>this_cpu := (this_cpu k)\<lparr>interrupt_flag := False\<rparr>\<rparr>" and ?a = "save_flags (this_cpu k) a"
  have "on_cpu k" using reach_on_cpu[OF assms(1,2)] .
  then have o: "on_cpu ?k" by simp
  obtain k0 where y: "yield_current_if_any ?a ?k = Ret (a1, k0)"
    "k1 = k0\<lparr>this_cpu := (this_cpu k0)\<lparr>interrupt_flag := bit (f_rflags (frame a1)) 9\<rparr>\<rparr>"
    using assms(4) by (cases "yield_current_if_any ?a ?k") (auto simp: run_interrupt_def)
  have ns: "\<not> is_shutdown ?k" using assms(3) by simp
  note yq = yield_queues[OF o ns y(1)]
  have b: "between k1" using off_cpu_between[OF yq(3,4)] by (simp add: y(2))
  have ns1: "\<not> is_shutdown k1" using yq(2) by (simp add: y(2))
  obtain sp where sp: "sp \<in> set (scheduled_processes (scheduler k1))" "sp_id sp = process_id (this_cpu k)"
    "p_context (sp_process sp) = saved_context (fpu k) ?a" using yq(1) by (auto simp: y(2))
  obtain woken stay ex' gone k4 where it: "iteration_head now k1 = Ret k4" "woke now k1 woken stay ex' gone k4"
    using iteration_wakes[OF b ns1, of now] by blast
  obtain p where p: "p \<in> sp_process ` set (scheduled_processes (scheduler k4))" "p_id p = sp_id sp" "p_context p = p_context (sp_process sp)"
    using woke_queue[OF it(2), of sp] sp(1) by blast
  have ent: "entered k2" using iteration_states(2)[OF b assms(5)] by simp
  have "p \<in> runnable k2" using iteration_result(1)[OF assms(5) it] p(1) by blast
  then obtain sp2 where sp2: "bt_get (running_waiting_procs (scheduler k2)) (process_id (this_cpu k2)) = Some sp2" "sp_process sp2 = p"
    using runnable_current[of k2 p] ent p(2) sp(2) assms(6) by (auto simp: entered_def)
  obtain a2 k3 sp3 where e: "run_interrupt scheduler_interrupt_handler b k2 = Ret (a2, k3)"
    "bt_get (running_waiting_procs (scheduler k3)) (process_id (this_cpu k3)) = Some sp3" "saved_context (fpu k3) a2 = p_context (sp_process sp3)"
    using enter_ok[OF ent assms(7)] by blast
  have "scheduler k3 = scheduler k2" "process_id (this_cpu k3) = process_id (this_cpu k2)"
    using e(1) by (auto simp: run_interrupt_def scheduler_interrupt_handler_def assert_exec_def exec_simps
        split: option.splits if_splits prod.splits)
  then show ?thesis using e sp2 p(3) sp(3) by simp
qed

theorem preempted_process_resumes_witness:
  "\<exists>(k :: (unit, unit) kernel) a1 k1 k2 a2 k3. kernel_reach k
     \<and> run_interrupt yield_current_if_any (ex_call 1 2 3) k = Ret (a1, k1)
     \<and> schedule_iteration (ClockTime 0 1) 0 k1 = Ret (EnterProcess, k2)
     \<and> run_interrupt scheduler_interrupt_handler ex_kernel_state k2 = Ret (a2, k3) \<and> r_rcx (rest a2) = 2"
proof -
  have "\<exists>k a1 k1 k2. runs ex_first (boot_kernel None []) k \<and> cpu_context (this_cpu k) \<noteq> None \<and> \<not> is_shutdown k
      \<and> run_interrupt yield_current_if_any (ex_call 1 2 3) k = Ret (a1, k1)
      \<and> schedule_iteration (ClockTime 0 1) 0 k1 = Ret (EnterProcess, k2) \<and> process_id (this_cpu k2) = process_id (this_cpu k)"
    by (simp add: ex_first_def run_simps)
  then obtain k a1 k1 k2 where k: "runs ex_first (boot_kernel None []) k" "cpu_context (this_cpu k) \<noteq> None" "\<not> is_shutdown k"
    "run_interrupt yield_current_if_any (ex_call 1 2 3) k = Ret (a1, k1)"
    "schedule_iteration (ClockTime 0 1) 0 k1 = Ret (EnterProcess, k2)" "process_id (this_cpu k2) = process_id (this_cpu k)"
    by (elim exE conjE)
  have r: "kernel_reach k" using runs_reach[OF k(1) kernel_boot] .
  have "f_cs (frame ex_kernel_state) AND 3 = 0" by (simp add: ex_kernel_state_def)
  from preempted_process_resumes[OF r k(2-6) this] obtain a2 k3 where
    e: "run_interrupt scheduler_interrupt_handler ex_kernel_state k2 = Ret (a2, k3)"
      "saved_context (fpu k3) a2 = saved_context (fpu k) (save_flags (this_cpu k) (ex_call 1 2 3))"
    by (elim exE conjE)
  have "r_rcx (rest a2) = c_rcx (saved_context (fpu k3) a2)" by (simp add: saved_context_def)
  also have "\<dots> = 2" unfolding e(2) by (simp add: saved_context_def ex_call_def)
  finally show ?thesis using r k(4,5) e(1) by (intro exI conjI)
qed

end
