(* ===== verification/Spec2Isabelle.thy ===== *)
theory Spec2Isabelle
  imports Ring_Buffer Pipe Link_Syscalls Link_File Virtual_Space Page_Tables_Proofs
    Spin_Locks Once_Lock Kernel_Heap Process Clock Cmdline Input_Devices Scheduler_Properties
begin

text \<open>
  A verification library for the Emerald operating system.

  \<^bold>\<open>The program.\<close>  Emerald is a kernel for one x86-64 CPU with a user library and a few user
  programs.  At boot the kernel reads its command line, builds a list of the free physical pages,
  maps itself with four level page tables and gives itself a heap and a region of virtual addresses
  for devices.  It then creates the first process and enters the loop of its scheduler.  A process
  runs until the timer, a system call or its exit takes it off the CPU.  System calls carry their
  arguments and their result in registers, encoded by a library that the kernel and the user
  programs share.  Processes talk through pipes; kernel data is protected by spin locks, which also
  disable interrupts, and by cells that are written once.

  \<^bold>\<open>Shape of the model.\<close>  Every operation of the code is a function on explicit state, in the type
  \<open>exec\<close> of the theory \<open>Prelude\<close>: it returns a value or it panics, where a panic is an assertion, an
  \<open>unwrap\<close>, an arithmetic overflow of the default build profile, or a read of memory that was never
  written.  Errors of type \<open>Result\<close> are sums.  Structs are records, enums are datatypes, fields keep
  the names they have in the code up to a prefix where two records would clash.  Registers, flags
  and encodings are machine words; sizes and addresses are natural numbers with checked arithmetic.
  Memory the code shares by pointer is an explicit store: pages by physical address, heap headers
  by address, a pipe's buffer under both its sides.

  \<^bold>\<open>Theories and what they show.\<close>

  \<^item> \<open>Memory_Layout\<close>: kernel/src/memory_management/memory_layout.rs, the address map and the alignment
    masks, which compute the nearest multiples.
  \<^item> \<open>Phys_Alloc\<close>: physical_page_allocator.rs and the memory map of multiboot2.rs.  The free list is
    threaded through the free pages; it starts with exactly the available pages above the kernel,
    and no page is handed out twice.
  \<^item> \<open>Page_Tables\<close>, \<open>Page_Tables_Proofs\<close>: virtual_memory_mapper.rs.  The tables of an address space
    form a tree without sharing; \<open>map\<close> and \<open>unmap\<close> change the translation of the pages of the range
    and of no other page.
  \<^item> \<open>Virtual_Space\<close>: virtual_space.rs.  Granted ranges are aligned, disjoint and recorded; releasing
    a range after a free predecessor breaks this.
  \<^item> \<open>Heap_Alloc\<close>, \<open>Heap_Alloc_Proofs\<close>, \<open>Kernel_Heap\<close>: libraries/increasing_heap_allocator and
    kernel_heap_allocator.rs.  The heap is a row of tiles, free or in use; the doubly linked list
    in the heap holds the free ones.  The locale \<open>page_provider\<close> is the contract of the trait the
    allocator grows through; its interpretation \<open>kheap\<close> is the provider of the kernel, over the page
    tables.  Blocks in use are disjoint and aligned, every one can be given back, and a request
    succeeds while the region has room.
  \<^item> \<open>Queue_Interface\<close>, \<open>Ring_Buffer\<close>, \<open>Pipe\<close>: collections/ring.rs and devices/pipe.rs, both
    interpretations of the locale \<open>fifo\<close>.  Both deliver what they accepted, in order, in every
    interleaving.
  \<^item> \<open>Spin_Locks\<close>, \<open>Once_Lock\<close>: sync/spin and sync/once.rs, and the interrupt nesting of cpu/mod.rs.
    The operations are cut at every access to a shared atomic and interleaved over any number of
    CPUs; a write guard excludes every other guard, and the panics are known exactly.
  \<^item> \<open>Link_Syscalls\<close>, \<open>Link_File\<close>: libraries/kernel_user_link (syscalls.rs, file.rs, process.rs).
    Encoders and decoders are inverse to each other, with the exceptions stated.
  \<^item> \<open>Fs_Types\<close>: the error types, attributes and access rights of fs/mod.rs, fs/fat.rs, fs/mapping.rs
    and devices/ide.rs.
  \<^item> \<open>Clock\<close>: devices/clock/mod.rs and rtc.rs.  The system time is exact; the date of the real time
    clock is decoded to the day count of the Gregorian calendar.
  \<^item> \<open>Cmdline\<close>: cmdline.rs and its tokenizer, parsers and macro.  The parser returns for every text
    and reads back every command line that is written as assignments.
  \<^item> \<open>Input_Devices\<close>: devices/keyboard_mouse and the events of kernel_user_link/src/keyboard.rs and
    mouse.rs, with their readers in libraries/emerald_runtime.  The driver sends the events that the
    history of the scan codes and the mouse packets mean, and user programs read them unchanged.
  \<^item> \<open>BTree_Map\<close>, \<open>Context_Switch\<close>, \<open>Process\<close>: the ordered map of the standard library, the register
    file and process/mod.rs.  A context switch exchanges the whole register file.
  \<^item> \<open>Scheduler\<close>, \<open>Scheduler_Proofs\<close>, \<open>Scheduler_Run\<close>, \<open>Scheduler_Events\<close>, \<open>Scheduler_Properties\<close>:
    process/scheduler.rs, the system calls of process/syscalls/mod.rs that reach it, and the
    interrupts that enter it, as the relation \<open>kernel_reach\<close> over the lock, the CPU, the processes and
    the registers.  Each process is in exactly one place in every reachable state, the events that
    stop the kernel are known exactly, and exits, sleepers, preemption and shutdown are followed
    through the loop.

  \<^bold>\<open>Parameters.\<close>  What comes from outside the sources is an argument: the memory map and the kernel's
  end address, the readings of clock devices and the registers of the real time clock, the choice
  of the standard library's binary heap among equal priorities, the ports of the PS/2 controller,
  the broadcast queue of the input events, the spurious failures of weak
  compare and exchange, and the contents of the floating point registers.

  \<^bold>\<open>Bounds and fuel.\<close>  A walk over the heap's list of free blocks gets as many steps as the heap has
  bytes, and one more, and a request grows the heap at most twice; the invariant of the heap shows
  that this is enough, so that \<open>OutOfFuel\<close> is reached only where the code would not end.  The
  scheduler takes its own lock in one step, which is enough on one CPU.  The parser of the command
  line terminates by the length of the text.  The handler of input events and the iterators over
  them get a number of passes, and more passes than there are events are enough.  All other loops are structural recursions.

  \<^bold>\<open>Not modelled.\<close>  The FAT file system and the path lookup of the kernel's file layer; the loader of
  executables; ACPI, PCI, the interrupt controllers, the consoles and the
  timers, which act on device registers through inline assembly; the user programs and the build
  tool.  The list of components gives the reason for each of them.
\<close>

end
